(* ===== verification/Prelude.thy ===== *)
theory Prelude
  imports Main "HOL-Library.Word"
begin

text \<open>
  Shared vocabulary of the development: how Rust's panics, fallible results and
  machine integers are written in HOL, and the generic lemmas every component
  uses.

  A Rust function that can panic becomes a HOL function into \<open>panic + 'a\<close>.
  \<open>Inl\<close> records why the thread stopped.  Integer overflow in \<open>+\<close>, \<open>-\<close>, \<open>*\<close>
  and over-long shifts are \<open>Inl Overflow\<close>: the \<open>dev\<close> profile of the compiler
  panics there and the \<open>release\<close> profile wraps.  A theorem that concludes
  \<open>Inr v\<close> therefore describes both profiles.  Atomic \<open>fetch_add\<close>, which wraps
  in both profiles, is plain word addition.
\<close>

unbundle bit_operations_syntax

named_theorems rust_simps \<open>unfolding of the panic monad and of checked arithmetic\<close>
named_theorems rust_splits \<open>case splits used when a proof follows every branch\<close>

subsection \<open>Panics\<close>

datatype panic =
    Overflow            \<comment> \<open>arithmetic overflow or over-long shift\<close>
  | AssertFailed        \<comment> \<open>\<open>assert!\<close> or \<open>assert_eq!\<close>\<close>
  | UnwrapFailed        \<comment> \<open>\<open>unwrap\<close> or \<open>expect\<close> on \<open>None\<close> or \<open>Err\<close>\<close>
  | IndexOutOfBounds    \<comment> \<open>slice or array index\<close>
  | Unimplemented       \<comment> \<open>\<open>todo!\<close>, \<open>unimplemented!\<close>\<close>
  | ExplicitPanic       \<comment> \<open>\<open>panic!\<close>\<close>
  | DivideByZero        \<comment> \<open>\<open>/\<close> or \<open>%\<close> by zero\<close>

type_synonym 'a rust = "panic + 'a"
type_synonym u8 = "8 word"
type_synonym u16 = "16 word"
type_synonym u32 = "32 word"
type_synonym u64 = "64 word"
type_synonym usize = "64 word"

definition rbind :: "'e + 'a \<Rightarrow> ('a \<Rightarrow> 'e + 'b) \<Rightarrow> 'e + 'b" where
  "rbind m f = (case m of Inl e \<Rightarrow> Inl e | Inr x \<Rightarrow> f x)"

definition rassert :: "bool \<Rightarrow> panic + unit" where
  "rassert b = (if b then Inr () else Inl AssertFailed)"

definition runwrap :: "'a option \<Rightarrow> panic + 'a" where
  "runwrap x = (case x of None \<Rightarrow> Inl UnwrapFailed | Some v \<Rightarrow> Inr v)"

definition rindex :: "'a list \<Rightarrow> nat \<Rightarrow> panic + 'a" where
  "rindex xs i = (if i < length xs then Inr (xs ! i) else Inl IndexOutOfBounds)"

lemma rbind_simps [simp]:
  "rbind (Inl e) f = Inl e"
  "rbind (Inr x) f = f x"
  by (simp_all add: rbind_def)

lemma rbind_eq_Inr [rust_simps]:
  "rbind m f = Inr y \<longleftrightarrow> (\<exists>x. m = Inr x \<and> f x = Inr y)"
  by (cases m) auto

lemma rbind_eq_Inl [rust_simps]:
  "rbind m f = Inl e \<longleftrightarrow> m = Inl e \<or> (\<exists>x. m = Inr x \<and> f x = Inl e)"
  by (cases m) auto

lemma case_sum_eq:
  "(case x of Inl a \<Rightarrow> f a | Inr b \<Rightarrow> g b) = y \<longleftrightarrow> (\<exists>a. x = Inl a \<and> f a = y) \<or> (\<exists>b. x = Inr b \<and> g b = y)"
  by (cases x) auto

lemma case_option_eq:
  "(case x of None \<Rightarrow> a | Some b \<Rightarrow> g b) = y \<longleftrightarrow> x = None \<and> a = y \<or> (\<exists>b. x = Some b \<and> g b = y)"
  by (cases x) auto

lemma rbind_cong [fundef_cong]:
  "m = m' \<Longrightarrow> (\<And>x. m' = Inr x \<Longrightarrow> f x = g x) \<Longrightarrow> rbind m f = rbind m' g"
  by (cases m') auto

lemma rassert_simps [simp]:
  "rassert True = Inr ()"
  "rassert False = Inl AssertFailed"
  by (simp_all add: rassert_def)

lemma rassert_eq_Inr [rust_simps]: "rassert b = Inr u \<longleftrightarrow> b"
  by (simp add: rassert_def)

lemma runwrap_simps [simp]:
  "runwrap None = Inl UnwrapFailed"
  "runwrap (Some v) = Inr v"
  by (simp_all add: runwrap_def)

lemma runwrap_eq_Inr [rust_simps]: "runwrap x = Inr v \<longleftrightarrow> x = Some v"
  by (cases x) auto

lemma rindex_eq_Inr [rust_simps]: "rindex xs i = Inr v \<longleftrightarrow> i < length xs \<and> v = xs ! i"
  by (auto simp: rindex_def)

lemma rindex_in [simp]: "i < length xs \<Longrightarrow> rindex xs i = Inr (xs ! i)"
  by (simp add: rindex_def)

text \<open>A \<open>for\<close> loop whose body may panic, over the elements it visits.\<close>

primrec rfold :: "('s \<Rightarrow> 'a \<Rightarrow> 'e + 's) \<Rightarrow> 's \<Rightarrow> 'a list \<Rightarrow> 'e + 's" where
  "rfold f s [] = Inr s"
| "rfold f s (x # xs) = rbind (f s x) (\<lambda>s'. rfold f s' xs)"

lemma rfold_append [simp]: "rfold f s (xs @ ys) = rbind (rfold f s xs) (\<lambda>s'. rfold f s' ys)"
  by (induction xs arbitrary: s) (auto simp: rbind_def split: sum.split)

lemma rfold_invariant:
  assumes "I [] s"
    and step: "\<And>xs x s. \<exists>zs. ys = xs @ x # zs \<Longrightarrow> I xs s \<Longrightarrow> \<exists>s'. f s x = Inr s' \<and> I (xs @ [x]) s'"
  shows "\<exists>s'. rfold f s ys = Inr s' \<and> I ys s'"
proof -
  have "\<exists>s'. rfold f s xs = Inr s' \<and> I xs s'" if "\<exists>zs. ys = xs @ zs" for xs
    using that
  proof (induction xs rule: rev_induct)
    case Nil
    then show ?case using assms(1) by simp
  next
    case (snoc x xs)
    then obtain s' where "rfold f s xs = Inr s'" "I xs s'" by auto
    moreover obtain s'' where "f s' x = Inr s''" "I (xs @ [x]) s''"
      using step [of xs x s'] snoc.prems \<open>I xs s'\<close> by auto
    ultimately show ?case by auto
  qed
  then show ?thesis by simp
qed

subsection \<open>Checked arithmetic on words\<close>

definition uadd :: "'w::len word \<Rightarrow> 'w word \<Rightarrow> panic + 'w word" where
  "uadd a b = (if unat a + unat b < 2 ^ LENGTH('w) then Inr (a + b) else Inl Overflow)"

definition usub :: "'w::len word \<Rightarrow> 'w word \<Rightarrow> panic + 'w word" where
  "usub a b = (if b \<le> a then Inr (a - b) else Inl Overflow)"

definition umul :: "'w::len word \<Rightarrow> 'w word \<Rightarrow> panic + 'w word" where
  "umul a b = (if unat a * unat b < 2 ^ LENGTH('w) then Inr (a * b) else Inl Overflow)"

definition ushl :: "'w::len word \<Rightarrow> nat \<Rightarrow> panic + 'w word" where
  "ushl a n = (if n < LENGTH('w) then Inr (push_bit n a) else Inl Overflow)"

definition urem :: "'w::len word \<Rightarrow> 'w word \<Rightarrow> panic + 'w word" where
  "urem a b = (if b = 0 then Inl DivideByZero else Inr (a mod b))"

definition udiv :: "'w::len word \<Rightarrow> 'w word \<Rightarrow> panic + 'w word" where
  "udiv a b = (if b = 0 then Inl DivideByZero else Inr (a div b))"

definition checked_add :: "'w::len word \<Rightarrow> 'w word \<Rightarrow> 'w word option" where
  "checked_add a b = (if unat a + unat b < 2 ^ LENGTH('w) then Some (a + b) else None)"

definition checked_sub :: "'w::len word \<Rightarrow> 'w word \<Rightarrow> 'w word option" where
  "checked_sub a b = (if b \<le> a then Some (a - b) else None)"

definition checked_mul :: "'w::len word \<Rightarrow> 'w word \<Rightarrow> 'w word option" where
  "checked_mul a b = (if unat a * unat b < 2 ^ LENGTH('w) then Some (a * b) else None)"

lemma take_bit_unat_small:
  "unat a < 2 ^ n \<Longrightarrow> take_bit n a = a" for a :: "'w::len word"
  by (simp add: word_unat_eq_iff unsigned_take_bit_eq take_bit_nat_eq_self)

lemma uadd_eq_Inr [rust_simps]:
  "uadd a b = Inr c \<longleftrightarrow> unat a + unat b < 2 ^ LENGTH('w) \<and> c = a + b"
  for a b c :: "'w::len word"
  by (auto simp: uadd_def)

lemma usub_eq_Inr [rust_simps]: "usub a b = Inr c \<longleftrightarrow> b \<le> a \<and> c = a - b"
  by (auto simp: usub_def)

lemma umul_eq_Inr [rust_simps]:
  "umul a b = Inr c \<longleftrightarrow> unat a * unat b < 2 ^ LENGTH('w) \<and> c = a * b"
  for a b c :: "'w::len word"
  by (auto simp: umul_def)

lemma unat_add_no_overflow:
  "unat a + unat b < 2 ^ LENGTH('w) \<Longrightarrow> unat (a + b) = unat a + unat b"
  for a b :: "'w::len word"
  by (simp add: unat_word_ariths)

lemma unat_mul_no_overflow:
  "unat a * unat b < 2 ^ LENGTH('w) \<Longrightarrow> unat (a * b) = unat a * unat b"
  for a b :: "'w::len word"
  by (simp add: unat_word_ariths)

lemma unat_sub_le: "b \<le> a \<Longrightarrow> unat (a - b) = unat a - unat b"
  for a b :: "'w::len word"
  by (simp add: unat_sub)

end
