(* ===== verification/Kernel_Handles.thy ===== *)
theory Kernel_Handles
  imports Prelude
begin

text \<open>
  \<open>Handles\<close> of \<open>kernel/src/object/task.rs\<close>: the table of a task that maps the numbers it knows its
  objects by to the objects.  An object is named by a reference here, the address of its \<open>Arc\<close>.
  The counter of the next handle is atomic and wraps.  The locale \<open>handle_store\<close> is what the system
  calls that move objects between tasks rely on.
\<close>

type_synonym ref = nat
type_synonym handle = u32

record handles =
  table :: "handle \<Rightarrow> ref option"
  next_handle :: u32

definition handles_new :: handles where
  "handles_new = \<lparr>table = (\<lambda>_. None), next_handle = 1\<rparr>"

definition handles_add :: "handles \<Rightarrow> ref \<Rightarrow> handle \<times> handles" where
  "handles_add h r =
     (next_handle h, h\<lparr>table := (table h)(next_handle h \<mapsto> r), next_handle := next_handle h + 1\<rparr>)"

definition handles_remove :: "handles \<Rightarrow> handle \<Rightarrow> handles" where
  "handles_remove h k = h\<lparr>table := (table h)(k := None)\<rparr>"

definition handles_get :: "handles \<Rightarrow> handle \<Rightarrow> ref option" where
  "handles_get h k = table h k"

subsection \<open>What the system calls rely on\<close>

text \<open>Adding a list of objects in order, and the handles they get.\<close>

primrec add_all :: "('h \<Rightarrow> ref \<Rightarrow> 'k \<times> 'h) \<Rightarrow> 'h \<Rightarrow> ref list \<Rightarrow> 'k list \<times> 'h" where
  "add_all add h [] = ([], h)"
| "add_all add h (r # rs) =
     (let (k, h') = add h r; (ks, h'') = add_all add h' rs in (k # ks, h''))"

locale handle_store =
  fixes inv :: "'h \<Rightarrow> bool" and room :: "'h \<Rightarrow> nat" and zero :: 'k
    and get :: "'h \<Rightarrow> 'k \<Rightarrow> ref option" and add :: "'h \<Rightarrow> ref \<Rightarrow> 'k \<times> 'h" and remove :: "'h \<Rightarrow> 'k \<Rightarrow> 'h"
  assumes get_add: "add h r = (k, h') \<Longrightarrow> get h' = (get h)(k \<mapsto> r)"
    and add_fresh: "inv h \<Longrightarrow> 0 < room h \<Longrightarrow> add h r = (k, h') \<Longrightarrow> get h k = None \<and> k \<noteq> zero \<and> inv h'"
    and add_room: "0 < room h \<Longrightarrow> add h r = (k, h') \<Longrightarrow> room h' = room h - 1"
    and get_remove: "get (remove h k) = (get h)(k := None)"
    and remove_inv: "inv h \<Longrightarrow> inv (remove h k) \<and> room (remove h k) = room h"
begin

lemma add_all_length: "add_all add h rs = (ks, h') \<Longrightarrow> length ks = length rs"
  by (induction rs arbitrary: h ks) (auto simp: split_beta)

lemma add_all_ok:
  assumes "inv h" and "length rs \<le> room h" and "add_all add h rs = (ks, h')"
  shows "inv h' \<and> room h' = room h - length rs \<and> distinct ks \<and> zero \<notin> set ks \<and>
     (\<forall>k \<in> set ks. get h k = None) \<and> get h' = get h ++ map_of (zip ks rs)"
  using assms
proof (induction rs arbitrary: h ks)
  case Nil
  then show ?case by simp
next
  case (Cons r rs)
  obtain k h1 where a: "add h r = (k, h1)" by (cases "add h r")
  obtain ks' where b: "add_all add h1 rs = (ks', h')" "ks = k # ks'"
    using Cons.prems(3) a by (cases "add_all add h1 rs") auto
  have room: "0 < room h" using Cons.prems(2) by simp
  have f: "get h k = None" "k \<noteq> zero" "inv h1" "room h1 = room h - 1" "get h1 = (get h)(k \<mapsto> r)"
    using add_fresh [OF Cons.prems(1) room a] add_room [OF room a] get_add [OF a] by auto
  have IH: "inv h'" "room h' = room h1 - length rs" "distinct ks'" "zero \<notin> set ks'"
      "\<forall>k \<in> set ks'. get h1 k = None" "get h' = get h1 ++ map_of (zip ks' rs)"
    using Cons.IH [OF f(3) _ b(1)] Cons.prems(2) f(4) by auto
  have nk: "k \<notin> set ks'" and old: "\<forall>k' \<in> set ks'. get h k' = None" using IH(5) unfolding f(5) by (auto split: if_splits)
  have "k \<notin> fst ` set (zip ks' rs)" using nk by (auto dest: set_zip_leftD)
  then have "map_of (zip ks' rs) k = None" by (simp add: map_of_eq_None_iff)
  then have "get h' = get h ++ map_of (zip (k # ks') (r # rs))"
    unfolding IH(6) f(5) by (auto simp: map_add_def fun_eq_iff split: option.splits)
  then show ?case using IH(1-4) f(1-4) nk old Cons.prems(2) unfolding b(2) by (simp del: zip_Cons_Cons)
qed

end

subsection \<open>The table of a task\<close>

definition handles_inv :: "handles \<Rightarrow> bool" where
  "handles_inv h \<longleftrightarrow> 0 < next_handle h \<and> (\<forall>k \<in> dom (table h). 0 < k \<and> k < next_handle h)"

definition handles_room :: "handles \<Rightarrow> nat" where
  "handles_room h = 2 ^ 32 - 1 - unat (next_handle h)"

lemma handles_new_inv: "handles_inv handles_new" and handles_new_room: "handles_room handles_new = 2 ^ 32 - 2"
  by (simp_all add: handles_inv_def handles_new_def handles_room_def)

lemma next_handle_less:
  assumes "0 < handles_room h"
  shows "next_handle h < next_handle h + 1" and "unat (next_handle h + 1) = unat (next_handle h) + 1"
proof -
  have "unat (next_handle h) + unat (1 :: u32) < 2 ^ LENGTH(32)" using assms by (simp add: handles_room_def)
  then show "unat (next_handle h + 1) = unat (next_handle h) + 1" by (subst unat_add_no_overflow) simp_all
  then show "next_handle h < next_handle h + 1" by (simp add: word_less_nat_alt)
qed

interpretation task_handles: handle_store handles_inv handles_room "0 :: handle" handles_get handles_add handles_remove
proof
  fix h r k h' assume a: "handles_add h r = (k, h')"
  then have e: "k = next_handle h" "h' = h\<lparr>table := (table h)(k \<mapsto> r), next_handle := k + 1\<rparr>"
    by (auto simp: handles_add_def)
  show "handles_get h' = (handles_get h)(k \<mapsto> r)" using e by (auto simp: handles_get_def)
  assume room: "0 < handles_room h"
  then show "handles_room h' = handles_room h - 1" using e next_handle_less(2) [OF room] by (simp add: handles_room_def)
  assume inv: "handles_inv h"
  have lt: "0 < k" "k < k + 1" using inv next_handle_less(1) [OF room] e(1) by (auto simp: handles_inv_def)
  have old: "0 < k' \<and> k' < k" if "table h k' = Some r'" for k' r'
    using inv that e(1) by (auto simp: handles_inv_def)
  have "table h k = None" using old [of k] by (cases "table h k") auto
  moreover have "0 < k' \<and> k' < k + 1" if "table h k' = Some r'" for k' r'
    using old [OF that] lt by (meson order.strict_trans)
  moreover have "0 < k + 1" using lt by (rule order.strict_trans)
  ultimately show "handles_get h k = None \<and> k \<noteq> 0 \<and> handles_inv h'"
    using lt e by (auto simp: handles_inv_def handles_get_def split: if_splits)
next
  fix h k
  show "handles_get (handles_remove h k) = (handles_get h)(k := None)"
    by (simp add: handles_get_def handles_remove_def fun_eq_iff)
  show "handles_inv (handles_remove h k) \<and> handles_room (handles_remove h k) = handles_room h" if "handles_inv h"
    using that by (auto simp: handles_inv_def handles_room_def handles_remove_def)
qed

end
