(* ===== verification/Mulch_Bitmap.thy ===== *)
theory Mulch_Bitmap
  imports Prelude
begin

text \<open>
  \<open>lib/mulch/src/bitmap.rs\<close>: allocation of runs of bits in an integer or in a slice of bytes.
  Reading and writing ranges of bits is done by the crate \<open>bit_field\<close>, which is not part of the
  repository: its two operations are parameters, and the locale \<open>bit_field\<close> states what the crate
  documents about them.  The locale is interpreted for integers and for byte slices.
\<close>

subsection \<open>Operations\<close>

record ('b, 'c) bit_ops =
  get_bits :: "'b \<Rightarrow> nat \<Rightarrow> nat \<Rightarrow> panic + 'c"
  set_bits :: "'b \<Rightarrow> nat \<Rightarrow> nat \<Rightarrow> 'c \<Rightarrow> panic + 'b"

primrec bitmap_search ::
  "('b, 'w::len word) bit_ops \<Rightarrow> 'b \<Rightarrow> nat \<Rightarrow> 'w word \<Rightarrow> nat list \<Rightarrow> panic + (nat option \<times> 'b)" where
  "bitmap_search ops b n m [] = Inr (None, b)"
| "bitmap_search ops b n m (i # is) =
     rbind (get_bits ops b i (i + n)) (\<lambda>c.
       if c AND m = 0
       then rbind (set_bits ops b i (i + n) m) (\<lambda>b'. Inr (Some i, b'))
       else bitmap_search ops b n m is)"

text \<open>The implementation for integers.\<close>

definition bitmap_alloc ::
  "('w word, 'w::len word) bit_ops \<Rightarrow> 'w word \<Rightarrow> nat \<Rightarrow> panic + (nat option \<times> 'w word)" where
  "bitmap_alloc ops w n =
     rbind (ushl 1 n) (\<lambda>p. rbind (usub p 1) (\<lambda>m.
       if n \<le> LENGTH('w) then bitmap_search ops w n m [0 ..< LENGTH('w) - n] else Inl Overflow))"

definition bitmap_free ::
  "('w word, 'w::len word) bit_ops \<Rightarrow> 'w word \<Rightarrow> nat \<Rightarrow> nat \<Rightarrow> panic + 'w word" where
  "bitmap_free ops w index n =
     rbind (get_bits ops w index (index + n)) (\<lambda>c.
     rbind (ushl 1 n) (\<lambda>p. rbind (usub p 1) (\<lambda>m.
     rbind (rassert (c = m)) (\<lambda>_. set_bits ops w index (index + n) 0))))"

text \<open>The implementation for slices of bytes.\<close>

definition slice_alloc :: "(u8 list, u8) bit_ops \<Rightarrow> u8 list \<Rightarrow> nat \<Rightarrow> panic + (nat option \<times> u8 list)" where
  "slice_alloc ops bs n =
     rbind (ushl 1 n) (\<lambda>p. rbind (usub p 1) (\<lambda>m.
       if n \<le> 8 * length bs then bitmap_search ops bs n m [0 ..< 8 * length bs - n] else Inl Overflow))"

definition slice_free :: "(u8 list, u8) bit_ops \<Rightarrow> u8 list \<Rightarrow> nat \<Rightarrow> nat \<Rightarrow> panic + u8 list" where
  "slice_free ops bs index n =
     rbind (get_bits ops bs index (index + n)) (\<lambda>c.
     rbind (ushl 1 n) (\<lambda>p. rbind (usub p 1) (\<lambda>m.
     rbind (rassert (c = m)) (\<lambda>_. set_bits ops bs index (index + n) 0))))"

subsection \<open>What \<open>bit_field\<close> promises\<close>

text \<open>A range must be nonempty, within the bits there are and no longer than the integers it is
  exchanged through; a written value must fit the range.\<close>

lemma ball_shift: "(\<forall>k < n. P (i + k)) \<longleftrightarrow> (\<forall>x \<in> {i ..< i + n :: nat}. P x)"
proof
  assume p: "\<forall>k < n. P (i + k)"
  show "\<forall>x \<in> {i ..< i + n}. P x"
  proof
    fix x assume "x \<in> {i ..< i + n}"
    then have "x - i < n" and "i + (x - i) = x" by auto
    then show "P x" using p by metis
  qed
qed simp

lemma word_eq_bits: "v = w \<longleftrightarrow> (\<forall>k. bit v k \<longleftrightarrow> bit w k)" for v w :: "'w::len word"
  by (auto intro: bit_word_eqI)

lemma find_upt_Some: "find P [0..<m] = Some i \<longleftrightarrow> i < m \<and> P i \<and> (\<forall>j < i. \<not> P j)"
  unfolding find_Some_iff by auto

lemma find_upt_None: "find P [0..<m] = None \<longleftrightarrow> (\<forall>i < m. \<not> P i)"
  by (simp add: find_None_iff)

text \<open>The set bits among the first \<open>N\<close>.\<close>

definition used_bits :: "nat \<Rightarrow> (nat \<Rightarrow> bool) \<Rightarrow> nat set" where
  "used_bits N p = {k. k < N \<and> p k}"

locale bit_field =
  fixes ops :: "('b, 'w::len word) bit_ops" and num_bits :: "'b \<Rightarrow> nat" and bit_of :: "'b \<Rightarrow> nat \<Rightarrow> bool"
  assumes get_law:
    "i < j \<Longrightarrow> j \<le> num_bits b \<Longrightarrow> j - i \<le> LENGTH('w) \<Longrightarrow>
       \<exists>c. get_bits ops b i j = Inr c \<and> (\<forall>k. bit c k \<longleftrightarrow> k < j - i \<and> bit_of b (i + k))"
    and set_law:
    "i < j \<Longrightarrow> j \<le> num_bits b \<Longrightarrow> j - i \<le> LENGTH('w) \<Longrightarrow> (\<forall>k. bit v k \<longrightarrow> k < j - i) \<Longrightarrow>
       \<exists>b'. set_bits ops b i j v = Inr b' \<and> num_bits b' = num_bits b \<and>
         (\<forall>k. bit_of b' k \<longleftrightarrow> (if i \<le> k \<and> k < j then bit v (k - i) else bit_of b k))"
begin

abbreviation used :: "'b \<Rightarrow> nat set" where
  "used b \<equiv> used_bits (num_bits b) (bit_of b)"

lemma get_bits_clear:
  assumes "0 < n" and "i + n \<le> num_bits b" and "n < LENGTH('w)"
  shows "\<exists>c. get_bits ops b i (i + n) = Inr c \<and>
     (c AND mask n = 0 \<longleftrightarrow> {i ..< i + n} \<inter> used b = {}) \<and> (c = mask n \<longleftrightarrow> {i ..< i + n} \<subseteq> used b)"
proof -
  obtain c where c: "get_bits ops b i (i + n) = Inr c" "\<forall>k. bit c k \<longleftrightarrow> k < n \<and> bit_of b (i + k)"
    using get_law [of i "i + n" b] assms by auto
  have m: "bit (mask n :: 'w word) k \<longleftrightarrow> k < n" for k using assms(3) by (auto simp: bit_mask_iff)
  have "c AND mask n = 0 \<longleftrightarrow> (\<forall>k < n. \<not> bit_of b (i + k))" unfolding word_eq_bits by (auto simp: bit_and_iff m c(2))
  also have "\<dots> \<longleftrightarrow> {i ..< i + n} \<inter> used b = {}"
    unfolding ball_shift [of n "\<lambda>x. \<not> bit_of b x"] using assms(2) by (auto simp: used_bits_def)
  finally have z: "c AND mask n = 0 \<longleftrightarrow> {i ..< i + n} \<inter> used b = {}" .
  have "c = mask n \<longleftrightarrow> (\<forall>k < n. bit_of b (i + k))" unfolding word_eq_bits by (auto simp: m c(2))
  also have "\<dots> \<longleftrightarrow> {i ..< i + n} \<subseteq> used b"
    unfolding ball_shift [of n "bit_of b"] using assms(2) by (auto simp: used_bits_def)
  finally show ?thesis using c(1) z by blast
qed

lemma set_bits_used:
  assumes "0 < n" and "i + n \<le> num_bits b" and "n < LENGTH('w)"
  shows "\<exists>b'. set_bits ops b i (i + n) (mask n) = Inr b' \<and> num_bits b' = num_bits b \<and> used b' = used b \<union> {i ..< i + n}"
    and "\<exists>b'. set_bits ops b i (i + n) 0 = Inr b' \<and> num_bits b' = num_bits b \<and> used b' = used b - {i ..< i + n}"
proof -
  have m: "bit (mask n :: 'w word) k \<longleftrightarrow> k < n" for k using assms(3) by (auto simp: bit_mask_iff)
  obtain b' where "set_bits ops b i (i + n) (mask n) = Inr b'" "num_bits b' = num_bits b"
      "\<forall>k. bit_of b' k \<longleftrightarrow> (if i \<le> k \<and> k < i + n then k - i < n else bit_of b k)"
    using set_law [of i "i + n" b "mask n"] assms by (auto simp: m)
  then show "\<exists>b'. set_bits ops b i (i + n) (mask n) = Inr b' \<and> num_bits b' = num_bits b \<and> used b' = used b \<union> {i ..< i + n}"
    using assms by (intro exI [of _ b']) (auto simp: used_bits_def)
  obtain b' where "set_bits ops b i (i + n) 0 = Inr b'" "num_bits b' = num_bits b"
      "\<forall>k. bit_of b' k \<longleftrightarrow> (if i \<le> k \<and> k < i + n then False else bit_of b k)"
    using set_law [of i "i + n" b 0] assms by auto
  then show "\<exists>b'. set_bits ops b i (i + n) 0 = Inr b' \<and> num_bits b' = num_bits b \<and> used b' = used b - {i ..< i + n}"
    by (intro exI [of _ b']) (auto simp: used_bits_def)
qed

lemma bitmap_search_ok:
  assumes "0 < n" and "n < LENGTH('w)" and "\<And>i. i \<in> set is \<Longrightarrow> i + n \<le> num_bits b"
  shows "case find (\<lambda>i. {i ..< i + n} \<inter> used b = {}) is of
      None \<Rightarrow> bitmap_search ops b n (mask n) is = Inr (None, b)
    | Some i \<Rightarrow> \<exists>b'. bitmap_search ops b n (mask n) is = Inr (Some i, b') \<and> num_bits b' = num_bits b \<and>
        used b' = used b \<union> {i ..< i + n}"
  using assms(3)
proof (induction "is")
  case Nil
  then show ?case by simp
next
  case (Cons i "is")
  obtain c where c: "get_bits ops b i (i + n) = Inr c" "c AND mask n = 0 \<longleftrightarrow> {i ..< i + n} \<inter> used b = {}"
    using get_bits_clear [of n i b] assms(1,2) Cons.prems by auto
  show ?case
  proof (cases "{i ..< i + n} \<inter> used b = {}")
    case True
    then show ?thesis using c set_bits_used(1) [of n i b] assms(1,2) Cons.prems by auto
  next
    case False
    then show ?thesis using c Cons.IH Cons.prems by (simp split: option.splits)
  qed
qed

lemma search_cases:
  assumes n: "0 < n" "n < LENGTH('w)"
  shows "(\<exists>i b'. i < num_bits b - n \<and> {i ..< i + n} \<inter> used b = {} \<and> (\<forall>j < i. {j ..< j + n} \<inter> used b \<noteq> {}) \<and>
       bitmap_search ops b n (mask n) [0 ..< num_bits b - n] = Inr (Some i, b') \<and>
       num_bits b' = num_bits b \<and> used b' = used b \<union> {i ..< i + n}) \<or>
     (\<forall>i < num_bits b - n. {i ..< i + n} \<inter> used b \<noteq> {}) \<and>
       bitmap_search ops b n (mask n) [0 ..< num_bits b - n] = Inr (None, b)"
proof -
  let ?P = "\<lambda>i. {i ..< i + n} \<inter> used b = {}" and ?is = "[0 ..< num_bits b - n]"
  have "i + n \<le> num_bits b" if "i \<in> set ?is" for i using that by simp
  note ok = bitmap_search_ok [OF n this, of ?is]
  show ?thesis
  proof (cases "find ?P ?is")
    case None
    then have "bitmap_search ops b n (mask n) ?is = Inr (None, b)" using ok by simp
    then show ?thesis using None unfolding find_upt_None by blast
  next
    case (Some i)
    then obtain b' where "bitmap_search ops b n (mask n) ?is = Inr (Some i, b')" "num_bits b' = num_bits b"
        "used b' = used b \<union> {i ..< i + n}"
      using ok by auto
    then show ?thesis using Some unfolding find_upt_Some by blast
  qed
qed

lemma bitmap_clear_ok:
  assumes "0 < n" and "n < LENGTH('w)" and "i + n \<le> num_bits b"
  shows "\<exists>c b'. get_bits ops b i (i + n) = Inr c \<and> (c = mask n \<longleftrightarrow> {i ..< i + n} \<subseteq> used b) \<and>
     set_bits ops b i (i + n) 0 = Inr b' \<and> num_bits b' = num_bits b \<and> used b' = used b - {i ..< i + n}"
  using get_bits_clear [OF assms(1,3,2)] set_bits_used(2) [OF assms(1,3,2)] by blast

end

lemma shift_mask:
  assumes "n < LENGTH('w::len)"
  shows "ushl 1 n = Inr (2 ^ n :: 'w word)" and "usub (2 ^ n) 1 = Inr (mask n :: 'w word)"
proof -
  show "ushl 1 n = Inr (2 ^ n :: 'w word)" using assms by (simp add: ushl_def push_bit_eq_mult)
  have "(2 ^ n :: 'w word) \<noteq> 0" using assms by simp
  then have "1 \<le> (2 ^ n :: 'w word)" by (simp add: word_le_nat_alt Suc_le_eq unat_gt_0)
  then show "usub (2 ^ n) 1 = Inr (mask n :: 'w word)" by (simp add: usub_def mask_eq_exp_minus_1)
qed

subsection \<open>Integers and slices of bytes\<close>

text \<open>Implementations of the two operations that satisfy the laws.\<close>

definition word_bit_ops :: "('w word, 'w::len word) bit_ops" where
  "word_bit_ops =
     \<lparr>get_bits = (\<lambda>w i j. if i < j \<and> j \<le> LENGTH('w) then Inr (take_bit (j - i) (drop_bit i w)) else Inl AssertFailed),
      set_bits = (\<lambda>w i j v. if i < j \<and> j \<le> LENGTH('w) \<and> take_bit (j - i) v = v
        then Inr ((w AND NOT (push_bit i (mask (j - i)))) OR push_bit i v) else Inl AssertFailed)\<rparr>"

definition bytes_bit :: "u8 list \<Rightarrow> nat \<Rightarrow> bool" where
  "bytes_bit bs k \<longleftrightarrow> k < 8 * length bs \<and> bit (bs ! (k div 8)) (k mod 8)"

definition bytes_bit_ops :: "(u8 list, u8) bit_ops" where
  "bytes_bit_ops =
     \<lparr>get_bits = (\<lambda>bs i j. if i < j \<and> j \<le> 8 * length bs \<and> j - i \<le> 8
        then Inr (horner_sum of_bool 2 (map (bytes_bit bs) [i..<j])) else Inl AssertFailed),
      set_bits = (\<lambda>bs i j v. if i < j \<and> j \<le> 8 * length bs \<and> j - i \<le> 8 \<and> take_bit (j - i) v = v
        then Inr (map (\<lambda>m. horner_sum of_bool 2
          (map (\<lambda>k. if i \<le> 8 * m + k \<and> 8 * m + k < j then bit v (8 * m + k - i) else bit (bs ! m) k) [0..<8]))
            [0..<length bs]) else Inl AssertFailed)\<rparr>"

lemma bits_fit: "(\<forall>k. bit v k \<longrightarrow> k < n) \<Longrightarrow> take_bit n v = v" for v :: "'w::len word"
  by (auto simp: word_eq_bits bit_take_bit_iff)

interpretation word_bits: bit_field "word_bit_ops :: ('w word, 'w::len word) bit_ops" "\<lambda>_. LENGTH('w)" bit
proof
  fix i j and b :: "'w word"
  assume a: "i < j" "j \<le> LENGTH('w)" "j - i \<le> LENGTH('w)"
  show "\<exists>c. get_bits word_bit_ops b i j = Inr c \<and> (\<forall>k. bit c k \<longleftrightarrow> k < j - i \<and> bit b (i + k))"
    using a by (simp add: word_bit_ops_def bit_take_bit_iff bit_drop_bit_eq)
  fix v :: "'w word" assume v: "\<forall>k. bit v k \<longrightarrow> k < j - i"
  let ?w = "(b AND NOT (push_bit i (mask (j - i)))) OR push_bit i v"
  have "bit ?w k \<longleftrightarrow> (if i \<le> k \<and> k < j then bit v (k - i) else bit b k)" for k
  proof (cases "k < LENGTH('w)")
    case True
    then show ?thesis
      using a v [rule_format, of "k - i"] by (auto simp: bit_simps)
  next
    case False
    then show ?thesis using a by (auto simp: impossible_bit not_less dest: bit_imp_le_length)
  qed
  then show "\<exists>b'. set_bits word_bit_ops b i j v = Inr b' \<and> LENGTH('w) = LENGTH('w) \<and>
      (\<forall>k. bit b' k \<longleftrightarrow> (if i \<le> k \<and> k < j then bit v (k - i) else bit b k))"
    using a bits_fit [OF v] by (simp add: word_bit_ops_def)
qed

lemma bytes_bit_map:
  "bytes_bit (map (\<lambda>m. horner_sum of_bool 2 (map (f m) [0..<8])) [0..<l]) k \<longleftrightarrow> k < 8 * l \<and> f (k div 8) (k mod 8)"
  by (auto simp: bytes_bit_def bit_horner_sum_bit_iff less_mult_imp_div_less mult.commute)

interpretation byte_bits: bit_field bytes_bit_ops "\<lambda>bs. 8 * length bs" bytes_bit
proof
  fix i j and bs :: "u8 list"
  assume a: "i < j" "j \<le> 8 * length bs" "j - i \<le> LENGTH(8)"
  show "\<exists>c. get_bits bytes_bit_ops bs i j = Inr c \<and> (\<forall>k. bit c k \<longleftrightarrow> k < j - i \<and> bytes_bit bs (i + k))"
    using a by (auto simp: bytes_bit_ops_def bit_horner_sum_bit_iff)
  fix v :: u8 assume v: "\<forall>k. bit v k \<longrightarrow> k < j - i"
  let ?f = "\<lambda>m k. if i \<le> 8 * m + k \<and> 8 * m + k < j then bit v (8 * m + k - i) else bit (bs ! m) k"
  let ?bs = "map (\<lambda>m. horner_sum of_bool 2 (map (?f m) [0..<8])) [0..<length bs] :: u8 list"
  have "bytes_bit ?bs k \<longleftrightarrow> (if i \<le> k \<and> k < j then bit v (k - i) else bytes_bit bs k)" for k
    unfolding bytes_bit_map using a by (auto simp: bytes_bit_def)
  then show "\<exists>bs'. set_bits bytes_bit_ops bs i j v = Inr bs' \<and> 8 * length bs' = 8 * length bs \<and>
      (\<forall>k. bytes_bit bs' k \<longleftrightarrow> (if i \<le> k \<and> k < j then bit v (k - i) else bytes_bit bs k))"
    using a bits_fit [OF v] by (auto simp: bytes_bit_ops_def)
qed

subsection \<open>Properties\<close>

lemma used_bits_word: "used_bits LENGTH('w) (bit w) = {k. bit w k}" for w :: "'w::len word"
  by (auto simp: used_bits_def dest: bit_imp_le_length)

lemma used_word_inject: "{k. bit v k} = {k. bit w k} \<longleftrightarrow> v = w" for v w :: "'w::len word"
  by (auto simp: word_eq_bits)

lemma bitmap_alloc_cases:
  fixes w :: "'w::len word"
  assumes ops: "bit_field ops (\<lambda>_. LENGTH('w)) (bit :: 'w word \<Rightarrow> nat \<Rightarrow> bool)" and n: "0 < n" "n < LENGTH('w)"
  shows "(\<exists>i w'. i < LENGTH('w) - n \<and> {i ..< i + n} \<inter> {k. bit w k} = {} \<and>
       (\<forall>j < i. {j ..< j + n} \<inter> {k. bit w k} \<noteq> {}) \<and>
       bitmap_alloc ops w n = Inr (Some i, w') \<and> {k. bit w' k} = {k. bit w k} \<union> {i ..< i + n}) \<or>
     (\<forall>i < LENGTH('w) - n. {i ..< i + n} \<inter> {k. bit w k} \<noteq> {}) \<and> bitmap_alloc ops w n = Inr (None, w)"
  using bit_field.search_cases [OF assms, of w] n unfolding used_bits_word
  by (simp add: bitmap_alloc_def shift_mask)

lemma used_bits_bytes: "used_bits (8 * length bs) (bytes_bit bs) = {k. bytes_bit bs k}"
  by (auto simp: used_bits_def bytes_bit_def)

lemma bytes_bit_inject:
  assumes "length bs = length bs'" and "{k. bytes_bit bs k} = {k. bytes_bit bs' k}"
  shows "bs = bs'"
proof (rule nth_equalityI)
  fix m assume m: "m < length bs"
  have "bit (bs ! m) k \<longleftrightarrow> bit (bs' ! m) k" if "k < 8" for k
  proof -
    have "bytes_bit bs (8 * m + k) \<longleftrightarrow> bytes_bit bs' (8 * m + k)" using assms(2) by blast
    then show ?thesis using that m assms(1) by (simp add: bytes_bit_def)
  qed
  then show "bs ! m = bs' ! m" by (intro bit_word_eqI) simp
qed (fact assms(1))

lemma slice_alloc_cases:
  assumes ops: "bit_field ops (\<lambda>bs. 8 * length bs) bytes_bit" and n: "0 < n" "n < 8" "n \<le> 8 * length bs"
  shows "(\<exists>i bs'. i < 8 * length bs - n \<and> {i ..< i + n} \<inter> {k. bytes_bit bs k} = {} \<and>
       (\<forall>j < i. {j ..< j + n} \<inter> {k. bytes_bit bs k} \<noteq> {}) \<and>
       slice_alloc ops bs n = Inr (Some i, bs') \<and> length bs' = length bs \<and>
       {k. bytes_bit bs' k} = {k. bytes_bit bs k} \<union> {i ..< i + n}) \<or>
     (\<forall>i < 8 * length bs - n. {i ..< i + n} \<inter> {k. bytes_bit bs k} \<noteq> {}) \<and> slice_alloc ops bs n = Inr (None, bs)"
  using bit_field.search_cases [OF ops n(1), of bs] n unfolding used_bits_bytes
  by (simp add: slice_alloc_def shift_mask)

lemma slice_free_ok:
  assumes ops: "bit_field ops (\<lambda>bs. 8 * length bs) bytes_bit" and n: "0 < n" "n < 8" "i + n \<le> 8 * length bs"
  shows "if {i ..< i + n} \<subseteq> {k. bytes_bit bs k}
     then \<exists>bs'. slice_free ops bs i n = Inr bs' \<and> length bs' = length bs \<and>
       {k. bytes_bit bs' k} = {k. bytes_bit bs k} - {i ..< i + n}
     else slice_free ops bs i n = Inl AssertFailed"
proof -
  obtain c bs' where c: "get_bits ops bs i (i + n) = Inr c" "c = mask n \<longleftrightarrow> {i ..< i + n} \<subseteq> {k. bytes_bit bs k}"
      "set_bits ops bs i (i + n) 0 = Inr bs'" "length bs' = length bs"
      "{k. bytes_bit bs' k} = {k. bytes_bit bs k} - {i ..< i + n}"
    using bit_field.bitmap_clear_ok [OF ops n(1), of i bs, unfolded used_bits_bytes] n by auto
  then show ?thesis
    using n by (cases "c = mask n") (simp_all add: slice_free_def shift_mask rassert_def)
qed

text \<open>C29: allocating \<open>n\<close> bits of an integer sets the first run of \<open>n\<close> clear bits that starts before
  the last possible position, and changes no other bit; without such a run the integer is kept.\<close>

theorem bitmap_alloc_correct:
  fixes w :: "'w::len word"
  assumes "bit_field ops (\<lambda>_. LENGTH('w)) (bit :: 'w word \<Rightarrow> nat \<Rightarrow> bool)" and "0 < n" and "n < LENGTH('w)"
  shows "(\<exists>i w'. i < LENGTH('w) - n \<and> {i ..< i + n} \<inter> {k. bit w k} = {} \<and>
       (\<forall>j < i. {j ..< j + n} \<inter> {k. bit w k} \<noteq> {}) \<and>
       bitmap_alloc ops w n = Inr (Some i, w') \<and> {k. bit w' k} = {k. bit w k} \<union> {i ..< i + n}) \<or>
     (\<forall>i < LENGTH('w) - n. {i ..< i + n} \<inter> {k. bit w k} \<noteq> {}) \<and> bitmap_alloc ops w n = Inr (None, w)"
  using assms by (rule bitmap_alloc_cases)

theorem bitmap_alloc_correct_witness:
  "\<exists>i w'. bitmap_alloc word_bit_ops (0 :: u16) 3 = Inr (Some i, w') \<and> {k. bit w' k} = {i ..< i + 3}"
  using bitmap_alloc_correct [OF word_bits.bit_field_axioms, of 3 "0 :: u16"] by (auto dest: spec [of _ 0])

text \<open>Freeing an allocated run of bits restores the integer.\<close>

lemma bitmap_alloc_free:
  fixes w :: "'w::len word"
  assumes ops: "bit_field ops (\<lambda>_. LENGTH('w)) (bit :: 'w word \<Rightarrow> nat \<Rightarrow> bool)" and n: "0 < n" "n < LENGTH('w)"
    and a: "bitmap_alloc ops w n = Inr (Some i, w')"
  shows "bitmap_free ops w' i n = Inr w"
proof -
  have i: "i + n \<le> LENGTH('w)" "{i ..< i + n} \<inter> {k. bit w k} = {}" "{k. bit w' k} = {k. bit w k} \<union> {i ..< i + n}"
    using bitmap_alloc_cases [OF ops n, of w] a by auto
  obtain c v where c: "get_bits ops w' i (i + n) = Inr c" "c = mask n \<longleftrightarrow> {i ..< i + n} \<subseteq> {k. bit w' k}"
      "set_bits ops w' i (i + n) 0 = Inr v" "{k. bit v k} = {k. bit w' k} - {i ..< i + n}"
    using bit_field.bitmap_clear_ok [OF ops n i(1), of w', unfolded used_bits_word] by blast
  have "c = mask n" using c(2) i(3) by blast
  moreover have "{k. bit v k} = {k. bit w k}" using c(4) i by blast
  then have "v = w" by (simp only: used_word_inject)
  ultimately show ?thesis using c(1,3) n by (simp add: bitmap_free_def shift_mask)
qed

text \<open>The last run of bits is never tried: an integer whose only clear bits are the last \<open>n\<close> has no
  room for \<open>n\<close> bits.\<close>

lemma bitmap_alloc_misses_last:
  fixes w :: "'w::len word"
  assumes ops: "bit_field ops (\<lambda>_. LENGTH('w)) (bit :: 'w word \<Rightarrow> nat \<Rightarrow> bool)" and n: "0 < n" "n < LENGTH('w)"
    and w: "\<And>k. bit w k \<longleftrightarrow> k < LENGTH('w) - n"
  shows "{LENGTH('w) - n ..< LENGTH('w)} \<inter> {k. bit w k} = {} \<and> bitmap_alloc ops w n = Inr (None, w)"
proof -
  have "i \<in> {i ..< i + n} \<inter> {k. bit w k}" if "i < LENGTH('w) - n" for i
    using that n w by auto
  then show ?thesis using bitmap_alloc_cases [OF ops n, of w] w by fastforce
qed

end
