(* ===== verification/Bit_Fields.thy ===== *)
theory Bit_Fields
  imports Mulch_Bitmap
begin

text \<open>
  Fields of \<open>usize\<close> values, read and written through the crate \<open>bit_field\<close> by the encoding of system
  call results and by the page tables.
\<close>

type_synonym bit_field_ops = "(usize, usize) bit_ops"

definition field :: "usize \<Rightarrow> nat \<Rightarrow> nat \<Rightarrow> usize" where
  "field w i j = take_bit (j - i) (drop_bit i w)"

lemma bit_field_bit: "bit (field w i j) k \<longleftrightarrow> k < j - i \<and> bit w (i + k)"
  by (auto simp: field_def bit_simps)

abbreviation usize_bits :: "bit_field_ops \<Rightarrow> bool" where
  "usize_bits ops \<equiv> bit_field ops (\<lambda>_. 64) bit"

lemma get_field:
  assumes "usize_bits ops" and "i < j" and "j \<le> 64"
  shows "get_bits ops w i j = Inr (field w i j)"
proof -
  have len: "j - i \<le> LENGTH(64)" using assms(3) by simp
  obtain c where c: "get_bits ops w i j = Inr c" "\<forall>k. bit c k \<longleftrightarrow> k < j - i \<and> bit w (i + k)"
    using bit_field.get_law [OF assms(1,2) assms(3) len] by blast
  then have "c = field w i j" by (intro bit_eqI) (simp add: bit_field_bit)
  then show ?thesis using c(1) by simp
qed

lemma set_field:
  assumes "usize_bits ops" and "i < j" and "j \<le> 64" and "unat v < 2 ^ (j - i)"
  obtains w' where "set_bits ops w i j v = Inr w'" and "field w' i j = v"
    and "\<And>a b. b \<le> i \<or> j \<le> a \<Longrightarrow> field w' a b = field w a b"
proof -
  have len: "j - i \<le> LENGTH(64)" using assms(3) by simp
  have "take_bit (j - i) v = v" using assms(4) by (rule take_bit_unat_small)
  then have fits: "\<forall>k. bit v k \<longrightarrow> k < j - i" by (metis bit_take_bit_iff)
  obtain w' where w': "set_bits ops w i j v = Inr w'" "\<forall>k. bit w' k \<longleftrightarrow> (if i \<le> k \<and> k < j then bit v (k - i) else bit w k)"
    using bit_field.set_law [OF assms(1,2) assms(3) len fits] by blast
  show ?thesis
  proof
    show "set_bits ops w i j v = Inr w'" by fact
    show "field w' i j = v" using w'(2) fits by (intro bit_eqI) (auto simp: bit_field_bit)
    show "field w' a b = field w a b" if "b \<le> i \<or> j \<le> a" for a b
      using w'(2) that by (intro bit_eqI) (auto simp: bit_field_bit)
  qed
qed

lemma field_zero [simp]: "field 0 i j = 0"
  by (simp add: field_def)

lemma field_low: "unat w < 2 ^ j \<Longrightarrow> field w 0 j = w"
  by (simp add: field_def take_bit_unat_small)

lemma usize_word_bits: "usize_bits word_bit_ops"
  using word_bits.bit_field_axioms [where ?'w = 64] by simp

end
