(* ===== verification/Poplar_Abi.thy ===== *)
theory Poplar_Abi
  imports Kernel_Handles Bit_Fields
begin

text \<open>
  \<open>lib/poplar/src/syscall\<close>: the interface between the kernel and its clients.  How a result becomes the
  word that a system call returns, which the kernel does, and how the word becomes a result again,
  which the library of the client does.  The enumerations of errors are built by one macro of
  \<open>result.rs\<close> from a table of their variants; the locale \<open>error_table\<close> says what the tables have in
  common, and proves the round trips once for all of them.
\<close>

subsection \<open>Numbers of the system calls\<close>

definition SYSCALL_YIELD :: usize where "SYSCALL_YIELD = 0"
definition SYSCALL_EARLY_LOG :: usize where "SYSCALL_EARLY_LOG = 1"
definition SYSCALL_GET_FRAMEBUFFER :: usize where "SYSCALL_GET_FRAMEBUFFER = 2"
definition SYSCALL_CREATE_MEMORY_OBJECT :: usize where "SYSCALL_CREATE_MEMORY_OBJECT = 3"
definition SYSCALL_MAP_MEMORY_OBJECT :: usize where "SYSCALL_MAP_MEMORY_OBJECT = 4"
definition SYSCALL_CREATE_CHANNEL :: usize where "SYSCALL_CREATE_CHANNEL = 5"
definition SYSCALL_SEND_MESSAGE :: usize where "SYSCALL_SEND_MESSAGE = 6"
definition SYSCALL_GET_MESSAGE :: usize where "SYSCALL_GET_MESSAGE = 7"
definition SYSCALL_WAIT_FOR_MESSAGE :: usize where "SYSCALL_WAIT_FOR_MESSAGE = 8"
definition SYSCALL_PCI_GET_INFO :: usize where "SYSCALL_PCI_GET_INFO = 11"
definition SYSCALL_WAIT_FOR_EVENT :: usize where "SYSCALL_WAIT_FOR_EVENT = 12"
definition SYSCALL_POLL_INTEREST :: usize where "SYSCALL_POLL_INTEREST = 13"
definition SYSCALL_CREATE_ADDRESS_SPACE :: usize where "SYSCALL_CREATE_ADDRESS_SPACE = 14"
definition SYSCALL_SPAWN_TASK :: usize where "SYSCALL_SPAWN_TASK = 15"
definition SYSCALL_RESIZE_MEMORY_OBJECT :: usize where "SYSCALL_RESIZE_MEMORY_OBJECT = 16"
definition SYSCALL_WAIT_FOR_INTERRUPT :: usize where "SYSCALL_WAIT_FOR_INTERRUPT = 17"
definition SYSCALL_ACK_INTERRUPT :: usize where "SYSCALL_ACK_INTERRUPT = 18"

lemmas syscall_numbers =
  SYSCALL_YIELD_def SYSCALL_EARLY_LOG_def SYSCALL_GET_FRAMEBUFFER_def SYSCALL_CREATE_MEMORY_OBJECT_def
  SYSCALL_MAP_MEMORY_OBJECT_def SYSCALL_CREATE_CHANNEL_def SYSCALL_SEND_MESSAGE_def SYSCALL_GET_MESSAGE_def
  SYSCALL_WAIT_FOR_MESSAGE_def SYSCALL_PCI_GET_INFO_def SYSCALL_WAIT_FOR_EVENT_def SYSCALL_POLL_INTEREST_def
  SYSCALL_CREATE_ADDRESS_SPACE_def SYSCALL_SPAWN_TASK_def SYSCALL_RESIZE_MEMORY_OBJECT_def
  SYSCALL_WAIT_FOR_INTERRUPT_def SYSCALL_ACK_INTERRUPT_def

subsection \<open>Errors\<close>

text \<open>The two conversions that the macro \<open>define_error_type\<close> generates from a table.\<close>

fun error_try_from :: "('e \<times> usize) list \<Rightarrow> usize \<Rightarrow> 'e option" where
  "error_try_from [] status = None"
| "error_try_from ((e, n) # tbl) status = (if status = n then Some e else error_try_from tbl status)"

fun error_into :: "('e \<times> usize) list \<Rightarrow> 'e \<Rightarrow> usize" where
  "error_into [] e = 0"
| "error_into ((e', n) # tbl) e = (if e = e' then n else error_into tbl e)"

datatype early_log_error = MessageTooLong | MessageNotValidUtf8 | LogDoesNotHaveCorrectCapability

definition EarlyLogError :: "(early_log_error \<times> usize) list" where
  "EarlyLogError = [(MessageTooLong, 1), (MessageNotValidUtf8, 2), (LogDoesNotHaveCorrectCapability, 3)]"

datatype create_memory_object_error = InvalidFlags | InvalidSize | InvalidPhysicalAddressPointer

definition CreateMemoryObjectError :: "(create_memory_object_error \<times> usize) list" where
  "CreateMemoryObjectError = [(InvalidFlags, 1), (InvalidSize, 2), (InvalidPhysicalAddressPointer, 3)]"

datatype map_memory_object_error =
  MapInvalidMemoryObjectHandle | InvalidAddressSpaceHandle | RegionAlreadyMapped | AddressPointerInvalid

definition MapMemoryObjectError :: "(map_memory_object_error \<times> usize) list" where
  "MapMemoryObjectError = [(MapInvalidMemoryObjectHandle, 1), (InvalidAddressSpaceHandle, 2),
     (RegionAlreadyMapped, 3), (AddressPointerInvalid, 4)]"

datatype create_channel_error = InvalidHandleAddress

definition CreateChannelError :: "(create_channel_error \<times> usize) list" where
  "CreateChannelError = [(InvalidHandleAddress, 1)]"

datatype send_message_error =
  SendInvalidChannelHandle | SendNotAChannel | ChannelCannotSend | InvalidTransferredHandle
  | CannotTransferHandle | SendBytesAddressInvalid | TooManyBytes | SendHandlesAddressInvalid
  | TooManyHandles | OtherEndDisconnected

definition SendMessageError :: "(send_message_error \<times> usize) list" where
  "SendMessageError = [(SendInvalidChannelHandle, 1), (SendNotAChannel, 2), (ChannelCannotSend, 3),
     (InvalidTransferredHandle, 4), (CannotTransferHandle, 5), (SendBytesAddressInvalid, 6), (TooManyBytes, 7),
     (SendHandlesAddressInvalid, 8), (TooManyHandles, 9), (OtherEndDisconnected, 10)]"

datatype get_message_error =
  GetInvalidChannelHandle | GetNotAChannel | NoMessage | GetBytesAddressInvalid | BytesBufferTooSmall
  | GetHandlesAddressInvalid | HandlesBufferTooSmall

definition GetMessageError :: "(get_message_error \<times> usize) list" where
  "GetMessageError = [(GetInvalidChannelHandle, 1), (GetNotAChannel, 2), (NoMessage, 3),
     (GetBytesAddressInvalid, 4), (BytesBufferTooSmall, 5), (GetHandlesAddressInvalid, 6), (HandlesBufferTooSmall, 7)]"

datatype wait_for_event_error = InvalidEventHandle | NoEvent

definition WaitForEventError :: "(wait_for_event_error \<times> usize) list" where
  "WaitForEventError = [(InvalidEventHandle, 1), (NoEvent, 3)]"

datatype poll_interest_error = PollInvalidHandle | UnsupportedObjectType

definition PollInterestError :: "(poll_interest_error \<times> usize) list" where
  "PollInterestError = [(PollInvalidHandle, 1), (UnsupportedObjectType, 2)]"

datatype spawn_task_error = InvalidTaskName | NotAnAddressSpace | InvalidHandleToTransfer

definition SpawnTaskError :: "(spawn_task_error \<times> usize) list" where
  "SpawnTaskError = [(InvalidTaskName, 1), (NotAnAddressSpace, 2), (InvalidHandleToTransfer, 3)]"

text \<open>An enumeration without variants: the type \<open>unit\<close> stands for it, and no error is ever made of it.\<close>

definition CreateAddressSpaceError :: "(unit \<times> usize) list" where
  "CreateAddressSpaceError = []"

datatype resize_memory_object_error =
  ResizeInvalidMemoryObjectHandle | NewSizeTooBig | ResizedObjectCannotBeRemapped

definition ResizeMemoryObjectError :: "(resize_memory_object_error \<times> usize) list" where
  "ResizeMemoryObjectError = [(ResizeInvalidMemoryObjectHandle, 1), (NewSizeTooBig, 2), (ResizedObjectCannotBeRemapped, 3)]"

datatype wait_for_interrupt_error = WaitInvalidInterruptHandle | NoInterrupt

definition WaitForInterruptError :: "(wait_for_interrupt_error \<times> usize) list" where
  "WaitForInterruptError = [(WaitInvalidInterruptHandle, 1), (NoInterrupt, 2)]"

datatype ack_interrupt_error = AckInvalidInterruptHandle

definition AckInterruptError :: "(ack_interrupt_error \<times> usize) list" where
  "AckInterruptError = [(AckInvalidInterruptHandle, 1)]"

datatype get_framebuffer_error = AccessDenied | InfoAddressIsInvalid | NoFramebufferCreated

definition GetFramebufferError :: "(get_framebuffer_error \<times> usize) list" where
  "GetFramebufferError = [(AccessDenied, 1), (InfoAddressIsInvalid, 2), (NoFramebufferCreated, 3)]"

subsection \<open>Results\<close>

definition status_from_syscall_repr :: "('e \<times> usize) list \<Rightarrow> usize \<Rightarrow> panic + ('e + unit)" where
  "status_from_syscall_repr tbl status =
     (if status = 0 then Inr (Inr ()) else rbind (runwrap (error_try_from tbl status)) (\<lambda>e. Inr (Inl e)))"

definition status_to_syscall_repr :: "('e \<times> usize) list \<Rightarrow> 'e + unit \<Rightarrow> usize" where
  "status_to_syscall_repr tbl r = (case r of Inr u \<Rightarrow> 0 | Inl err \<Rightarrow> error_into tbl err)"

definition status_with_payload_to_syscall_repr :: "('e \<Rightarrow> panic + usize) \<Rightarrow> 'e + usize \<Rightarrow> panic + usize" where
  "status_with_payload_to_syscall_repr into r = (case r of Inr status \<Rightarrow> Inr status | Inl err \<Rightarrow> into err)"

definition handle_from_syscall_repr ::
  "bit_field_ops \<Rightarrow> ('e \<times> usize) list \<Rightarrow> usize \<Rightarrow> panic + ('e + handle)" where
  "handle_from_syscall_repr ops tbl result =
     rbind (get_bits ops result 0 32) (\<lambda>status.
       if status = 0
       then rbind (get_bits ops result 32 64) (\<lambda>h. Inr (Inr (ucast h)))
       else rbind (runwrap (error_try_from tbl status)) (\<lambda>e. Inr (Inl e)))"

definition handle_to_syscall_repr ::
  "bit_field_ops \<Rightarrow> ('e \<times> usize) list \<Rightarrow> 'e + handle \<Rightarrow> panic + usize" where
  "handle_to_syscall_repr ops tbl r =
     (case r of
        Inr h \<Rightarrow> set_bits ops 0 32 64 (ucast h)
      | Inl err \<Rightarrow> set_bits ops 0 0 32 (error_into tbl err))"

subsection \<open>Payloads\<close>

definition handle_try_from :: "usize \<Rightarrow> handle option" where
  "handle_try_from v = (if unat v < 2 ^ 32 then Some (ucast v) else None)"

text \<open>What the kernel packs into the result of a received message and the client reads from it.\<close>

definition get_message_status :: "bit_field_ops \<Rightarrow> usize \<Rightarrow> usize \<Rightarrow> panic + usize" where
  "get_message_status ops num_bytes num_handles =
     rbind (set_bits ops 0 16 32 num_bytes) (\<lambda>status. set_bits ops status 32 48 num_handles)"

definition get_message_lengths :: "bit_field_ops \<Rightarrow> usize \<Rightarrow> panic + (get_message_error + (usize \<times> usize))" where
  "get_message_lengths ops result =
     rbind (get_bits ops result 0 16) (\<lambda>status.
     rbind (status_from_syscall_repr GetMessageError status) (\<lambda>r.
       case r of
         Inl e \<Rightarrow> Inr (Inl e)
       | Inr u \<Rightarrow>
           rbind (get_bits ops result 16 32) (\<lambda>b. rbind (get_bits ops result 32 48) (\<lambda>h. Inr (Inr (b, h))))))"

definition poll_interest_status :: "bool \<Rightarrow> usize" where
  "poll_interest_status interesting = (if interesting then push_bit 16 1 else 0)"

definition poll_interest_result :: "bit_field_ops \<Rightarrow> usize \<Rightarrow> panic + (poll_interest_error + bool)" where
  "poll_interest_result ops result =
     rbind (get_bits ops result 0 16) (\<lambda>status.
     rbind (status_from_syscall_repr PollInterestError status) (\<lambda>r.
       case r of
         Inl e \<Rightarrow> Inr (Inl e)
       | Inr u \<Rightarrow> rbind (get_bits ops result 16 64) (\<lambda>v. Inr (Inr (v \<noteq> 0)))))"

datatype pci_get_info_error =
  PciDoesNotHaveCorrectCapability | BufferPointerInvalid | BufferNotLargeEnough u32 | PlatformDoesNotSupportPci

definition pci_error_try_from :: "bit_field_ops \<Rightarrow> usize \<Rightarrow> panic + pci_get_info_error option" where
  "pci_error_try_from ops status =
     rbind (get_bits ops status 0 16) (\<lambda>n.
       if n = 1 then Inr (Some PciDoesNotHaveCorrectCapability)
       else if n = 2 then Inr (Some BufferPointerInvalid)
       else if n = 3 then rbind (get_bits ops status 16 48) (\<lambda>m. Inr (Some (BufferNotLargeEnough (ucast m))))
       else if n = 4 then Inr (Some PlatformDoesNotSupportPci)
       else Inr None)"

fun pci_error_into :: "bit_field_ops \<Rightarrow> pci_get_info_error \<Rightarrow> panic + usize" where
  "pci_error_into ops PciDoesNotHaveCorrectCapability = Inr 1"
| "pci_error_into ops BufferPointerInvalid = Inr 2"
| "pci_error_into ops (BufferNotLargeEnough num_needed) = set_bits ops 3 16 48 (ucast num_needed)"
| "pci_error_into ops PlatformDoesNotSupportPci = Inr 4"

definition pci_get_info_status :: "bit_field_ops \<Rightarrow> usize \<Rightarrow> panic + usize" where
  "pci_get_info_status ops num_descriptors = set_bits ops 0 16 48 num_descriptors"

definition pci_get_info_result :: "bit_field_ops \<Rightarrow> usize \<Rightarrow> panic + (pci_get_info_error + usize)" where
  "pci_get_info_result ops result =
     rbind (get_bits ops result 0 16) (\<lambda>status.
       if status = 0
       then rbind (get_bits ops result 16 48) (\<lambda>n. Inr (Inr n))
       else rbind (pci_error_try_from ops result) (\<lambda>e. rbind (runwrap e) (\<lambda>e. Inr (Inl e))))"

subsection \<open>Handles in words\<close>

lemma unat_u32: "unat h < 2 ^ 32" for h :: u32
  using unsigned_less [of h, where ?'a = nat] by simp

lemma unat_handle: "unat (ucast h :: usize) = unat h" and unat_handle_less: "unat h < 4294967296" for h :: u32
  using unat_u32 [of h] by (simp_all add: unsigned_ucast_eq take_bit_nat_eq_self)

lemma ucast_handle: "ucast (ucast h :: usize) = h" for h :: u32
  by (rule bit_eqI) (auto simp: bit_simps dest: bit_imp_le_length)

subsection \<open>Tables of errors\<close>

lemma handle_value_roundtrip:
  assumes "usize_bits ops"
  shows "\<exists>w. handle_to_syscall_repr ops tbl (Inr h) = Inr w \<and> handle_from_syscall_repr ops tbl w = Inr (Inr h)"
proof -
  have "unat (ucast h :: usize) < 2 ^ (64 - 32)" by (simp add: unat_handle unat_handle_less)
  then obtain w where "set_bits ops 0 32 64 (ucast h) = Inr w" "field w 32 64 = ucast h" "field w 0 32 = 0"
    by - (rule set_field [OF assms, of 32 64 "ucast h" 0], auto)
  then show ?thesis
    by (simp add: ucast_handle handle_to_syscall_repr_def handle_from_syscall_repr_def get_field [OF assms])
qed

locale error_table =
  fixes tbl :: "('e \<times> usize) list"
  assumes total: "fst ` set tbl = UNIV" and once: "distinct (map snd tbl)"
    and small: "\<forall>(e, n) \<in> set tbl. 0 < n \<and> unat n < 2 ^ 16"
begin

lemma into_mem: "(e, error_into tbl e) \<in> set tbl"
proof -
  have "e \<in> fst ` set l \<Longrightarrow> (e, error_into l e) \<in> set l" for l
  proof (induction l)
    case (Cons x l)
    then show ?case by (cases x) auto
  qed simp
  then show ?thesis using total by blast
qed

lemma try_from_mem: "(e, n) \<in> set tbl \<Longrightarrow> error_try_from tbl n = Some e"
proof -
  have "distinct (map snd l) \<Longrightarrow> (e, n) \<in> set l \<Longrightarrow> error_try_from l n = Some e" for l
  proof (induction l)
    case (Cons x l)
    have "n \<in> snd ` set l" if "(e, n) \<in> set l" using that by force
    then show ?case using Cons by (cases x) auto
  qed simp
  then show "(e, n) \<in> set tbl \<Longrightarrow> error_try_from tbl n = Some e" using once by blast
qed

lemma try_into [simp]: "error_try_from tbl (error_into tbl e) = Some e"
  using into_mem by (rule try_from_mem)

lemma into_small: "error_into tbl e \<noteq> 0" "unat (error_into tbl e) < 2 ^ 16"
  using small into_mem [of e] by auto

lemma status_roundtrip: "status_from_syscall_repr tbl (status_to_syscall_repr tbl r) = Inr r"
  using into_small(1) by (cases r) (simp_all add: status_from_syscall_repr_def status_to_syscall_repr_def)

lemma handle_roundtrip:
  assumes "usize_bits ops"
  shows "\<exists>w. handle_to_syscall_repr ops tbl r = Inr w \<and> handle_from_syscall_repr ops tbl w = Inr r"
proof (cases r)
  case (Inl e)
  have "unat (error_into tbl e) < 2 ^ (32 - 0)" using into_small(2) [of e] by simp
  then obtain w where w: "set_bits ops 0 0 32 (error_into tbl e) = Inr w" "field w 0 32 = error_into tbl e"
    using set_field [OF assms, of 0 32] by (metis zero_less_numeral numeral_le_iff semiring_norm(71) semiring_norm(68))
  then show ?thesis using Inl into_small(1) [of e]
    by (simp add: handle_to_syscall_repr_def handle_from_syscall_repr_def get_field [OF assms])
qed (simp add: handle_value_roundtrip [OF assms])

end

lemmas error_tables =
  EarlyLogError_def CreateMemoryObjectError_def MapMemoryObjectError_def CreateChannelError_def
  SendMessageError_def GetMessageError_def WaitForEventError_def PollInterestError_def SpawnTaskError_def
  ResizeMemoryObjectError_def WaitForInterruptError_def AckInterruptError_def GetFramebufferError_def

interpretation early_log: error_table EarlyLogError
  by unfold_locales (auto simp: error_tables intro: early_log_error.exhaust)

interpretation create_memory_object: error_table CreateMemoryObjectError
  by unfold_locales (auto simp: error_tables intro: create_memory_object_error.exhaust)

interpretation map_memory_object: error_table MapMemoryObjectError
  by unfold_locales (auto simp: error_tables intro: map_memory_object_error.exhaust)

interpretation create_channel: error_table CreateChannelError
  by unfold_locales (auto simp: error_tables intro: create_channel_error.exhaust)

interpretation send_message: error_table SendMessageError
  by unfold_locales (auto simp: error_tables intro: send_message_error.exhaust)

interpretation get_message: error_table GetMessageError
  by unfold_locales (auto simp: error_tables intro: get_message_error.exhaust)

interpretation wait_for_event: error_table WaitForEventError
  by unfold_locales (auto simp: error_tables intro: wait_for_event_error.exhaust)

interpretation poll_interest: error_table PollInterestError
  by unfold_locales (auto simp: error_tables intro: poll_interest_error.exhaust)

interpretation spawn_task: error_table SpawnTaskError
  by unfold_locales (auto simp: error_tables intro: spawn_task_error.exhaust)

interpretation resize_memory_object: error_table ResizeMemoryObjectError
  by unfold_locales (auto simp: error_tables intro: resize_memory_object_error.exhaust)

interpretation wait_for_interrupt: error_table WaitForInterruptError
  by unfold_locales (auto simp: error_tables intro: wait_for_interrupt_error.exhaust)

interpretation ack_interrupt: error_table AckInterruptError
  by unfold_locales (auto simp: error_tables intro: ack_interrupt_error.exhaust)

interpretation get_framebuffer: error_table GetFramebufferError
  by unfold_locales (auto simp: error_tables intro: get_framebuffer_error.exhaust)

subsection \<open>Properties\<close>

text \<open>C28: for every system call whose result is a handle or a plain status, the client decodes the result that the
  kernel encoded: no two results are confused, and neither side panics.  \<open>create_address_space\<close> has no
  errors, so that only its handles are encoded.\<close>

theorem syscall_result_roundtrip:
  assumes "bit_field ops (\<lambda>_. 64) (bit :: usize \<Rightarrow> nat \<Rightarrow> bool)"
  shows "rbind (handle_to_syscall_repr ops GetFramebufferError r1) (handle_from_syscall_repr ops GetFramebufferError) = Inr r1 \<and>
     rbind (handle_to_syscall_repr ops CreateMemoryObjectError r2) (handle_from_syscall_repr ops CreateMemoryObjectError) = Inr r2 \<and>
     rbind (handle_to_syscall_repr ops CreateChannelError r3) (handle_from_syscall_repr ops CreateChannelError) = Inr r3 \<and>
     rbind (handle_to_syscall_repr ops SpawnTaskError r4) (handle_from_syscall_repr ops SpawnTaskError) = Inr r4 \<and>
     rbind (handle_to_syscall_repr ops CreateAddressSpaceError (Inr h)) (handle_from_syscall_repr ops CreateAddressSpaceError) = Inr (Inr h) \<and>
     status_from_syscall_repr EarlyLogError (status_to_syscall_repr EarlyLogError s1) = Inr s1 \<and>
     status_from_syscall_repr MapMemoryObjectError (status_to_syscall_repr MapMemoryObjectError s2) = Inr s2 \<and>
     status_from_syscall_repr SendMessageError (status_to_syscall_repr SendMessageError s3) = Inr s3 \<and>
     status_from_syscall_repr WaitForEventError (status_to_syscall_repr WaitForEventError s4) = Inr s4 \<and>
     status_from_syscall_repr ResizeMemoryObjectError (status_to_syscall_repr ResizeMemoryObjectError s5) = Inr s5 \<and>
     status_from_syscall_repr WaitForInterruptError (status_to_syscall_repr WaitForInterruptError s6) = Inr s6 \<and>
     status_from_syscall_repr AckInterruptError (status_to_syscall_repr AckInterruptError s7) = Inr s7"
  using get_framebuffer.handle_roundtrip [OF assms, of r1] create_memory_object.handle_roundtrip [OF assms, of r2]
    create_channel.handle_roundtrip [OF assms, of r3] spawn_task.handle_roundtrip [OF assms, of r4]
    handle_value_roundtrip [OF assms, of CreateAddressSpaceError h]
  by (auto simp: early_log.status_roundtrip map_memory_object.status_roundtrip send_message.status_roundtrip
      wait_for_event.status_roundtrip resize_memory_object.status_roundtrip wait_for_interrupt.status_roundtrip
      ack_interrupt.status_roundtrip)

theorem syscall_result_roundtrip_witness:
  "rbind (handle_to_syscall_repr word_bit_ops CreateChannelError (Inr 7)) (handle_from_syscall_repr word_bit_ops CreateChannelError) = Inr (Inr 7) \<and>
   status_from_syscall_repr SendMessageError (status_to_syscall_repr SendMessageError (Inl OtherEndDisconnected)) = Inr (Inl OtherEndDisconnected)"
  using syscall_result_roundtrip [OF usize_word_bits] by blast

lemma get_message_lengths_ok:
  assumes "bit_field ops (\<lambda>_. 64) (bit :: usize \<Rightarrow> nat \<Rightarrow> bool)" and "unat nb < 2 ^ 16" and "unat nh < 2 ^ 16"
  shows "rbind (get_message_status ops nb nh) (get_message_lengths ops) = Inr (Inr (nb, nh))"
proof -
  obtain w where w: "set_bits ops 0 16 32 nb = Inr w" "field w 16 32 = nb" "field w 0 16 = 0"
    by (rule set_field [OF assms(1), of 16 32 nb 0]) (use assms(2) in auto)
  obtain w' where w': "set_bits ops w 32 48 nh = Inr w'" "field w' 32 48 = nh" "field w' 16 32 = nb" "field w' 0 16 = 0"
    by (rule set_field [OF assms(1), of 32 48 nh w]) (use assms(3) w in auto)
  show ?thesis using w w'
    by (simp add: get_message_status_def get_message_lengths_def get_field [OF assms(1)] status_from_syscall_repr_def)
qed

lemma get_message_lengths_error:
  assumes "bit_field ops (\<lambda>_. 64) (bit :: usize \<Rightarrow> nat \<Rightarrow> bool)"
  shows "get_message_lengths ops (error_into GetMessageError e) = Inr (Inl e)"
  using get_message.into_small [of e]
  by (simp add: get_message_lengths_def get_field [OF assms] field_low status_from_syscall_repr_def)

text \<open>The results that carry more than a status are decoded as they were encoded too: the lengths of a
  received message, whether an object is of interest, and the number of PCI devices or of the entries
  that are missing for them.\<close>

lemma payload_roundtrip:
  assumes "bit_field ops (\<lambda>_. 64) (bit :: usize \<Rightarrow> nat \<Rightarrow> bool)"
    and "unat nb < 2 ^ 16" and "unat nh < 2 ^ 16" and "unat nd < 2 ^ 32"
  shows "rbind (get_message_status ops nb nh) (get_message_lengths ops) = Inr (Inr (nb, nh)) \<and>
     get_message_lengths ops (error_into GetMessageError ge) = Inr (Inl ge) \<and>
     poll_interest_result ops (poll_interest_status p) = Inr (Inr p) \<and>
     poll_interest_result ops (error_into PollInterestError pe) = Inr (Inl pe) \<and>
     rbind (pci_get_info_status ops nd) (pci_get_info_result ops) = Inr (Inr nd) \<and>
     rbind (pci_error_into ops ie) (pci_get_info_result ops) = Inr (Inl ie)"
proof (intro conjI)
  note get = get_field [OF assms(1)]
  have small: "field v 0 16 = v" if "unat v < 2 ^ 16" for v using that by (rule field_low)
  show "rbind (get_message_status ops nb nh) (get_message_lengths ops) = Inr (Inr (nb, nh))"
    using assms(1-3) by (rule get_message_lengths_ok)
  show "get_message_lengths ops (error_into GetMessageError ge) = Inr (Inl ge)"
    using assms(1) by (rule get_message_lengths_error)
  show "poll_interest_result ops (poll_interest_status p) = Inr (Inr p)"
  proof -
    have "field (push_bit 16 1) 0 16 = 0" "field (push_bit 16 1) 16 64 = 1"
      by (simp_all add: field_def take_bit_push_bit drop_bit_push_bit)
    then show ?thesis by (simp add: poll_interest_result_def poll_interest_status_def get status_from_syscall_repr_def)
  qed
  show "poll_interest_result ops (error_into PollInterestError pe) = Inr (Inl pe)"
    using poll_interest.into_small [of pe]
    by (simp add: poll_interest_result_def get small status_from_syscall_repr_def)
  show "rbind (pci_get_info_status ops nd) (pci_get_info_result ops) = Inr (Inr nd)"
  proof -
    obtain w where "set_bits ops 0 16 48 nd = Inr w" "field w 16 48 = nd" "field w 0 16 = 0"
      by (rule set_field [OF assms(1), of 16 48 nd 0]) (use assms(4) in auto)
    then show ?thesis by (simp add: pci_get_info_status_def pci_get_info_result_def get)
  qed
  show "rbind (pci_error_into ops ie) (pci_get_info_result ops) = Inr (Inl ie)"
  proof (cases ie)
    case (BufferNotLargeEnough n)
    obtain w where "set_bits ops 3 16 48 (ucast n) = Inr w" "field w 16 48 = ucast n" "field w 0 16 = field 3 0 16"
      by (rule set_field [OF assms(1), of 16 48 "ucast n" 3]) (use unat_handle [of n] unat_handle_less [of n] in auto)
    then show ?thesis
      using BufferNotLargeEnough small [of 3] by (simp add: ucast_handle pci_get_info_result_def pci_error_try_from_def get)
  qed (simp_all add: pci_get_info_result_def pci_error_try_from_def get small)
qed

end
