(* ===== verification/Mulch_Math.thy ===== *)
theory Mulch_Math
  imports Prelude
begin

text \<open>
  \<open>lib/mulch/src/math.rs\<close>: alignment and rounding helpers, with the three
  integer methods of Rust's standard library they rest on
  (\<open>is_power_of_two\<close>, \<open>next_power_of_two\<close>, \<open>trailing_zeros\<close>).  The lemmas
  relate the bit-mask formulations to division on natural numbers.
\<close>

subsection \<open>Standard library integer methods\<close>

definition is_power_of_two :: "'w::len word \<Rightarrow> bool" where
  "is_power_of_two w \<longleftrightarrow> w \<noteq> 0 \<and> w AND (w - 1) = 0"

definition next_power_of_two :: "'w::len word \<Rightarrow> panic + 'w word" where
  "next_power_of_two w =
     (case find (\<lambda>k. unat w \<le> 2 ^ k) [0..<LENGTH('w)] of
        Some k \<Rightarrow> Inr (push_bit k 1)
      | None \<Rightarrow> Inl Overflow)"

definition trailing_zeros :: "'w::len word \<Rightarrow> nat" where
  "trailing_zeros w = length (takeWhile (\<lambda>k. \<not> bit w k) [0..<LENGTH('w)])"

subsection \<open>The module's functions\<close>

definition align_down :: "'w::len word \<Rightarrow> 'w word \<Rightarrow> panic + 'w word" where
  "align_down value align =
     rbind (rassert (align = 0 \<or> is_power_of_two align)) (\<lambda>_.
       if align = 0 then Inr value else Inr (value AND NOT (align - 1)))"

definition align_up :: "'w::len word \<Rightarrow> 'w word \<Rightarrow> panic + 'w word" where
  "align_up value align =
     (if align = 0 then Inr value
      else rbind (uadd value align) (\<lambda>s. rbind (usub s 1) (\<lambda>s'. align_down s' align)))"

definition ceiling_integer_divide :: "usize \<Rightarrow> usize \<Rightarrow> panic + usize" where
  "ceiling_integer_divide x divide_by =
     rbind (udiv x divide_by) (\<lambda>q.
     rbind (urem x divide_by) (\<lambda>r.
       uadd q (if r \<noteq> 0 then 1 else 0)))"

definition abs_difference :: "'w::len word \<Rightarrow> 'w word \<Rightarrow> panic + 'w word" where
  "abs_difference a b = (if a > b then usub a b else usub b a)"

subsection \<open>Powers of two\<close>

lemma unat_power_two: "k < LENGTH('w) \<Longrightarrow> unat (2 ^ k :: 'w::len word) = 2 ^ k"
  using unat_of_nat [of "2 ^ k", where 'a = 'w] by simp

lemma bit_minus_one_power: "k < LENGTH('w) \<Longrightarrow> (2 ^ k :: 'w::len word) - 1 = mask k"
  by (simp add: mask_eq_exp_minus_1)

lemma is_power_of_two_power [simp]:
  assumes "k < LENGTH('w)"
  shows "is_power_of_two (2 ^ k :: 'w::len word)"
proof -
  have "(2 ^ k :: 'w word) AND mask k = take_bit k (2 ^ k)"
    by (simp add: take_bit_eq_mask)
  also have "\<dots> = 0"
    by (rule bit_word_eqI) (auto simp: bit_simps)
  finally have "(2 ^ k :: 'w word) AND mask k = 0" .
  moreover have "(2 ^ k :: 'w word) \<noteq> 0"
    using assms by (metis unat_power_two unat_0 power_eq_0_iff zero_neq_numeral)
  ultimately show ?thesis
    using assms by (simp add: is_power_of_two_def mask_eq_exp_minus_1)
qed

lemma nat_and_pred_eq_0:
  "0 < n \<Longrightarrow> n AND (n - 1) = 0 \<Longrightarrow> \<exists>k. n = 2 ^ k" for n :: nat
proof (induction n rule: less_induct)
  case (less n)
  have split: "n AND (n - 1) = of_bool (odd n \<and> odd (n - 1)) + 2 * ((n div 2) AND ((n - 1) div 2))"
    by (rule and_rec)
  show ?case
  proof (cases "even n")
    case True
    then obtain m where m: "n = 2 * m" by (elim evenE)
    with less.prems have "0 < m" by simp
    moreover from m \<open>0 < m\<close> have "(n - 1) div 2 = m - 1" by simp
    with split less.prems m have "m AND (m - 1) = 0" by simp
    ultimately obtain k where "m = 2 ^ k" using less.IH [of m] m by auto
    with m have "n = 2 ^ Suc k" by simp
    then show ?thesis by blast
  next
    case False
    then obtain m where m: "n = 2 * m + 1" by (elim oddE)
    with split less.prems have "n = 2 ^ 0" by simp
    then show ?thesis by blast
  qed
qed

lemma is_power_of_two_iff:
  "is_power_of_two w \<longleftrightarrow> (\<exists>k < LENGTH('w). w = 2 ^ k)" for w :: "'w::len word"
proof
  assume p: "is_power_of_two w"
  then have nz: "w \<noteq> 0" and z: "w AND (w - 1) = 0"
    by (auto simp: is_power_of_two_def)
  have pos: "0 < unat w" using nz by (simp add: unat_gt_0)
  have pred: "unat (w - 1) = unat w - 1" using nz by (simp add: unat_minus_one)
  have "unat w AND (unat w - 1) = 0"
    using arg_cong [OF z, of unat] pred by (simp add: unsigned_and_eq)
  then obtain k where k: "unat w = 2 ^ k" using nat_and_pred_eq_0 [OF pos] by blast
  have "2 ^ k < (2::nat) ^ LENGTH('w)" using unsigned_less [of w, where 'a = nat] k by simp
  then have "k < LENGTH('w)" by simp
  moreover from k \<open>k < LENGTH('w)\<close> have "unat w = unat (2 ^ k :: 'w word)"
    by (simp only: unat_power_two)
  then have "w = 2 ^ k" by (simp only: word_unat_eq_iff)
  ultimately show "\<exists>k < LENGTH('w). w = 2 ^ k" by blast
next
  assume "\<exists>k < LENGTH('w). w = 2 ^ k"
  then show "is_power_of_two w" by auto
qed

lemma unat_and_not_mask:
  "unat (w AND NOT (mask k)) = unat w div 2 ^ k * 2 ^ k" for w :: "'w::len word"
proof -
  have "w AND NOT (mask k) = push_bit k (drop_bit k w)"
    by (rule bit_word_eqI) (auto simp: bit_simps)
  moreover have "push_bit k (drop_bit k (unat w)) < 2 ^ LENGTH('w)"
    by (rule le_less_trans [OF _ unsigned_less [of w]])
      (simp add: push_bit_eq_mult drop_bit_eq_div)
  ultimately show ?thesis
    by (simp only: unsigned_push_bit_eq unat_drop_bit_eq take_bit_nat_eq_self)
      (simp only: push_bit_eq_mult drop_bit_eq_div)
qed

lemma next_power_of_two_spec:
  fixes w :: "'w::len word"
  assumes "unat w \<le> 2 ^ (LENGTH('w) - 1)"
  obtains k where "k < LENGTH('w)" "next_power_of_two w = Inr (2 ^ k)"
    "unat w \<le> 2 ^ k" "\<And>j. j < k \<Longrightarrow> 2 ^ j < unat w"
proof -
  obtain k where k: "find (\<lambda>k. unat w \<le> 2 ^ k) [0..<LENGTH('w)] = Some k"
  proof (cases "find (\<lambda>k. unat w \<le> 2 ^ k) [0..<LENGTH('w)]")
    case None
    then have "2 ^ (LENGTH('w) - 1) < unat w" by (simp add: find_None_iff not_le)
    with assms show thesis by simp
  qed blast
  then have kl: "k < LENGTH('w)" and "unat w \<le> 2 ^ k" and least: "\<And>j. j < k \<Longrightarrow> 2 ^ j < unat w"
    by (auto simp: find_Some_iff not_le)
  moreover have "next_power_of_two w = Inr (2 ^ k)"
    by (simp add: next_power_of_two_def k push_bit_eq_mult)
  ultimately show thesis by (intro that)
qed

lemma trailing_zeros_power:
  assumes "k < LENGTH('w)"
  shows "trailing_zeros (2 ^ k :: 'w::len word) = k"
proof -
  have "[0..<LENGTH('w)] = [0..<k] @ k # [Suc k..<LENGTH('w)]"
    using assms by (metis upt_conv_Cons upt_add_eq_append less_imp_add_positive le0 le_add1)
  moreover have "\<not> bit (2 ^ k :: 'w word) j" if "j < k" for j
    using that by (simp add: bit_simps)
  moreover have "bit (2 ^ k :: 'w word) k"
    using assms by (simp add: bit_simps)
  ultimately show ?thesis
    by (simp add: trailing_zeros_def takeWhile_append)
qed

subsection \<open>Alignment\<close>

lemma align_down_power:
  fixes "value" :: "'w::len word"
  assumes "k < LENGTH('w)"
  shows "align_down value (2 ^ k) = Inr (value AND NOT (mask k))"
proof -
  have "(2 ^ k :: 'w word) \<noteq> 0"
    using assms is_power_of_two_power [of k, where 'w = 'w] by (simp add: is_power_of_two_def)
  then show ?thesis
    using assms by (simp add: align_down_def mask_eq_exp_minus_1)
qed

lemma align_up_power:
  fixes "value" :: "'w::len word"
  assumes k: "k < LENGTH('w)" and fits: "unat value + 2 ^ k < 2 ^ LENGTH('w)"
  shows "\<exists>r. align_up value (2 ^ k) = Inr r \<and> unat r = (unat value + 2 ^ k - 1) div 2 ^ k * 2 ^ k"
proof -
  let ?s = "value + 2 ^ k"
  have nz: "(2 ^ k :: 'w word) \<noteq> 0"
    using k is_power_of_two_power [of k, where 'w = 'w] by (simp add: is_power_of_two_def)
  have us: "unat ?s = unat value + 2 ^ k"
    using fits k by (simp add: unat_add_no_overflow unat_power_two)
  then have "?s \<noteq> 0" by (metis add_is_0 power_eq_0_iff unat_0 zero_neq_numeral)
  then have le: "1 \<le> ?s" by (simp add: word_le_nat_alt us Suc_le_eq)
  have "align_up value (2 ^ k) = Inr ((?s - 1) AND NOT (mask k))"
    using nz le fits k by (simp add: align_up_def uadd_def usub_def align_down_power unat_power_two)
  moreover have "unat ((?s - 1) AND NOT (mask k)) = (unat value + 2 ^ k - 1) div 2 ^ k * 2 ^ k"
    using le by (simp add: unat_and_not_mask unat_sub_le us)
  ultimately show ?thesis by blast
qed

lemma div_add_small: "r < m \<Longrightarrow> (r + q * m) div m = q" for m :: nat
  by simp

lemma ceil_div_mult_bounds:
  fixes n m :: nat
  assumes "0 < m"
  shows "n \<le> (n + m - 1) div m * m" and "(n + m - 1) div m * m < n + m"
    and "m dvd n \<Longrightarrow> (n + m - 1) div m * m = n"
proof -
  have e: "(n + m - 1) div m * m = n + m - 1 - (n + m - 1) mod m"
    by (rule minus_mod_eq_div_mult [symmetric])
  have "(n + m - 1) mod m < m" using assms by simp
  then show "n \<le> (n + m - 1) div m * m" and "(n + m - 1) div m * m < n + m"
    using assms unfolding e by linarith+
  show "m dvd n \<Longrightarrow> (n + m - 1) div m * m = n"
  proof -
    assume "m dvd n"
    then obtain q where q: "n = m * q" ..
    have "n + m - 1 = (m - 1) + q * m" using assms q by (simp add: mult.commute)
    then have "(n + m - 1) div m = q" using div_add_small [of "m - 1" m q] assms by simp
    then show ?thesis using q by (simp add: mult.commute)
  qed
qed

lemma ceil_div_alt:
  "0 < m \<Longrightarrow> (n + m - 1) div m = n div m + (if n mod m = 0 then 0 else 1)" for n m :: nat
proof -
  assume m: "0 < m"
  have n: "n = n div m * m + n mod m" by simp
  show ?thesis
  proof (cases "n mod m = 0")
    case True
    then have "n + m - 1 = (m - 1) + n div m * m" using n m by linarith
    then show ?thesis using True m div_add_small [of "m - 1" m "n div m"] by simp
  next
    case False
    moreover have "(n div m + 1) * m = n div m * m + m" by simp
    ultimately have "n + m - 1 = (n mod m - 1) + (n div m + 1) * m" using n m by linarith
    then have "(n + m - 1) div m = n div m + 1"
      using div_add_small [of "n mod m - 1" m "n div m + 1"] m by (simp add: less_imp_diff_less)
    then show ?thesis using False by simp
  qed
qed

lemma ceiling_integer_divide_spec:
  assumes "d \<noteq> 0"
  shows "\<exists>r. ceiling_integer_divide x d = Inr r \<and> unat r = (unat x + unat d - 1) div unat d"
proof -
  have dpos: "0 < unat d" using assms by (simp add: unat_gt_0)
  let ?c = "if x mod d \<noteq> 0 then 1 else 0 :: usize"
  have uc: "unat ?c = (if unat x mod unat d = 0 then 0 else 1)"
    by (simp add: unat_mod flip: unat_eq_zero)
  have sum: "unat (x div d) + unat ?c = (unat x + unat d - 1) div unat d"
    using dpos by (simp only: uc ceil_div_alt unat_div)
  have "(unat x + unat d - 1) div unat d \<le> unat x"
    using ceil_div_alt [OF dpos, of "unat x"] dpos
    by (cases "unat d = 1"; cases "unat x = 0") (auto intro: Suc_leI div_less_dividend)
  then have "unat (x div d) + unat ?c < 2 ^ 64"
    using unsigned_less [of x, where 'a = nat] sum by simp
  then show ?thesis
    using assms sum by (simp add: ceiling_integer_divide_def udiv_def urem_def uadd_def unat_add_no_overflow)
qed

lemma abs_difference_nat:
  "\<exists>r. abs_difference a b = Inr r \<and> unat r = (if unat b < unat a then unat a - unat b else unat b - unat a)"
  by (auto simp: abs_difference_def usub_def word_less_nat_alt word_le_nat_alt unat_sub_le)

subsection \<open>Properties\<close>

text \<open>Aligning up to a power of two gives the smallest multiple that is not below the value,
  whenever value and alignment together fit the integer type.\<close>

lemma align_up_least:
  fixes "value" :: "'w::len word"
  assumes "k < LENGTH('w)" and "unat value + 2 ^ k < 2 ^ LENGTH('w)"
  shows "\<exists>r. align_up value (2 ^ k) = Inr r \<and> 2 ^ k dvd unat r \<and> unat value \<le> unat r \<and>
     (\<forall>m. 2 ^ k dvd m \<and> unat value \<le> m \<longrightarrow> unat r \<le> m)"
proof -
  obtain r where r: "align_up value (2 ^ k) = Inr r" "unat r = (unat value + 2 ^ k - 1) div 2 ^ k * 2 ^ k"
    using align_up_power [OF assms] by blast
  note b = ceil_div_mult_bounds [of "2 ^ k" "unat value"]
  have "unat r \<le> m" if m: "2 ^ k dvd m" "unat value \<le> m" for m
  proof -
    obtain q q' where q: "m = 2 ^ k * q" "unat r = 2 ^ k * q'" using m(1) r(2) by (auto simp: dvd_def)
    have "2 ^ k * q' < 2 ^ k * (q + 1)"
      using b(2) m(2) unfolding q(1) r(2) [symmetric] q(2) by (simp add: algebra_simps)
    then have "q' < q + 1" by (simp only: nat_mult_less_cancel_disj)
    then show ?thesis using q by simp
  qed
  then show ?thesis using r b(1) by auto
qed

end
