(* ===== verification/Hal_Memory.thy ===== *)
theory Hal_Memory
  imports Mulch_Math
begin

text \<open>
  \<open>lib/hal/src/memory\<close>: physical and virtual addresses, frames and pages, frame
  sizes and mapping flags.  The \<open>cfg_if!\<close> selections of the source are the
  argument \<open>target\<close>.  \<open>PAddr\<close> and \<open>VAddr\<close> are newtypes over \<open>usize\<close>; the
  constructors below enforce their validity.  A \<open>Frame<S>\<close> and a \<open>Page<S>\<close> are
  their start address, with the marker type \<open>S\<close> as an argument.
\<close>

datatype target =
    X86_64          \<comment> \<open>\<open>target_arch = "x86_64"\<close>\<close>
  | Rv64Virt        \<comment> \<open>\<open>feature = "platform_rv64_virt"\<close> (Sv48)\<close>
  | MqPro           \<comment> \<open>\<open>feature = "platform_mq_pro"\<close> (Sv39)\<close>
  | OtherTarget

type_synonym paddr = usize
type_synonym vaddr = usize

subsection \<open>Sizes\<close>

definition kibibytes :: "usize \<Rightarrow> panic + usize" where
  "kibibytes k = umul k 1024"

definition mebibytes :: "usize \<Rightarrow> panic + usize" where
  "mebibytes m = rbind (umul m 1024) kibibytes"

definition gibibytes :: "usize \<Rightarrow> panic + usize" where
  "gibibytes g = rbind (umul g 1024) mebibytes"

datatype frame_size = Size4KiB | Size2MiB | Size1GiB

primrec SIZE :: "frame_size \<Rightarrow> usize" where
  "SIZE Size4KiB = 0x1000"
| "SIZE Size2MiB = 0x200000"
| "SIZE Size1GiB = 0x40000000"

definition frames_needed :: "frame_size \<Rightarrow> usize \<Rightarrow> panic + usize" where
  "frames_needed s bytes =
     rbind (udiv bytes (SIZE s)) (\<lambda>q.
     rbind (urem bytes (SIZE s)) (\<lambda>r. uadd q (if r > 0 then 1 else 0)))"

subsection \<open>Physical addresses\<close>

definition MAX_PHYSICAL_ADDRESS :: usize where
  "MAX_PHYSICAL_ADDRESS = push_bit 52 1 - 1"

definition paddr_new :: "target \<Rightarrow> usize \<Rightarrow> paddr option" where
  "paddr_new t address =
     (if t = X86_64
      then (if address \<le> MAX_PHYSICAL_ADDRESS then Some address else None)
      else Some address)"

definition paddr_align_down :: "paddr \<Rightarrow> usize \<Rightarrow> panic + paddr" where
  "paddr_align_down a align =
     (if is_power_of_two align then Inr (a AND NOT (align - 1))
      else rbind (rassert (align = 0)) (\<lambda>_. Inr a))"

definition paddr_align_up :: "paddr \<Rightarrow> usize \<Rightarrow> panic + paddr" where
  "paddr_align_up a align =
     rbind (uadd a align) (\<lambda>s. rbind (usub s 1) (\<lambda>s'. paddr_align_down s' align))"

definition paddr_is_aligned :: "paddr \<Rightarrow> usize \<Rightarrow> panic + bool" where
  "paddr_is_aligned a align = rbind (urem a align) (\<lambda>r. Inr (r = 0))"

definition paddr_checked_add :: "target \<Rightarrow> paddr \<Rightarrow> usize \<Rightarrow> paddr option" where
  "paddr_checked_add t a rhs = Option.bind (checked_add a rhs) (paddr_new t)"

definition paddr_checked_sub :: "target \<Rightarrow> paddr \<Rightarrow> usize \<Rightarrow> paddr option" where
  "paddr_checked_sub t a rhs = Option.bind (checked_sub a rhs) (paddr_new t)"

definition paddr_add :: "target \<Rightarrow> paddr \<Rightarrow> usize \<Rightarrow> panic + paddr" where
  "paddr_add t a rhs =
     rbind (uadd a rhs) (\<lambda>s.
       case paddr_new t s of Some address \<Rightarrow> Inr address | None \<Rightarrow> Inl ExplicitPanic)"

definition paddr_sub :: "target \<Rightarrow> paddr \<Rightarrow> usize \<Rightarrow> panic + paddr" where
  "paddr_sub t a rhs =
     rbind (usub a rhs) (\<lambda>s.
       case paddr_new t s of Some address \<Rightarrow> Inr address | None \<Rightarrow> Inl ExplicitPanic)"

subsection \<open>Virtual addresses\<close>

definition SIGN_EXTENSION_48 :: usize where
  "SIGN_EXTENSION_48 = 0xFFFF000000000000"

definition SIGN_EXTENSION_39 :: usize where
  "SIGN_EXTENSION_39 = 0xFFFFFF8000000000"

definition canonicalise :: "target \<Rightarrow> usize \<Rightarrow> vaddr" where
  "canonicalise t a =
     (if t = X86_64 \<or> t = Rv64Virt
      then (SIGN_EXTENSION_48 * (drop_bit 47 a AND 1)) OR (a AND (push_bit 48 1 - 1))
      else if t = MqPro
      then (SIGN_EXTENSION_39 * (drop_bit 38 a AND 1)) OR (a AND (push_bit 39 1 - 1))
      else a)"

definition vaddr_new :: "target \<Rightarrow> usize \<Rightarrow> vaddr" where
  "vaddr_new t address = canonicalise t address"

definition vaddr_align_down :: "vaddr \<Rightarrow> usize \<Rightarrow> panic + vaddr" where
  "vaddr_align_down a align =
     (if is_power_of_two align then Inr (a AND NOT (align - 1))
      else rbind (rassert (align = 0)) (\<lambda>_. Inr a))"

definition vaddr_align_up :: "vaddr \<Rightarrow> usize \<Rightarrow> panic + vaddr" where
  "vaddr_align_up a align =
     rbind (uadd a align) (\<lambda>s. rbind (usub s 1) (\<lambda>s'. vaddr_align_down s' align))"

definition vaddr_is_aligned :: "vaddr \<Rightarrow> usize \<Rightarrow> panic + bool" where
  "vaddr_is_aligned a align = rbind (urem a align) (\<lambda>r. Inr (r = 0))"

definition vaddr_checked_add :: "target \<Rightarrow> vaddr \<Rightarrow> usize \<Rightarrow> vaddr option" where
  "vaddr_checked_add t a rhs = map_option (vaddr_new t) (checked_add a rhs)"

definition vaddr_checked_sub :: "target \<Rightarrow> vaddr \<Rightarrow> usize \<Rightarrow> vaddr option" where
  "vaddr_checked_sub t a rhs = map_option (vaddr_new t) (checked_sub a rhs)"

definition vaddr_add :: "target \<Rightarrow> vaddr \<Rightarrow> usize \<Rightarrow> panic + vaddr" where
  "vaddr_add t a rhs = rbind (uadd a rhs) (\<lambda>s. Inr (vaddr_new t s))"

definition vaddr_sub :: "target \<Rightarrow> vaddr \<Rightarrow> usize \<Rightarrow> panic + vaddr" where
  "vaddr_sub t a rhs = rbind (usub a rhs) (\<lambda>s. Inr (vaddr_new t s))"

subsection \<open>Frames and pages\<close>

definition frame_starts_with :: "frame_size \<Rightarrow> paddr \<Rightarrow> panic + paddr" where
  "frame_starts_with s address =
     rbind (paddr_is_aligned address (SIZE s)) (\<lambda>ok. rbind (rassert ok) (\<lambda>_. Inr address))"

definition frame_contains :: "frame_size \<Rightarrow> paddr \<Rightarrow> panic + paddr" where
  "frame_contains s address = paddr_align_down address (SIZE s)"

definition frame_add :: "target \<Rightarrow> frame_size \<Rightarrow> paddr \<Rightarrow> usize \<Rightarrow> panic + paddr" where
  "frame_add t s f num_frames =
     rbind (umul num_frames (SIZE s)) (\<lambda>off.
     rbind (uadd f off) (\<lambda>sum.
     rbind (rassert (paddr_new t sum \<noteq> None)) (\<lambda>_.
       paddr_add t f off)))"

definition frame_steps_between :: "frame_size \<Rightarrow> paddr \<Rightarrow> paddr \<Rightarrow> panic + (usize \<times> usize option)" where
  "frame_steps_between s start end' =
     (case checked_sub end' start of
        None \<Rightarrow> Inr (0, None)
      | Some d \<Rightarrow> rbind (rassert (d mod SIZE s = 0)) (\<lambda>_. Inr (d div SIZE s, Some (d div SIZE s))))"

definition frame_forward_checked :: "target \<Rightarrow> frame_size \<Rightarrow> paddr \<Rightarrow> usize \<Rightarrow> paddr option" where
  "frame_forward_checked t s f count =
     Option.bind (checked_mul (SIZE s) count) (paddr_checked_add t f)"

definition frame_backward_checked :: "target \<Rightarrow> frame_size \<Rightarrow> paddr \<Rightarrow> usize \<Rightarrow> paddr option" where
  "frame_backward_checked t s f count =
     Option.bind (checked_mul (SIZE s) count) (paddr_checked_sub t f)"

definition page_starts_with :: "frame_size \<Rightarrow> vaddr \<Rightarrow> panic + vaddr" where
  "page_starts_with s address =
     rbind (urem address (SIZE s)) (\<lambda>r. rbind (rassert (r = 0)) (\<lambda>_. Inr address))"

definition page_contains :: "frame_size \<Rightarrow> vaddr \<Rightarrow> panic + vaddr" where
  "page_contains s address = vaddr_align_down address (SIZE s)"

definition page_add :: "target \<Rightarrow> frame_size \<Rightarrow> vaddr \<Rightarrow> usize \<Rightarrow> panic + vaddr" where
  "page_add t s p num_pages =
     rbind (umul num_pages (SIZE s)) (\<lambda>off. rbind (vaddr_add t p off) (page_contains s))"

definition page_steps_between :: "frame_size \<Rightarrow> vaddr \<Rightarrow> vaddr \<Rightarrow> panic + (usize \<times> usize option)" where
  "page_steps_between s start end' =
     (case checked_sub end' start of
        None \<Rightarrow> Inr (0, None)
      | Some d \<Rightarrow> rbind (rassert (d mod SIZE s = 0)) (\<lambda>_. Inr (d div SIZE s, Some (d div SIZE s))))"

definition page_forward_checked :: "target \<Rightarrow> frame_size \<Rightarrow> vaddr \<Rightarrow> usize \<Rightarrow> vaddr option" where
  "page_forward_checked t s p count =
     Option.bind (checked_mul (SIZE s) count) (vaddr_checked_add t p)"

definition page_backward_checked :: "target \<Rightarrow> frame_size \<Rightarrow> vaddr \<Rightarrow> usize \<Rightarrow> vaddr option" where
  "page_backward_checked t s p count =
     Option.bind (checked_mul (SIZE s) count) (vaddr_checked_sub t p)"

subsection \<open>Mapping flags\<close>

record flags =
  writable :: bool
  executable :: bool
  user_accessible :: bool
  cached :: bool

definition flags_default :: flags where
  "flags_default = \<lparr>writable = False, executable = False, user_accessible = False, cached = True\<rparr>"

definition flags_add :: "flags \<Rightarrow> flags \<Rightarrow> flags" where
  "flags_add a b =
     \<lparr>writable = writable a \<or> writable b,
      executable = executable a \<or> executable b,
      user_accessible = user_accessible a \<or> user_accessible b,
      cached = cached a \<and> cached b\<rparr>"

datatype paging_error = AlreadyMapped

subsection \<open>Iterating over a range of frames\<close>

text \<open>
  \<open>for frame in start..end\<close>: \<open>Range::next\<close> compares the bounds and advances with
  \<open>Step::forward_checked\<close>, whose \<open>None\<close> is a panic.
\<close>

lemma frame_forward_checked_greater:
  assumes "frame_forward_checked t s f 1 = Some g"
  shows "unat g = unat f + unat (SIZE s)"
proof -
  have "unat f + unat (SIZE s) < 2 ^ 64" and "g = f + SIZE s"
    using assms by (auto simp: frame_forward_checked_def checked_mul_def paddr_checked_add_def
        checked_add_def paddr_new_def bind_eq_Some_conv split: if_splits)
  then show ?thesis by (simp add: unat_add_no_overflow)
qed

lemma SIZE_pos [simp]: "0 < unat (SIZE s)"
  by (cases s) simp_all

function for_frames ::
  "target \<Rightarrow> frame_size \<Rightarrow> ('s \<Rightarrow> paddr \<Rightarrow> panic + 's) \<Rightarrow> paddr \<Rightarrow> paddr \<Rightarrow> 's \<Rightarrow> panic + 's" where
  "for_frames t s body start end' st =
     (if start < end'
      then rbind (runwrap (frame_forward_checked t s start 1)) (\<lambda>n.
           rbind (body st start) (\<lambda>st'. for_frames t s body n end' st'))
      else Inr st)"
  by pat_completeness auto
termination
proof (relation "measure (\<lambda>(t, s, body, start, end', st). unat end' - unat start)")
  fix t s and body :: "'s \<Rightarrow> paddr \<Rightarrow> panic + 's" and start end' st x y
  assume lt: "start < end'" and "runwrap (frame_forward_checked t s start 1) = Inr x"
  then have "frame_forward_checked t s start 1 = Some x"
    by (simp add: runwrap_eq_Inr)
  then have "unat x = unat start + unat (SIZE s)" by (rule frame_forward_checked_greater)
  then show "((t, s, body, x, end', y), t, s, body, start, end', st)
      \<in> measure (\<lambda>(t, s, body, start, end', st). unat end' - unat start)"
    using lt SIZE_pos [of s] by (simp add: word_less_nat_alt del: SIZE_pos)
qed simp

declare for_frames.simps [simp del]

subsection \<open>Validity and canonical form\<close>

abbreviation paddr_valid :: "target \<Rightarrow> paddr \<Rightarrow> bool" where
  "paddr_valid t a \<equiv> paddr_new t a = Some a"

abbreviation vaddr_valid :: "target \<Rightarrow> vaddr \<Rightarrow> bool" where
  "vaddr_valid t a \<equiv> vaddr_new t a = a"

lemma paddr_new_Some: "paddr_new t a = Some b \<longleftrightarrow> b = a \<and> paddr_valid t a"
  by (auto simp: paddr_new_def)

lemma unat_MAX_PHYSICAL_ADDRESS: "unat MAX_PHYSICAL_ADDRESS = 2 ^ 52 - 1"
  by (simp add: MAX_PHYSICAL_ADDRESS_def)

lemma paddr_valid_iff: "paddr_valid t a \<longleftrightarrow> (t = X86_64 \<longrightarrow> unat a < 2 ^ 52)"
  by (auto simp: paddr_new_def word_le_nat_alt unat_MAX_PHYSICAL_ADDRESS)

lemma drop_bit_and_one: "drop_bit n a AND 1 = of_bool (bit a n)" for a :: "'w::len word"
  by (simp add: bit_iff_odd_drop_bit and_one_eq mod2_eq_if)

lemma sign_extend_eq:
  "(NOT (mask (Suc n)) * of_bool (bit a n)) OR (a AND mask (Suc n)) = signed_take_bit n a"
  for a :: "'w::len word"
  by (intro bit_word_eqI) (auto simp: bit_simps min_def not_less_eq le_less_Suc_eq)

lemma canonicalise_sv48:
  assumes "t = X86_64 \<or> t = Rv64Virt"
  shows "canonicalise t a = signed_take_bit 47 a"
proof -
  have e: "SIGN_EXTENSION_48 = NOT (mask (Suc 47))" "push_bit 48 1 - 1 = (mask (Suc 47) :: usize)"
    by (simp_all add: SIGN_EXTENSION_48_def mask_eq_exp_minus_1 push_bit_eq_mult)
  show ?thesis
    using assms by (simp only: canonicalise_def drop_bit_and_one e sign_extend_eq if_True)
qed

lemma canonicalise_sv39: "canonicalise MqPro a = signed_take_bit 38 a"
proof -
  have e: "SIGN_EXTENSION_39 = NOT (mask (Suc 38))" "push_bit 39 1 - 1 = (mask (Suc 38) :: usize)"
    by (simp_all add: SIGN_EXTENSION_39_def mask_eq_exp_minus_1 push_bit_eq_mult)
  show ?thesis
    by (simp only: canonicalise_def target.distinct simp_thms if_True if_False drop_bit_and_one e sign_extend_eq)
qed

lemma vaddr_new_idem [simp]: "vaddr_new t (vaddr_new t a) = vaddr_new t a"
proof (cases t)
  case OtherTarget
  then show ?thesis by (simp add: vaddr_new_def canonicalise_def)
qed (simp_all add: vaddr_new_def canonicalise_sv48 canonicalise_sv39)

text \<open>Addresses below the sign bit are left alone.\<close>

lemma vaddr_new_low:
  assumes "unat a < 2 ^ 38"
  shows "vaddr_new t a = a"
proof -
  have a: "take_bit 38 a = a" using assms by (rule take_bit_unat_small)
  have "signed_take_bit n (take_bit 38 a) = take_bit 38 a" if "38 \<le> n" for n
    using that by (simp add: signed_take_bit_take_bit)
  then have "signed_take_bit n a = a" if "38 \<le> n" for n
    using that unfolding a by blast
  then show ?thesis
    by (cases t) (simp_all add: vaddr_new_def canonicalise_sv48 canonicalise_sv39,
        simp add: canonicalise_def)
qed

subsection \<open>Alignment and ranges\<close>

lemma SIZE_nonzero [simp]: "SIZE s \<noteq> 0"
  by (cases s) simp_all

lemma word_mod_eq_0_iff_dvd: "a mod b = 0 \<longleftrightarrow> unat b dvd unat a" for a b :: "'w::len word"
  by (simp add: dvd_eq_mod_eq_0 unat_mod flip: unat_eq_zero)

lemma paddr_is_aligned_SIZE: "paddr_is_aligned a (SIZE s) = Inr (unat (SIZE s) dvd unat a)"
  by (simp add: paddr_is_aligned_def urem_def word_mod_eq_0_iff_dvd)

lemma vaddr_is_aligned_SIZE: "vaddr_is_aligned a (SIZE s) = Inr (unat (SIZE s) dvd unat a)"
  by (simp add: vaddr_is_aligned_def urem_def word_mod_eq_0_iff_dvd)

lemma frame_starts_with_eq:
  "frame_starts_with s a = (if unat (SIZE s) dvd unat a then Inr a else Inl AssertFailed)"
  by (simp add: frame_starts_with_def paddr_is_aligned_SIZE rassert_def)

lemma page_starts_with_eq:
  "page_starts_with s a = (if unat (SIZE s) dvd unat a then Inr a else Inl AssertFailed)"
  by (simp add: page_starts_with_def urem_def word_mod_eq_0_iff_dvd rassert_def)

lemma paddr_valid_le: "paddr_valid t b \<Longrightarrow> unat a \<le> unat b \<Longrightarrow> paddr_valid t a"
  by (auto simp: paddr_valid_iff)

lemma frame_forward_one:
  assumes "unat f + unat (SIZE s) \<le> unat e" and "paddr_valid t e"
  shows "frame_forward_checked t s f 1 = Some (f + SIZE s)"
proof -
  have lt: "unat f + unat (SIZE s) < 2 ^ 64"
    using assms(1) unsigned_less [of e, where 'a = nat] by simp
  then have "paddr_valid t (f + SIZE s)"
    using assms by (intro paddr_valid_le [OF assms(2)]) (simp add: unat_add_no_overflow)
  then show ?thesis
    using lt unsigned_less [of "SIZE s", where 'a = nat]
    by (simp add: frame_forward_checked_def checked_mul_def paddr_checked_add_def checked_add_def)
qed

lemma for_frames_eq:
  assumes "unat e = unat a + n * unat (SIZE s)" and "paddr_valid t e"
  shows "for_frames t s body a e st = rfold body st (map (\<lambda>i. a + of_nat i * SIZE s) [0..<n])"
  using assms
proof (induction n arbitrary: a st)
  case 0
  then show ?case by (simp add: for_frames.simps [of t s body a e] word_less_nat_alt)
next
  case (Suc n)
  have lt: "a < e" using Suc.prems(1) by (simp add: word_less_nat_alt)
  have le: "unat a + unat (SIZE s) \<le> unat e" using Suc.prems(1) by simp
  have u: "unat (a + SIZE s) = unat a + unat (SIZE s)"
    using le unsigned_less [of e, where 'a = nat] by (intro unat_add_no_overflow) simp
  have IH: "for_frames t s body (a + SIZE s) e =
      (\<lambda>st'. rfold body st' (map (\<lambda>i. a + SIZE s + of_nat i * SIZE s) [0..<n]))"
    using Suc.prems u by (intro ext Suc.IH) simp_all
  have "map (\<lambda>i. a + of_nat i * SIZE s) [0..<Suc n]
      = a # map (\<lambda>i. a + SIZE s + of_nat i * SIZE s) [0..<n]"
    by (simp add: map_upt_Suc algebra_simps del: upt_Suc)
  then show ?case
    using lt frame_forward_one [OF le Suc.prems(2)]
    by (simp add: for_frames.simps [of t s body a e] IH del: upt_Suc)
qed

lemma SIZE_units:
  "kibibytes 4 = Inr (SIZE Size4KiB)" "mebibytes 2 = Inr (SIZE Size2MiB)" "gibibytes 1 = Inr (SIZE Size1GiB)"
  by (simp_all add: kibibytes_def mebibytes_def gibibytes_def umul_def)

subsection \<open>Properties\<close>

text \<open>C33: a virtual address is always canonical: on the targets with four-level tables the bits above
  bit 47, and with three-level tables those above bit 38, are copies of it, the bits below are those
  of the given address, and an address that is canonical already is kept.\<close>

theorem vaddr_new_canonical:
  assumes "t \<noteq> OtherTarget" and "hi = (if t = MqPro then 38 else 47)"
  shows "(\<forall>i < 64. bit (vaddr_new t a) i \<longleftrightarrow> bit a (min i hi)) \<and>
     (vaddr_new t a = a \<longleftrightarrow> (\<forall>i. hi \<le> i \<and> i < 64 \<longrightarrow> (bit a i \<longleftrightarrow> bit a hi)))"
proof -
  have hi: "hi < 63" using assms(2) by (simp split: if_splits)
  have e: "vaddr_new t a = signed_take_bit hi a"
    using assms canonicalise_sv48 [of t a] canonicalise_sv39 [of a] by (cases t) (auto simp: vaddr_new_def)
  have b: "bit (vaddr_new t a) i \<longleftrightarrow> bit a (min i hi)" if "i < 64" for i
    using that unfolding e by (simp add: bit_simps min.commute)
  have keep: "(vaddr_new t a = a) = (\<forall>i < 64. bit a (min i hi) \<longleftrightarrow> bit a i)"
    using b by (auto simp: bit_eq_iff impossible_bit)
  have high: "(bit a (min i hi) \<longleftrightarrow> bit a i) \<longleftrightarrow> (hi \<le> i \<longrightarrow> (bit a i \<longleftrightarrow> bit a hi))" for i
    by (cases "hi \<le> i") (auto simp: min_absorb1 min_absorb2)
  have "vaddr_new t a = a \<longleftrightarrow> (\<forall>i. hi \<le> i \<and> i < 64 \<longrightarrow> (bit a i \<longleftrightarrow> bit a hi))"
    unfolding keep high by blast
  then show ?thesis using b by blast
qed

theorem vaddr_new_canonical_witness:
  "bit (vaddr_new X86_64 0x800000000000) 63 \<and> bit (vaddr_new MqPro 0x4000000000) 63 \<and>
   \<not> bit (vaddr_new MqPro 0x800000000000) 47"
  using vaddr_new_canonical [of X86_64 47 "0x800000000000", THEN conjunct1, rule_format, of 63]
    vaddr_new_canonical [of MqPro 38 "0x4000000000", THEN conjunct1, rule_format, of 63]
    vaddr_new_canonical [of MqPro 38 "0x800000000000", THEN conjunct1, rule_format, of 47]
  by simp

end
