(* ===== verification/Allocator_Spec.thy ===== *)
theory Allocator_Spec
  imports Hal_Memory
begin

text \<open>
  The contract of a block allocator, as the clients of \<open>kernel/src/pmm\<close> rely on it:
  a request for \<open>n\<close> returns an area that was free and takes exactly this area out of
  the free memory, and giving an area back adds exactly this area.  The locale is
  interpreted by the buddy allocator (\<open>Kernel_Buddy\<close>), and the lemmas below hold for
  every sequence of requests a client makes.
\<close>

text \<open>
  A client keeps a list of what it was given.  It asks for a new area or gives one of its
  own areas back; a request that cannot be satisfied leaves its list as it is.
\<close>

datatype request = Acquire nat | Release nat

type_synonym owned = "(paddr \<times> nat) list"

fun serve ::
  "('s \<Rightarrow> nat \<Rightarrow> panic + (paddr option \<times> 's)) \<Rightarrow> ('s \<Rightarrow> paddr \<Rightarrow> nat \<Rightarrow> panic + 's) \<Rightarrow>
   's \<times> owned \<Rightarrow> request \<Rightarrow> panic + ('s \<times> owned)" where
  "serve alloc release (s, own) (Acquire n) =
     rbind (alloc s n) (\<lambda>(r, s'). Inr (s', case r of None \<Rightarrow> own | Some a \<Rightarrow> (a, n) # own))"
| "serve alloc release (s, own) (Release i) =
     (if i < length own then
        rbind (release s (fst (own ! i)) (snd (own ! i))) (\<lambda>s'. Inr (s', take i own @ drop (Suc i) own))
      else Inr (s, own))"

definition owned_memory :: "(paddr \<Rightarrow> nat \<Rightarrow> nat set) \<Rightarrow> owned \<Rightarrow> nat set" where
  "owned_memory area own = (\<Union>(a, n) \<in> set own. area a n)"

definition owned_apart :: "(paddr \<Rightarrow> nat \<Rightarrow> nat set) \<Rightarrow> owned \<Rightarrow> bool" where
  "owned_apart area own \<longleftrightarrow> sorted_wrt (\<lambda>(a, n) (a', n'). area a n \<inter> area a' n' = {}) own"

lemma owned_memory_simps [simp]:
  "owned_memory area [] = {}"
  "owned_memory area ((a, n) # own) = area a n \<union> owned_memory area own"
  "owned_memory area (own @ own') = owned_memory area own \<union> owned_memory area own'"
  by (auto simp: owned_memory_def)

lemma owned_apart_simps [simp]:
  "owned_apart area []"
  "owned_apart area ((a, n) # own) \<longleftrightarrow> area a n \<inter> owned_memory area own = {} \<and> owned_apart area own"
  "owned_apart area (own @ own') \<longleftrightarrow>
     owned_apart area own \<and> owned_apart area own' \<and> owned_memory area own \<inter> owned_memory area own' = {}"
  by (fastforce simp: owned_apart_def owned_memory_def sorted_wrt_append)+

locale block_allocator =
  fixes inv :: "'s \<Rightarrow> bool" and free :: "'s \<Rightarrow> nat set"
    and valid :: "paddr \<Rightarrow> nat \<Rightarrow> bool" and area :: "paddr \<Rightarrow> nat \<Rightarrow> nat set"
    and alloc :: "'s \<Rightarrow> nat \<Rightarrow> panic + (paddr option \<times> 's)"
    and release :: "'s \<Rightarrow> paddr \<Rightarrow> nat \<Rightarrow> panic + 's"
  assumes alloc_law:
    "inv s \<Longrightarrow> \<exists>r s'. alloc s n = Inr (r, s') \<and> inv s' \<and>
       (case r of
          None \<Rightarrow> s' = s
        | Some a \<Rightarrow> valid a n \<and> area a n \<subseteq> free s \<and> free s' = free s - area a n)"
    and release_law:
    "inv s \<Longrightarrow> valid a n \<Longrightarrow> area a n \<inter> free s = {} \<Longrightarrow>
       \<exists>s'. release s a n = Inr s' \<and> inv s' \<and> free s' = free s \<union> area a n"
    and canonical: "inv s \<Longrightarrow> inv s' \<Longrightarrow> free s = free s' \<Longrightarrow> s = s'"
begin

lemma alloc_release:
  assumes "inv s" and "alloc s n = Inr (Some a, s')"
  shows "release s' a n = Inr s"
proof -
  have l: "inv s'" "valid a n" "area a n \<subseteq> free s" "free s' = free s - area a n"
    using alloc_law [OF assms(1), of n] assms(2) by auto
  obtain s'' where r: "release s' a n = Inr s''" "inv s''" "free s'' = free s' \<union> area a n"
    using release_law [of s' a n] l by auto
  then have "s'' = s" using l assms(1) by (intro canonical) auto
  then show ?thesis using r by simp
qed

definition session_inv :: "nat set \<Rightarrow> 's \<times> owned \<Rightarrow> bool" where
  "session_inv M = (\<lambda>(s, own). inv s \<and> owned_apart area own \<and> (\<forall>(a, n) \<in> set own. valid a n) \<and>
     free s \<inter> owned_memory area own = {} \<and> free s \<union> owned_memory area own = M)"

lemma serve_acquire:
  assumes "session_inv M (s, own)"
  shows "\<exists>st'. serve alloc release (s, own) (Acquire n) = Inr st' \<and> session_inv M st'"
proof -
  obtain r s' where r: "alloc s n = Inr (r, s')" "inv s'"
    "case r of None \<Rightarrow> s' = s | Some a \<Rightarrow> valid a n \<and> area a n \<subseteq> free s \<and> free s' = free s - area a n"
    using alloc_law [of s n] assms by (auto simp: session_inv_def)
  show ?thesis
  proof (cases r)
    case None
    then show ?thesis using r assms by (simp add: session_inv_def)
  next
    case (Some a)
    then have "session_inv M (s', (a, n) # own)" using r assms by (auto simp: session_inv_def)
    then show ?thesis using r Some by simp
  qed
qed

lemma serve_release:
  assumes inv: "session_inv M (s, own)"
  shows "\<exists>st'. serve alloc release (s, own) (Release i) = Inr st' \<and> session_inv M st'"
proof (cases "i < length own")
  case True
  obtain xs a n ys where own: "own = xs @ (a, n) # ys" "own ! i = (a, n)" "take i own = xs" "drop (Suc i) own = ys"
    using id_take_nth_drop [OF True] by (metis prod.collapse)
  have disj: "area a n \<inter> free s = {}" and v: "inv s" "valid a n" using inv by (auto simp: session_inv_def own(1))
  obtain s' where s': "release s a n = Inr s'" "inv s'" "free s' = free s \<union> area a n"
    using release_law [OF v disj] by blast
  have "session_inv M (s', xs @ ys)"
    using inv s' by (auto simp: session_inv_def own(1))
  then show ?thesis using True own(2,3,4) s'(1) by simp
qed (use inv in simp)

lemma session_ok:
  assumes "inv s"
  shows "\<exists>s' own. rfold (serve alloc release) (s, []) reqs = Inr (s', own) \<and> inv s' \<and>
     owned_apart area own \<and> free s' \<inter> owned_memory area own = {} \<and> free s' \<union> owned_memory area own = free s \<and>
     (own = [] \<longrightarrow> s' = s)"
proof -
  have "\<exists>st'. rfold (serve alloc release) (s, []) reqs = Inr st' \<and> session_inv (free s) st'"
  proof (rule rfold_invariant [where I = "\<lambda>_. session_inv (free s)"])
    show "session_inv (free s) (s, [])" using assms by (simp add: session_inv_def)
    show "\<exists>st'. serve alloc release st r = Inr st' \<and> session_inv (free s) st'"
      if "session_inv (free s) st" for st r
      using that serve_acquire serve_release by (cases st; cases r) auto
  qed
  then show ?thesis using canonical [OF _ assms] by (auto simp: session_inv_def)
qed

end

text \<open>
  The part of \<open>FrameAllocator\<close> that the page tables use: one frame at a time, and an
  allocation that cannot be satisfied panics.  Interpreted by the physical memory manager and
  by the allocator the kernel uses before it exists.
\<close>

abbreviation frame_memory :: "paddr \<Rightarrow> nat set" where
  "frame_memory f \<equiv> {unat f ..< unat f + 4096}"

locale frame_source =
  fixes inv :: "'s \<Rightarrow> bool" and free :: "'s \<Rightarrow> nat set" and allocate :: "'s \<Rightarrow> panic + (paddr \<times> 's)"
    and good :: "paddr \<Rightarrow> bool"
  assumes allocate_law:
    "inv s \<Longrightarrow> allocate s = Inr (f, s') \<Longrightarrow>
       inv s' \<and> good f \<and> 4096 dvd unat f \<and> frame_memory f \<subseteq> free s \<and> free s' = free s - frame_memory f"
    and allocate_ready: "inv s \<Longrightarrow> free s \<noteq> {} \<Longrightarrow> \<exists>r. allocate s = Inr r"
    and free_finite: "inv s \<Longrightarrow> finite (free s)"
begin

lemma allocate_room:
  assumes "inv s" and "allocate s = Inr (f, s')"
  shows "card (free s') + 4096 = card (free s)"
proof -
  have f: "frame_memory f \<subseteq> free s" "free s' = free s - frame_memory f"
    using allocate_law [OF assms] by auto
  have "card (frame_memory f) \<le> card (free s)" using free_finite [OF assms(1)] f(1) by (rule card_mono)
  then show ?thesis using f by (simp add: card_Diff_subset)
qed

lemma allocate_shrinks:
  assumes "inv s" and "allocate s = Inr (f, s')"
  shows "free s' \<subset> free s"
proof -
  have "unat f \<in> free s - free s'" and "free s' \<subseteq> free s"
    using allocate_law [OF assms] by auto
  then show ?thesis by blast
qed

lemma allocate_twice:
  assumes "inv s" and "allocate s = Inr (f, s')" and "inv s''" and "free s'' \<subseteq> free s'"
    and "allocate s'' = Inr (g, s3)"
  shows "frame_memory f \<inter> frame_memory g = {}"
  using allocate_law [OF assms(1,2)] allocate_law [OF assms(3,5)] assms(4) by blast

end

end
