(* ===== verification/Dyadic_Blocks.thy ===== *)
theory Dyadic_Blocks
  imports Prelude
begin

text \<open>
  The mathematics behind \<open>kernel/src/pmm/buddy.rs\<close>: blocks of \<open>2 ^ k\<close> bytes at
  addresses that are multiples of \<open>2 ^ k\<close>, the buddy of a block, and sets of
  pairwise disjoint blocks in which no two buddies are both present.  Such a set
  is determined by the memory it covers.
\<close>

definition blk :: "nat \<Rightarrow> nat \<Rightarrow> nat set" where
  "blk n k = {n ..< n + 2 ^ k}"

definition aligned :: "nat \<Rightarrow> nat \<Rightarrow> bool" where
  "aligned n k \<longleftrightarrow> 2 ^ k dvd n"

definition bud :: "nat \<Rightarrow> nat \<Rightarrow> nat" where
  "bud n k = n XOR 2 ^ k"

lemma blk_nonempty [simp]: "blk n k \<noteq> {}" and start_in_blk [simp]: "n \<in> blk n k"
  by (auto simp: blk_def)

lemma finite_blk [simp]: "finite (blk n k)" and card_blk [simp]: "card (blk n k) = 2 ^ k"
  by (simp_all add: blk_def)

lemma blk_inject: "blk n k = blk m j \<longleftrightarrow> n = m \<and> k = j"
proof
  assume e: "blk n k = blk m j"
  then have "card (blk n k) = card (blk m j)" by simp
  then have "k = j" by simp
  moreover from e have "n = m" by (metis atLeastLessThan_eq_iff blk_def blk_nonempty
        atLeastLessThan_empty_iff2 not_less)
  ultimately show "n = m \<and> k = j" by simp
qed simp

lemma blk_div:
  assumes "aligned n k"
  shows "x \<in> blk n k \<longleftrightarrow> x div 2 ^ k = n div 2 ^ k"
proof -
  obtain q where q: "n = 2 ^ k * q" using assms by (auto simp: aligned_def)
  have "x div 2 ^ k = q" if "x \<in> blk n k"
    using that by (intro div_nat_eqI) (auto simp: blk_def q)
  moreover have "x \<in> blk n k" if "x div 2 ^ k = q"
    using that mult_div_mod_eq [of "2 ^ k" x] mod_less_divisor [of "2 ^ k" x]
    by (auto simp: blk_def q simp del: mod_less_divisor)
  ultimately show ?thesis by (auto simp: q)
qed

lemma div_power_le:
  fixes x y :: nat
  assumes "j \<le> k" and "x div 2 ^ j = y div 2 ^ j"
  shows "x div 2 ^ k = y div 2 ^ k"
proof -
  have "z div 2 ^ k = z div 2 ^ j div 2 ^ (k - j)" for z :: nat
    using assms(1) by (metis div_mult2_eq le_add_diff_inverse power_add)
  then show ?thesis using assms(2) by simp
qed

lemma blk_nested:
  assumes a: "aligned a j" and b: "aligned b k" and jk: "j \<le> k"
    and meet: "blk a j \<inter> blk b k \<noteq> {}"
  shows "blk a j \<subseteq> blk b k"
proof
  fix y assume y: "y \<in> blk a j"
  from meet obtain x where x: "x \<in> blk a j" "x \<in> blk b k" by blast
  have "y div 2 ^ k = x div 2 ^ k"
    using jk x(1) y by (intro div_power_le [of j k]) (simp_all add: blk_div [OF a])
  then show "y \<in> blk b k" using x(2) by (simp add: blk_div [OF b])
qed

lemma aligned_mono: "aligned n k \<Longrightarrow> j \<le> k \<Longrightarrow> aligned n j"
  by (auto simp: aligned_def intro: dvd_trans le_imp_power_dvd)

subsection \<open>Buddies\<close>

lemma bud_eq:
  assumes "aligned n k"
  shows "bud n k = (if odd (n div 2 ^ k) then n - 2 ^ k else n + 2 ^ k)"
proof -
  have flip: "bud n k = flip_bit k n"
    by (simp add: bud_def flip_bit_eq_xor)
  show ?thesis
  proof (cases "odd (n div 2 ^ k)")
    case True
    then have b: "bit n k" by (simp add: bit_iff_odd)
    have "n = set_bit k (unset_bit k n)"
      using b by (intro bit_eqI) (auto simp: bit_simps)
    then have "n = unset_bit k n + 2 ^ k"
      by (simp add: set_bit_eq bit_simps)
    then have "unset_bit k n = n - 2 ^ k" by simp
    then show ?thesis using True b by (simp add: flip flip_bit_eq_if)
  next
    case False
    then have "\<not> bit n k" by (simp add: bit_iff_odd)
    then show ?thesis using False by (simp add: flip flip_bit_eq_if set_bit_eq)
  qed
qed

lemma bud_bud [simp]: "bud (bud n k) k = n"
  by (simp add: bud_def xor.assoc)

lemma bud_cases:
  assumes "aligned n k"
  obtains (low) m where "n = m * 2 ^ Suc k" "bud n k = n + 2 ^ k"
    | (high) m where "n = m * 2 ^ Suc k + 2 ^ k" "bud n k = m * 2 ^ Suc k"
proof -
  obtain q where q: "n = 2 ^ k * q" using assms by (auto simp: aligned_def)
  show thesis
  proof (cases "even q")
    case True
    then obtain m where "q = 2 * m" by (elim evenE)
    then show thesis using low [of m] bud_eq [OF assms] True q by (simp add: algebra_simps)
  next
    case False
    then obtain m where "q = 2 * m + 1" by (elim oddE)
    then show thesis using high [of m] bud_eq [OF assms] False q by (simp add: algebra_simps)
  qed
qed

lemma aligned_bud [simp]: "aligned n k \<Longrightarrow> aligned (bud n k) k"
  by (elim bud_cases) (auto simp: aligned_def)

lemma bud_neq [simp]: "bud n k \<noteq> n"
proof -
  have "bit (bud n k) k \<noteq> bit n k" by (simp add: bud_def bit_simps)
  then show ?thesis by auto
qed

lemma aligned_parent: "aligned n k \<Longrightarrow> aligned (min n (bud n k)) (Suc k)"
  by (elim bud_cases) (auto simp: aligned_def min_def)

lemma blk_halves: "blk n (Suc k) = blk n k \<union> blk (n + 2 ^ k) k"
  by (auto simp: blk_def)

lemma blk_parent: "aligned n k \<Longrightarrow> blk (min n (bud n k)) (Suc k) = blk n k \<union> blk (bud n k) k"
  by (elim bud_cases) (auto simp: min_def blk_halves)

lemma blk_bud_disjoint: "aligned n k \<Longrightarrow> blk n k \<inter> blk (bud n k) k = {}"
  by (elim bud_cases) (auto simp: blk_def)

lemma bud_parent:
  assumes "aligned n (Suc k)"
  shows "bud n k = n + 2 ^ k"
proof -
  obtain m where "n = 2 ^ Suc k * m" using assms by (auto simp: aligned_def)
  then have "n div 2 ^ k = 2 * m" by simp
  moreover have "aligned n k" using assms by (rule aligned_mono) simp
  ultimately show ?thesis by (simp add: bud_eq)
qed

lemma aligned_blk_eqI:
  "aligned n k \<Longrightarrow> aligned m k \<Longrightarrow> blk n k \<subseteq> blk m k \<Longrightarrow> n = m"
  by (metis blk_inject card_blk card_subset_eq finite_blk)

subsection \<open>Sets of free blocks\<close>

text \<open>A block is a pair of its start and its size exponent.\<close>

type_synonym block = "nat \<times> nat"

definition block_memory :: "block set \<Rightarrow> nat set" where
  "block_memory F = (\<Union>(n, k) \<in> F. blk n k)"

definition separated :: "block set \<Rightarrow> bool" where
  "separated F \<longleftrightarrow>
     (\<forall>(n, k) \<in> F. \<forall>(m, j) \<in> F. (n, k) \<noteq> (m, j) \<longrightarrow> blk n k \<inter> blk m j = {})"

definition coalesced :: "nat \<Rightarrow> block set \<Rightarrow> bool" where
  "coalesced hi F \<longleftrightarrow> (\<forall>(n, k) \<in> F. k < hi \<longrightarrow> (bud n k, k) \<notin> F)"

definition wf_blocks :: "nat \<Rightarrow> nat \<Rightarrow> block set \<Rightarrow> bool" where
  "wf_blocks lo hi F \<longleftrightarrow>
     (\<forall>(n, k) \<in> F. aligned n k \<and> lo \<le> k \<and> k \<le> hi) \<and> separated F \<and> coalesced hi F"

lemma block_memoryI: "(n, k) \<in> F \<Longrightarrow> x \<in> blk n k \<Longrightarrow> x \<in> block_memory F"
  by (auto simp: block_memory_def)

lemma block_memoryE:
  assumes "x \<in> block_memory F"
  obtains n k where "(n, k) \<in> F" "x \<in> blk n k"
  using assms by (auto simp: block_memory_def)

lemma block_memory_empty [simp]: "block_memory {} = {}"
  by (simp add: block_memory_def)

lemma block_memory_insert [simp]: "block_memory (insert (n, k) F) = blk n k \<union> block_memory F"
  by (simp add: block_memory_def)

lemma wf_blocks_empty [simp]: "wf_blocks lo hi {}"
  by (simp add: wf_blocks_def separated_def coalesced_def)

lemma wf_blocksD:
  assumes "wf_blocks lo hi F" and "(n, k) \<in> F"
  shows "aligned n k" and "lo \<le> k" and "k \<le> hi"
  using assms by (auto simp: wf_blocks_def)

lemma wf_blocks_same:
  "wf_blocks lo hi F \<Longrightarrow> (n, k) \<in> F \<Longrightarrow> (m, j) \<in> F \<Longrightarrow> x \<in> blk n k \<Longrightarrow> x \<in> blk m j \<Longrightarrow> (n, k) = (m, j)"
  unfolding wf_blocks_def separated_def by blast

lemma wf_blocks_buddy: "wf_blocks lo hi F \<Longrightarrow> (n, k) \<in> F \<Longrightarrow> k < hi \<Longrightarrow> (bud n k, k) \<notin> F"
  unfolding wf_blocks_def coalesced_def by blast

lemma wf_blocks_insert:
  assumes wf: "wf_blocks lo hi F" and al: "aligned n k" "lo \<le> k" "k \<le> hi"
    and fresh: "blk n k \<inter> block_memory F = {}" and nobud: "k < hi \<Longrightarrow> (bud n k, k) \<notin> F"
  shows "wf_blocks lo hi (insert (n, k) F)"
proof -
  have "blk n k \<inter> blk m j = {}" if "(m, j) \<in> F" for m j
    using fresh that by (auto intro: block_memoryI)
  then have "separated (insert (n, k) F)"
    using wf by (fastforce simp: wf_blocks_def separated_def)
  moreover have "coalesced hi (insert (n, k) F)"
    unfolding coalesced_def
  proof clarify
    fix m j assume "(m, j) \<in> insert (n, k) F" "j < hi" "(bud m j, j) \<in> insert (n, k) F"
    then show False using wf_blocks_buddy [OF wf, of m j] nobud by (auto dest: arg_cong [of _ _ "\<lambda>x. bud x j"])
  qed
  ultimately show ?thesis using wf al by (auto simp: wf_blocks_def)
qed

lemma wf_blocks_remove: "wf_blocks lo hi F \<Longrightarrow> wf_blocks lo hi (F - X)"
  unfolding wf_blocks_def separated_def coalesced_def by blast

lemma block_memory_remove:
  assumes wf: "wf_blocks lo hi F" and p: "(n, k) \<in> F"
  shows "block_memory (F - {(n, k)}) = block_memory F - blk n k"
proof -
  have "blk m j \<inter> blk n k = {}" if "(m, j) \<in> F" "(m, j) \<noteq> (n, k)" for m j
    using wf_blocks_same [OF wf that(1) p] that(2) by blast
  then show ?thesis using p by (fastforce simp: block_memory_def)
qed

subsection \<open>Coalescing makes the free set canonical\<close>

lemma wf_blocks_cover_step:
  assumes wf: "wf_blocks lo hi F" and al: "aligned n (Suc k)" and hi: "Suc k \<le> hi"
    and l: "(m, j) \<in> F" "k \<le> j" "blk n k \<subseteq> blk m j"
    and r: "(m', j') \<in> F" "k \<le> j'" "blk (n + 2 ^ k) k \<subseteq> blk m' j'"
  shows "\<exists>(m, j) \<in> F. Suc k \<le> j \<and> blk n (Suc k) \<subseteq> blk m j"
proof -
  have al': "aligned n k" using al by (rule aligned_mono) simp
  have b: "bud n k = n + 2 ^ k" using al by (rule bud_parent)
  have larger: "blk n (Suc k) \<subseteq> blk p i"
    if "(p, i) \<in> F" "Suc k \<le> i" "blk n (Suc k) \<inter> blk p i \<noteq> {}" for p i
    using blk_nested [OF al wf_blocksD(1) [OF wf that(1)] that(2,3)] .
  consider "Suc k \<le> j" | "Suc k \<le> j'" | "j = k" "j' = k" using l(2) r(2) by linarith
  then show ?thesis
  proof cases
    case 1
    have "n \<in> blk m j" by (rule subsetD [OF l(3) start_in_blk])
    then have "blk n (Suc k) \<inter> blk m j \<noteq> {}" using start_in_blk [of n "Suc k"] by blast
    then have "blk n (Suc k) \<subseteq> blk m j" by (rule larger [OF l(1) 1])
    then show ?thesis using l(1) 1 by (intro bexI [of _ "(m, j)"]) simp_all
  next
    case 2
    have "n + 2 ^ k \<in> blk m' j'" by (rule subsetD [OF r(3) start_in_blk])
    moreover have "n + 2 ^ k \<in> blk n (Suc k)" by (simp add: blk_halves)
    ultimately have "blk n (Suc k) \<inter> blk m' j' \<noteq> {}" by blast
    then have "blk n (Suc k) \<subseteq> blk m' j'" by (rule larger [OF r(1) 2])
    then show ?thesis using r(1) 2 by (intro bexI [of _ "(m', j')"]) simp_all
  next
    case 3
    have "n = m" using l 3 wf_blocksD(1) [OF wf l(1)] al' by (intro aligned_blk_eqI [of n k]) auto
    moreover have "n + 2 ^ k = m'"
      using r 3 wf_blocksD(1) [OF wf r(1)] aligned_bud [OF al'] b by (intro aligned_blk_eqI [of _ k]) auto
    ultimately have "(n, k) \<in> F" "(bud n k, k) \<in> F" using l r 3 b by auto
    then show ?thesis using wf_blocks_buddy [OF wf, of n k] hi by simp
  qed
qed

theorem wf_blocks_cover:
  assumes wf: "wf_blocks lo hi F" and "lo \<le> k" "k \<le> hi"
    and "aligned n k" and "blk n k \<subseteq> block_memory F"
  shows "\<exists>(m, j) \<in> F. k \<le> j \<and> blk n k \<subseteq> blk m j"
  using \<open>lo \<le> k\<close> assms(3-5)
proof (induction k arbitrary: n rule: nat_induct_at_least)
  case base
  then have "n \<in> block_memory F" using start_in_blk [of n lo] by blast
  then obtain m j where mj: "(m, j) \<in> F" "n \<in> blk m j" by (elim block_memoryE)
  have "blk n lo \<subseteq> blk m j"
    using mj(2) start_in_blk [of n lo]
    by (intro blk_nested [OF base.prems(2) wf_blocksD(1) [OF wf mj(1)] wf_blocksD(2) [OF wf mj(1)]]) blast
  then show ?case using mj wf_blocksD(2) [OF wf mj(1)] by blast
next
  case (Suc k)
  have al: "aligned n k" using Suc.prems(2) by (rule aligned_mono) simp
  have al': "aligned (n + 2 ^ k) k" using aligned_bud [OF al] bud_parent [OF Suc.prems(2)] by simp
  have mem: "blk n k \<subseteq> block_memory F" "blk (n + 2 ^ k) k \<subseteq> block_memory F"
    using Suc.prems(3) by (auto simp: blk_halves)
  have k: "k \<le> hi" using Suc.prems(1) by simp
  obtain m j where l: "(m, j) \<in> F" "k \<le> j" "blk n k \<subseteq> blk m j"
    using Suc.IH [OF k al mem(1)] by blast
  obtain m' j' where r: "(m', j') \<in> F" "k \<le> j'" "blk (n + 2 ^ k) k \<subseteq> blk m' j'"
    using Suc.IH [OF k al' mem(2)] by blast
  show ?case by (rule wf_blocks_cover_step [OF wf Suc.prems(2,1) l r])
qed

lemma wf_blocks_subset:
  assumes F: "wf_blocks lo hi F" and G: "wf_blocks lo hi G"
    and mem: "block_memory F = block_memory G" and p: "(n, k) \<in> F"
  shows "(n, k) \<in> G"
proof -
  note f = wf_blocksD [OF F p]
  have "blk n k \<subseteq> block_memory G" using p mem by (auto intro: block_memoryI)
  then obtain m j where mj: "(m, j) \<in> G" "k \<le> j" "blk n k \<subseteq> blk m j"
    using wf_blocks_cover [OF G f(2,3,1)] by blast
  note g = wf_blocksD [OF G mj(1)]
  have "blk m j \<subseteq> block_memory F" using mj mem by (auto intro: block_memoryI)
  then obtain m' j' where mj': "(m', j') \<in> F" "j \<le> j'" "blk m j \<subseteq> blk m' j'"
    using wf_blocks_cover [OF F g(2,3,1)] by blast
  have "n \<in> blk m' j'" using mj(3) mj'(3) start_in_blk [of n k] by blast
  then have "(n, k) = (m', j')" by (rule wf_blocks_same [OF F p mj'(1) start_in_blk])
  then have "j = k" and "blk n k = blk m j" using mj mj' by auto
  then show ?thesis using mj(1) by (auto simp: blk_inject)
qed

theorem wf_blocks_unique:
  assumes "wf_blocks lo hi F" "wf_blocks lo hi G" "block_memory F = block_memory G"
  shows "F = G"
  using wf_blocks_subset [OF assms] wf_blocks_subset [OF assms(2,1) assms(3) [symmetric]] by auto

end
