(* ===== verification/Kernel_Buddy.thy ===== *)
theory Kernel_Buddy
  imports Allocator_Spec Dyadic_Blocks
begin

text \<open>
  \<open>kernel/src/pmm/buddy.rs\<close>: the buddy allocator.  The state is the array of
  bins; a \<open>BTreeSet<PAddr>\<close> is a set of addresses and its first element the
  minimum.  The invariant \<open>buddy_inv\<close> says that the free blocks are aligned to
  their size, pairwise disjoint, valid physical addresses, and that no two
  buddies below the largest order are both free.
\<close>

subsection \<open>The allocator\<close>

definition MAX_ORDER :: nat where
  "MAX_ORDER = 12"

definition NUM_BINS :: nat where
  "NUM_BINS = MAX_ORDER + 1"

definition BASE_SIZE :: usize where
  "BASE_SIZE = SIZE Size4KiB"

record buddy_allocator =
  bins :: "paddr set list"

definition buddy_new :: buddy_allocator where
  "buddy_new = \<lparr>bins = replicate NUM_BINS {}\<rparr>"

definition buddy_of :: "target \<Rightarrow> paddr \<Rightarrow> nat \<Rightarrow> panic + paddr" where
  "buddy_of t block_start order =
     rbind (ushl 1 order) (\<lambda>b.
     rbind (umul b BASE_SIZE) (\<lambda>m.
       runwrap (paddr_new t (block_start XOR m))))"

function free_block ::
  "target \<Rightarrow> buddy_allocator \<Rightarrow> paddr \<Rightarrow> nat \<Rightarrow> panic + buddy_allocator" where
  "free_block t b start order =
     (if order = MAX_ORDER then
        rbind (rindex (bins b) order) (\<lambda>bin.
        rbind (rassert (start \<notin> bin)) (\<lambda>_.
          Inr (b\<lparr>bins := (bins b)[order := insert start bin]\<rparr>)))
      else
        rbind (buddy_of t start order) (\<lambda>buddy.
        rbind (rindex (bins b) order) (\<lambda>bin.
          if buddy \<in> bin then
            free_block t (b\<lparr>bins := (bins b)[order := bin - {buddy}]\<rparr>) (min start buddy) (order + 1)
          else
            rbind (rassert (start \<notin> bin)) (\<lambda>_.
              Inr (b\<lparr>bins := (bins b)[order := insert start bin]\<rparr>)))))"
  by pat_completeness auto
termination
  by (relation "measure (\<lambda>(t, b, start, order). length (bins b) - order)")
    (auto simp: rindex_eq_Inr)

declare free_block.simps [simp del]

function allocate_block ::
  "target \<Rightarrow> buddy_allocator \<Rightarrow> nat \<Rightarrow> panic + (paddr option \<times> buddy_allocator)" where
  "allocate_block t b order =
     (if order > MAX_ORDER then Inr (None, b)
      else
        rbind (rindex (bins b) order) (\<lambda>bin.
          if bin \<noteq> {} then
            Inr (Some (Min bin), b\<lparr>bins := (bins b)[order := bin - {Min bin}]\<rparr>)
          else
            rbind (allocate_block t b (order + 1)) (\<lambda>(r, b').
              case r of
                Some block \<Rightarrow>
                  rbind (buddy_of t block order) (\<lambda>second_half.
                  rbind (free_block t b' second_half order) (\<lambda>b''.
                    Inr (Some block, b'')))
              | None \<Rightarrow> Inr (None, b'))))"
  by pat_completeness auto
termination
  by (relation "measure (\<lambda>(t, b, order). MAX_ORDER + 1 - order)") (auto simp: rindex_eq_Inr)

declare allocate_block.simps [simp del]

definition free_range ::
  "target \<Rightarrow> buddy_allocator \<Rightarrow> paddr \<Rightarrow> paddr \<Rightarrow> panic + buddy_allocator" where
  "free_range t b start end' =
     for_frames t Size4KiB (\<lambda>b frame. free_block t b frame 0) start end' b"

primrec available_bytes_loop :: "paddr set list \<Rightarrow> nat \<Rightarrow> usize \<Rightarrow> panic + usize" where
  "available_bytes_loop [] i bytes = Inr bytes"
| "available_bytes_loop (bin # bs) i bytes =
     rbind (ushl 1 i) (\<lambda>p.
     rbind (umul p BASE_SIZE) (\<lambda>size.
     rbind (umul (of_nat (card bin)) size) (\<lambda>n.
     rbind (uadd bytes n) (\<lambda>bytes'.
       available_bytes_loop bs (i + 1) bytes'))))"

definition available_bytes :: "buddy_allocator \<Rightarrow> panic + usize" where
  "available_bytes b = available_bytes_loop (bins b) 0 0"

definition buddy_alloc ::
  "target \<Rightarrow> buddy_allocator \<Rightarrow> usize \<Rightarrow> panic + (paddr option \<times> buddy_allocator)" where
  "buddy_alloc t b count =
     rbind (next_power_of_two count) (\<lambda>count'. allocate_block t b (trailing_zeros count'))"

definition buddy_free ::
  "target \<Rightarrow> buddy_allocator \<Rightarrow> paddr \<Rightarrow> usize \<Rightarrow> panic + buddy_allocator" where
  "buddy_free t b base count =
     rbind (rassert (is_power_of_two count)) (\<lambda>_. free_block t b base (trailing_zeros count))"

subsection \<open>The free blocks and the invariant\<close>

definition blocks :: "buddy_allocator \<Rightarrow> block set" where
  "blocks b = {(unat a, order + 12) | a order. order < length (bins b) \<and> a \<in> bins b ! order}"

definition free_memory :: "buddy_allocator \<Rightarrow> nat set" where
  "free_memory b = block_memory (blocks b)"

definition buddy_inv :: "target \<Rightarrow> buddy_allocator \<Rightarrow> bool" where
  "buddy_inv t b \<longleftrightarrow>
     length (bins b) = NUM_BINS \<and>
     (\<forall>bin \<in> set (bins b). \<forall>a \<in> bin. paddr_valid t a) \<and>
     wf_blocks 12 (MAX_ORDER + 12) (blocks b)"

abbreviation block_of :: "paddr \<Rightarrow> nat \<Rightarrow> nat set" where
  "block_of a order \<equiv> blk (unat a) (order + 12)"

abbreviation block_aligned :: "paddr \<Rightarrow> nat \<Rightarrow> bool" where
  "block_aligned a order \<equiv> aligned (unat a) (order + 12)"

lemmas buddy_consts = MAX_ORDER_def NUM_BINS_def BASE_SIZE_def

lemma in_blocks:
  "(n, k) \<in> blocks b \<longleftrightarrow> (\<exists>a order. order < length (bins b) \<and> a \<in> bins b ! order \<and> n = unat a \<and> k = order + 12)"
  by (auto simp: blocks_def)

lemma in_blocks_word:
  "order < length (bins b) \<Longrightarrow> (unat a, order + 12) \<in> blocks b \<longleftrightarrow> a \<in> bins b ! order"
  by (auto simp: in_blocks dest: word_unat_eq_iff [THEN iffD2])

lemma blocks_insert:
  assumes "order < length (bins b)"
  shows "blocks (b\<lparr>bins := (bins b)[order := insert a (bins b ! order)]\<rparr>) = insert (unat a, order + 12) (blocks b)"
  using assms by (auto simp: blocks_def nth_list_update split: if_splits)

lemma blocks_remove:
  assumes "order < length (bins b)"
  shows "blocks (b\<lparr>bins := (bins b)[order := bins b ! order - {a}]\<rparr>) = blocks b - {(unat a, order + 12)}"
  using assms by (auto simp: blocks_def nth_list_update word_unat_eq_iff split: if_splits)

lemma valid_bins_update:
  assumes "\<forall>bin \<in> set bs. \<forall>a \<in> bin. P a" and "\<forall>a \<in> bin. P a"
  shows "\<forall>bin \<in> set (bs[i := bin]). \<forall>a \<in> bin. P a"
  using assms set_update_subset_insert [of bs i bin] by blast

lemma buddy_new_inv: "buddy_inv t buddy_new" and buddy_new_free: "free_memory buddy_new = {}"
proof -
  have "blocks buddy_new = {}" by (auto simp: blocks_def buddy_new_def)
  then show "buddy_inv t buddy_new" "free_memory buddy_new = {}"
    by (auto simp: buddy_inv_def free_memory_def buddy_new_def)
qed

subsection \<open>Finding the buddy\<close>

lemma block_size_word:
  assumes "order \<le> 51"
  shows "ushl 1 order = Inr (2 ^ order :: usize)" and "umul (2 ^ order) BASE_SIZE = Inr (2 ^ (order + 12))"
    and "unat (2 ^ (order + 12) :: usize) = 2 ^ (order + 12)"
proof -
  show u: "unat (2 ^ (order + 12) :: usize) = 2 ^ (order + 12)"
    using assms by (intro unat_power_two) simp
  show "ushl 1 order = Inr (2 ^ order :: usize)"
    using assms by (simp add: ushl_def push_bit_eq_mult)
  have "2 ^ order * (4096 :: nat) = 2 ^ (order + 12)" by (simp add: power_add)
  moreover have "(2::nat) ^ (order + 12) < 2 ^ 64" using assms by (intro power_strict_increasing) simp_all
  moreover have "unat (2 ^ order :: usize) = 2 ^ order" using assms by (intro unat_power_two) simp
  ultimately show "umul (2 ^ order) BASE_SIZE = Inr (2 ^ (order + 12))"
    by (simp add: umul_def BASE_SIZE_def power_add)
qed

lemma xor_less_power: "(x::nat) < 2 ^ n \<Longrightarrow> y < 2 ^ n \<Longrightarrow> x XOR y < 2 ^ n"
  by (metis take_bit_nat_eq_self_iff take_bit_xor)

lemma buddy_of_eq:
  assumes "order < 40" and "paddr_valid t a"
  shows "\<exists>c. buddy_of t a order = Inr c \<and> unat c = bud (unat a) (order + 12) \<and> paddr_valid t c"
proof -
  note w = block_size_word [of order]
  let ?c = "a XOR 2 ^ (order + 12)"
  have u: "unat ?c = bud (unat a) (order + 12)"
    using w(3) assms(1) by (simp add: unsigned_xor_eq bud_def)
  have "(2::nat) ^ (order + 12) < 2 ^ 52" using assms(1) by (intro power_strict_increasing) simp_all
  then have "paddr_valid t ?c"
    using assms(2) xor_less_power [of "unat a" 52 "2 ^ (order + 12)"] by (auto simp: paddr_valid_iff u bud_def)
  then show ?thesis
    using w assms(1) u by (simp add: buddy_of_def)
qed

subsection \<open>Freeing a block\<close>

lemma buddy_inv_insert:
  assumes inv: "buddy_inv t b" and ord: "order \<le> MAX_ORDER"
    and al: "block_aligned a order" and val: "paddr_valid t a"
    and fresh: "block_of a order \<inter> free_memory b = {}"
    and nobud: "order < MAX_ORDER \<Longrightarrow> (bud (unat a) (order + 12), order + 12) \<notin> blocks b"
  shows "buddy_inv t (b\<lparr>bins := (bins b)[order := insert a (bins b ! order)]\<rparr>)"
    and "free_memory (b\<lparr>bins := (bins b)[order := insert a (bins b ! order)]\<rparr>) = free_memory b \<union> block_of a order"
proof -
  have len: "order < length (bins b)" using inv ord by (simp add: buddy_inv_def buddy_consts)
  have "wf_blocks 12 (MAX_ORDER + 12) (insert (unat a, order + 12) (blocks b))"
    using inv al fresh nobud ord by (intro wf_blocks_insert) (auto simp: buddy_inv_def free_memory_def)
  moreover have "\<forall>bin \<in> set ((bins b)[order := insert a (bins b ! order)]). \<forall>a \<in> bin. paddr_valid t a"
    using inv val len by (intro valid_bins_update) (auto simp: buddy_inv_def)
  ultimately show "buddy_inv t (b\<lparr>bins := (bins b)[order := insert a (bins b ! order)]\<rparr>)"
    using inv by (simp add: buddy_inv_def blocks_insert [OF len])
  show "free_memory (b\<lparr>bins := (bins b)[order := insert a (bins b ! order)]\<rparr>) = free_memory b \<union> block_of a order"
    by (auto simp: free_memory_def blocks_insert [OF len])
qed

lemma buddy_inv_remove:
  assumes inv: "buddy_inv t b" and len: "order < length (bins b)" and mem: "a \<in> bins b ! order"
  shows "buddy_inv t (b\<lparr>bins := (bins b)[order := bins b ! order - {a}]\<rparr>)"
    and "free_memory (b\<lparr>bins := (bins b)[order := bins b ! order - {a}]\<rparr>) = free_memory b - block_of a order"
proof -
  have "\<forall>bin \<in> set ((bins b)[order := bins b ! order - {a}]). \<forall>a \<in> bin. paddr_valid t a"
    using inv len by (intro valid_bins_update) (auto simp: buddy_inv_def)
  then show "buddy_inv t (b\<lparr>bins := (bins b)[order := bins b ! order - {a}]\<rparr>)"
    using inv by (auto simp: buddy_inv_def blocks_remove [OF len] intro: wf_blocks_remove)
  show "free_memory (b\<lparr>bins := (bins b)[order := bins b ! order - {a}]\<rparr>) = free_memory b - block_of a order"
    using block_memory_remove [of 12 "MAX_ORDER + 12" "blocks b" "unat a" "order + 12"] inv mem
    by (simp add: free_memory_def blocks_remove [OF len] buddy_inv_def in_blocks_word [OF len])
qed

lemma buddy_inv_mem:
  assumes "buddy_inv t b" and "order < length (bins b)" and "a \<in> bins b ! order"
  shows "block_aligned a order" and "block_of a order \<subseteq> free_memory b" and "paddr_valid t a"
    and "order \<le> MAX_ORDER"
proof -
  have m: "(unat a, order + 12) \<in> blocks b" using assms by (simp add: in_blocks_word)
  show "block_aligned a order" using assms(1) m by (auto simp: buddy_inv_def dest: wf_blocksD)
  show "block_of a order \<subseteq> free_memory b" using m by (auto simp: free_memory_def intro: block_memoryI)
  show "paddr_valid t a" using assms by (auto simp: buddy_inv_def)
  show "order \<le> MAX_ORDER" using assms by (simp add: buddy_inv_def buddy_consts)
qed

lemma free_block_ok:
  assumes "buddy_inv t b" and "order \<le> MAX_ORDER" and "block_aligned start order"
    and "paddr_valid t start" and "block_of start order \<inter> free_memory b = {}"
  shows "\<exists>b'. free_block t b start order = Inr b' \<and> buddy_inv t b' \<and>
           free_memory b' = free_memory b \<union> block_of start order"
  using assms
proof (induction t b start order rule: free_block.induct)
  case (1 t b start order)
  note inv = "1.prems"(1) and ord = "1.prems"(2) and al = "1.prems"(3) and val = "1.prems"(4)
    and fresh = "1.prems"(5)
  have len: "order < length (bins b)" using inv ord by (simp add: buddy_inv_def buddy_consts)
  have notin: "start \<notin> bins b ! order"
    using buddy_inv_mem(2) [OF inv len] fresh start_in_blk [of "unat start" "order + 12"] by blast
  let ?ins = "b\<lparr>bins := (bins b)[order := insert start (bins b ! order)]\<rparr>"
  show ?case
  proof (cases "order = MAX_ORDER")
    case True
    then show ?thesis
      using buddy_inv_insert [OF inv ord al val fresh] len notin by (simp add: free_block.simps [of t b])
  next
    case False
    obtain c where c: "buddy_of t start order = Inr c" "unat c = bud (unat start) (order + 12)" "paddr_valid t c"
      using buddy_of_eq [of order t start] val ord by (auto simp: buddy_consts)
    show ?thesis
    proof (cases "c \<in> bins b ! order")
      case True
      let ?rem = "b\<lparr>bins := (bins b)[order := bins b ! order - {c}]\<rparr>"
      note rem = buddy_inv_remove [OF inv len True]
      have m: "unat (min start c) = min (unat start) (bud (unat start) (order + 12))"
        using c(2) by (simp add: min_def word_le_nat_alt)
      have par: "block_of (min start c) (order + 1) = block_of start order \<union> block_of c order"
        using blk_parent [OF al] c(2) m by simp
      have "\<exists>b'. free_block t ?rem (min start c) (order + 1) = Inr b' \<and> buddy_inv t b' \<and>
           free_memory b' = free_memory ?rem \<union> block_of (min start c) (order + 1)"
      proof (rule "1.IH" [OF False c(1)])
        show "rindex (bins b) order = Inr (bins b ! order)" using len by simp
        show "c \<in> bins b ! order" by (fact True)
        show "buddy_inv t ?rem" by (rule rem(1))
        show "order + 1 \<le> MAX_ORDER" using ord False by simp
        show "block_aligned (min start c) (order + 1)" using aligned_parent [OF al] m by simp
        show "paddr_valid t (min start c)" using val c(3) by (simp add: min_def)
        show "block_of (min start c) (order + 1) \<inter> free_memory ?rem = {}"
          using fresh unfolding par rem(2) by blast
      qed
      moreover have "free_memory ?rem \<union> block_of (min start c) (order + 1) = free_memory b \<union> block_of start order"
        using buddy_inv_mem(2) [OF inv len True] unfolding par rem(2) by blast
      ultimately show ?thesis
        using False c(1) True len by (simp add: free_block.simps [of t b])
    next
      case nb: False
      have "(bud (unat start) (order + 12), order + 12) \<notin> blocks b"
        using nb in_blocks_word [OF len, of c] c(2) by simp
      then show ?thesis
        using buddy_inv_insert [OF inv ord al val fresh] False c(1) nb len notin
        by (simp add: free_block.simps [of t b])
    qed
  qed
qed

subsection \<open>Allocating a block\<close>

lemma allocate_block_ok:
  assumes "buddy_inv t b"
  shows "\<exists>r b'. allocate_block t b order = Inr (r, b') \<and> buddy_inv t b' \<and>
     (case r of
        None \<Rightarrow> b' = b
      | Some a \<Rightarrow> order \<le> MAX_ORDER \<and> block_aligned a order \<and> paddr_valid t a \<and>
          block_of a order \<subseteq> free_memory b \<and> free_memory b' = free_memory b - block_of a order)"
  using assms
proof (induction t b order rule: allocate_block.induct)
  case (1 t b order)
  note inv = "1.prems"
  show ?case
  proof (cases "order > MAX_ORDER")
    case True
    then show ?thesis using inv by (simp add: allocate_block.simps)
  next
    case ord: False
    have len: "order < length (bins b)" using inv ord by (simp add: buddy_inv_def buddy_consts)
    show ?thesis
    proof (cases "bins b ! order = {}")
      case False
      then have m: "Min (bins b ! order) \<in> bins b ! order" by simp
      show ?thesis
        using buddy_inv_mem [OF inv len m] buddy_inv_remove [OF inv len m] False ord len
        by (simp add: allocate_block.simps)
    next
      case True
      obtain r b' where rec: "allocate_block t b (order + 1) = Inr (r, b')" "buddy_inv t b'"
        and res: "case r of None \<Rightarrow> b' = b
           | Some a \<Rightarrow> order + 1 \<le> MAX_ORDER \<and> block_aligned a (order + 1) \<and> paddr_valid t a \<and>
               block_of a (order + 1) \<subseteq> free_memory b \<and> free_memory b' = free_memory b - block_of a (order + 1)"
        using "1.IH" [OF ord, of "bins b ! order"] inv True len by auto
      show ?thesis
      proof (cases r)
        case None
        then show ?thesis using rec res True ord len by (simp add: allocate_block.simps [of t b order])
      next
        case (Some a)
        have a: "order + 1 \<le> MAX_ORDER" "aligned (unat a) (Suc (order + 12))" "paddr_valid t a"
            "block_of a (order + 1) \<subseteq> free_memory b" "free_memory b' = free_memory b - block_of a (order + 1)"
          using res Some by simp_all
        have al: "block_aligned a order" using a(2) by (rule aligned_mono) simp
        obtain c where c: "buddy_of t a order = Inr c" "unat c = bud (unat a) (order + 12)" "paddr_valid t c"
          using buddy_of_eq [of order t a] a(1,3) by (auto simp: buddy_consts)
        have split: "block_of a (order + 1) = block_of a order \<union> block_of c order"
          "block_of a order \<inter> block_of c order = {}"
          using blk_bud_disjoint [OF al] bud_parent [OF a(2)] c(2) blk_halves [of "unat a" "order + 12"]
          by simp_all
        obtain b'' where b'': "free_block t b' c order = Inr b''" "buddy_inv t b''"
          "free_memory b'' = free_memory b' \<union> block_of c order"
          using free_block_ok [OF rec(2), of order c] a c aligned_bud [OF al] split by auto
        have "free_memory b'' = free_memory b - block_of a order"
          using a(4) split unfolding b''(3) a(5) by blast
        then show ?thesis
          using rec(1) Some True ord len c(1) b'' al a split by (simp add: allocate_block.simps [of t b order])
      qed
    qed
  qed
qed

lemma allocate_block_None_bins:
  assumes "allocate_block t b order = Inr (None, b')" and "order \<le> k" and "k \<le> MAX_ORDER"
  shows "bins b ! k = {}"
  using assms
proof (induction t b order arbitrary: b' rule: allocate_block.induct)
  case (1 t b order)
  have ord: "\<not> MAX_ORDER < order" using "1.prems" by simp
  obtain bin where bin: "rindex (bins b) order = Inr bin" "bin = {}"
    and rec: "allocate_block t b (order + 1) = Inr (None, b')"
    using "1.prems"(1) ord
    by (auto simp: allocate_block.simps [of t b order] rbind_eq_Inr split: if_splits option.splits prod.splits)
  show ?case
  proof (cases "k = order")
    case True
    then show ?thesis using bin by (simp add: rindex_eq_Inr)
  next
    case False
    then show ?thesis using "1.IH" [OF ord bin(1) _ rec] "1.prems" bin by auto
  qed
qed

subsection \<open>The bins are determined by the free memory\<close>

lemma bins_eq_blocks: "order < length (bins b) \<Longrightarrow> bins b ! order = {a. (unat a, order + 12) \<in> blocks b}"
  by (simp add: in_blocks_word)

lemma buddy_canonical:
  assumes "buddy_inv t b" and "buddy_inv t b'" and "free_memory b = free_memory b'"
  shows "b = b'"
proof -
  have "blocks b = blocks b'"
    using assms wf_blocks_unique [of 12 "MAX_ORDER + 12" "blocks b" "blocks b'"]
    by (simp add: buddy_inv_def free_memory_def)
  then have "bins b = bins b'"
    using assms by (intro nth_equalityI) (simp_all add: buddy_inv_def bins_eq_blocks)
  then show ?thesis by simp
qed

interpretation buddy: block_allocator "buddy_inv t" free_memory
    "\<lambda>a order. order \<le> MAX_ORDER \<and> block_aligned a order \<and> paddr_valid t a" block_of
    "allocate_block t" "free_block t" for t
proof
  fix s n assume "buddy_inv t s"
  from allocate_block_ok [OF this, of n]
  show "\<exists>r s'. allocate_block t s n = Inr (r, s') \<and> buddy_inv t s' \<and>
       (case r of None \<Rightarrow> s' = s
        | Some a \<Rightarrow> (n \<le> MAX_ORDER \<and> block_aligned a n \<and> paddr_valid t a) \<and>
            block_of a n \<subseteq> free_memory s \<and> free_memory s' = free_memory s - block_of a n)"
    by (elim exE conjE) (auto split: option.splits)
next
  show "\<exists>s'. free_block t s a n = Inr s' \<and> buddy_inv t s' \<and> free_memory s' = free_memory s \<union> block_of a n"
    if "buddy_inv t s" "n \<le> MAX_ORDER \<and> block_aligned a n \<and> paddr_valid t a" "block_of a n \<inter> free_memory s = {}"
    for s a n
    using that free_block_ok [of t s n a] by simp
next
  show "s = s'" if "buddy_inv t s" "buddy_inv t s'" "free_memory s = free_memory s'" for s s'
    using that by (rule buddy_canonical)
qed

lemma allocate_block_None_iff:
  assumes inv: "buddy_inv t b" and ord: "order \<le> MAX_ORDER"
  shows "allocate_block t b order = Inr (None, b) \<longleftrightarrow>
     \<not> (\<exists>a. block_aligned a order \<and> block_of a order \<subseteq> free_memory b)"
proof
  assume none: "allocate_block t b order = Inr (None, b)"
  have False if al: "block_aligned a order" and sub: "block_of a order \<subseteq> free_memory b" for a
  proof -
    obtain m j where mj: "(m, j) \<in> blocks b" "order + 12 \<le> j"
      using wf_blocks_cover [of 12 "MAX_ORDER + 12" "blocks b" "order + 12" "unat a"] inv al sub ord
      by (auto simp: buddy_inv_def free_memory_def)
    then obtain c k where "k < length (bins b)" "c \<in> bins b ! k" "order \<le> k" by (auto simp: in_blocks)
    then show False
      using allocate_block_None_bins [OF none, of k] inv by (simp add: buddy_inv_def buddy_consts)
  qed
  then show "\<not> (\<exists>a. block_aligned a order \<and> block_of a order \<subseteq> free_memory b)" by blast
next
  assume "\<not> (\<exists>a. block_aligned a order \<and> block_of a order \<subseteq> free_memory b)"
  then show "allocate_block t b order = Inr (None, b)"
    using allocate_block_ok [OF inv, of order] by (fastforce split: option.splits)
qed

subsection \<open>Freeing a range of frames\<close>

lemma blk_frame: "blk n 12 = {n..<n + 4096}"
  by (simp add: blk_def)

lemma free_range_ok:
  assumes inv: "buddy_inv t b" and al: "aligned (unat start) 12"
    and e: "unat end' = unat start + n * 4096" and val: "paddr_valid t end'"
    and fresh: "{unat start ..< unat end'} \<inter> free_memory b = {}"
  shows "\<exists>b'. free_range t b start end' = Inr b' \<and> buddy_inv t b' \<and>
           free_memory b' = free_memory b \<union> {unat start ..< unat end'}"
proof -
  let ?f = "\<lambda>i. start + of_nat i * SIZE Size4KiB" and ?step = "\<lambda>b frame. free_block t b frame 0"
  have u: "unat (?f i) = unat start + i * 4096" if "i \<le> n" for i
  proof -
    have "i * 4096 \<le> n * 4096" using that by simp
    then have "unat start + i * 4096 < 2 ^ 64"
      using e unsigned_less [of end', where 'a = nat] by simp
    moreover from this have "unat (of_nat i * 4096 :: usize) = i * 4096"
      by (simp add: unat_word_ariths unat_of_nat)
    ultimately show ?thesis by (subst unat_add_no_overflow) simp_all
  qed
  define I where "I = (\<lambda>(xs :: paddr list) b'. buddy_inv t b' \<and>
      free_memory b' = free_memory b \<union> {unat start ..< unat start + length xs * 4096})"
  have "\<exists>b'. rfold ?step b (map ?f [0..<n]) = Inr b' \<and> I (map ?f [0..<n]) b'"
  proof (rule rfold_invariant)
    show "I [] b" using inv by (simp add: I_def)
  next
    fix xs x b'
    assume "\<exists>zs. map ?f [0..<n] = xs @ x # zs" and I: "I xs b'"
    then have i: "length xs < n" and x: "x = ?f (length xs)"
      by (auto simp: list_eq_iff_nth_eq nth_append dest!: spec [of _ "length xs"])
    have "paddr_valid t x" using val paddr_valid_le [of t end' x] u [of "length xs"] i e x
      by (simp add: word_le_nat_alt)
    moreover have "aligned (unat x) 12" using al u [of "length xs"] i x by (simp add: aligned_def)
    moreover have "blk (unat x) 12 \<inter> free_memory b' = {}"
    proof -
      have "(length xs + 1) * 4096 \<le> n * 4096" using i by (intro mult_le_mono1) simp
      then have "blk (unat x) 12 \<subseteq> {unat start ..< unat end'}"
        using u [of "length xs"] i x e by (auto simp: blk_frame)
      moreover have "blk (unat x) 12 \<inter> {unat start ..< unat start + length xs * 4096} = {}"
        using u [of "length xs"] i x by (auto simp: blk_frame)
      moreover have "free_memory b' = free_memory b \<union> {unat start ..< unat start + length xs * 4096}"
        using I by (simp add: I_def)
      ultimately show ?thesis using fresh by blast
    qed
    ultimately show "\<exists>b''. ?step b' x = Inr b'' \<and> I (xs @ [x]) b''"
      using free_block_ok [of t b' 0 x] I u [of "length xs"] i x
      by (auto simp: I_def blk_frame buddy_consts)
  qed
  moreover have "for_frames t Size4KiB ?step start end' b = rfold ?step b (map ?f [0..<n])"
    using e val by (intro for_frames_eq) simp_all
  ultimately show ?thesis using e by (auto simp: free_range_def I_def)
qed

subsection \<open>Accounting\<close>

lemma card_block_memory:
  assumes "finite F" and "wf_blocks lo hi F"
  shows "card (block_memory F) = (\<Sum>(n, k) \<in> F. 2 ^ k)"
proof -
  have "card (\<Union>p \<in> F. blk (fst p) (snd p)) = (\<Sum>p \<in> F. card (blk (fst p) (snd p)))"
  proof (intro card_UN_disjoint ballI impI)
    fix p q assume "p \<in> F" "q \<in> F" "p \<noteq> q"
    then show "blk (fst p) (snd p) \<inter> blk (fst q) (snd q) = {}"
      using wf_blocks_same [OF assms(2), of "fst p" "snd p" "fst q" "snd q"] by (auto simp: prod_eq_iff)
  qed (use assms in simp_all)
  then show ?thesis by (simp add: block_memory_def split_beta)
qed

lemma blocks_sum:
  "finite (blocks b) \<and> (\<Sum>(n, k) \<in> blocks b. 2 ^ k) = (\<Sum>i < length (bins b). card (bins b ! i) * 2 ^ (i + 12 :: nat) :: nat)"
proof -
  have eq: "blocks b = (\<lambda>(i, a). (unat a, i + 12)) ` (SIGMA i : {..<length (bins b)}. bins b ! i)"
    by (force simp: blocks_def)
  have inj: "inj_on (\<lambda>(i :: nat, a :: paddr). (unat a, i + 12)) X" for X
    by (auto simp: inj_on_def dest: word_unat_eq_iff [THEN iffD2])
  have "(\<Sum>(n, k) \<in> blocks b. (2::nat) ^ k) = (\<Sum>(i, a) \<in> (SIGMA i : {..<length (bins b)}. bins b ! i). 2 ^ (i + 12))"
    unfolding eq by (subst sum.reindex [OF inj]) (simp add: split_beta)
  also have "\<dots> = (\<Sum>i < length (bins b). card (bins b ! i) * 2 ^ (i + 12))"
    by (subst sum.Sigma [symmetric]) simp_all
  finally show ?thesis unfolding eq by simp
qed

lemma available_bytes_loop_eq:
  assumes "i + length bs \<le> 40" and "unat acc + (\<Sum>j < length bs. card (bs ! j) * 2 ^ (i + j + 12)) < 2 ^ 64"
  shows "\<exists>n. available_bytes_loop bs i acc = Inr n \<and>
           unat n = unat acc + (\<Sum>j < length bs. card (bs ! j) * 2 ^ (i + j + 12))"
  using assms
proof (induction bs arbitrary: i acc)
  case Nil
  then show ?case by simp
next
  case (Cons bin bs)
  let ?rest = "\<Sum>j < length bs. card (bs ! j) * 2 ^ (Suc i + j + 12)"
  have s: "(\<Sum>j < length (bin # bs). card ((bin # bs) ! j) * 2 ^ (i + j + 12)) = card bin * 2 ^ (i + 12) + ?rest"
    by (simp add: sum.lessThan_Suc_shift del: sum.lessThan_Suc)
  have bound: "unat acc + card bin * 2 ^ (i + 12) + ?rest < 2 ^ 64" using Cons.prems(2) unfolding s by simp
  note w = block_size_word [of i]
  have c: "card bin * 2 ^ (i + 12) < 2 ^ 64" using bound by simp
  then have "card bin < 2 ^ 64" by (rule order.strict_trans1 [rotated]) simp
  then have uc: "unat (of_nat (card bin) :: usize) = card bin" by (simp add: unat_of_nat)
  have m: "umul (of_nat (card bin)) (2 ^ (i + 12)) = Inr (of_nat (card bin) * 2 ^ (i + 12) :: usize)"
    "unat (of_nat (card bin) * 2 ^ (i + 12) :: usize) = card bin * 2 ^ (i + 12)"
    using c uc w(3) Cons.prems(1) by (simp_all add: umul_eq_Inr unat_mul_no_overflow)
  let ?acc = "acc + of_nat (card bin) * 2 ^ (i + 12)"
  have a: "uadd acc (of_nat (card bin) * 2 ^ (i + 12)) = Inr ?acc" "unat ?acc = unat acc + card bin * 2 ^ (i + 12)"
    using bound m(2) by (simp_all add: uadd_eq_Inr unat_add_no_overflow)
  obtain n where "available_bytes_loop bs (Suc i) ?acc = Inr n" "unat n = unat ?acc + ?rest"
    using Cons.IH [of "Suc i" ?acc] Cons.prems(1) bound a(2) by auto
  then show ?case unfolding s using w Cons.prems(1) m(1) a by simp
qed

lemma available_bytes_eq:
  assumes "buddy_inv t b" and "card (free_memory b) < 2 ^ 64"
  shows "\<exists>n. available_bytes b = Inr n \<and> unat n = card (free_memory b)"
proof -
  have "card (free_memory b) = (\<Sum>i < length (bins b). card (bins b ! i) * 2 ^ (i + 12))"
    using assms(1) blocks_sum [of b] card_block_memory [of "blocks b" 12 "MAX_ORDER + 12"]
    by (simp add: free_memory_def buddy_inv_def)
  then show ?thesis
    using available_bytes_loop_eq [of 0 "bins b" 0] assms by (simp add: available_bytes_def buddy_inv_def buddy_consts)
qed

subsection \<open>Properties\<close>

text \<open>An allocator with a single free block of the largest order, at address 0.\<close>

abbreviation one_block :: buddy_allocator where
  "one_block \<equiv> \<lparr>bins = replicate 12 {} @ [{0}]\<rparr>"

lemma one_block_inv: "buddy_inv t one_block" and one_block_free: "free_memory one_block = {0 ..< 2 ^ 24}"
proof -
  have b: "one_block = buddy_new\<lparr>bins := (bins buddy_new)[12 := insert 0 (bins buddy_new ! 12)]\<rparr>"
    by (simp add: buddy_new_def buddy_consts eval_nat_numeral)
  note ins = buddy_inv_insert [OF buddy_new_inv, of 12 0 t]
  show "buddy_inv t one_block" unfolding b
    by (rule ins(1)) (simp_all add: buddy_consts aligned_def buddy_new_free paddr_valid_iff)
  show "free_memory one_block = {0 ..< 2 ^ 24}" unfolding b
    by (subst ins(2)) (simp_all add: buddy_consts aligned_def buddy_new_free paddr_valid_iff blk_def)
qed

text \<open>C1: freeing an aligned block that is not free yet never panics, keeps the invariant
  (aligned, disjoint, fully coalesced blocks) and adds exactly this block to the free memory.\<close>

theorem free_block_correct:
  assumes "buddy_inv t b" and "order \<le> MAX_ORDER" and "block_aligned start order"
    and "paddr_valid t start" and "block_of start order \<inter> free_memory b = {}"
  shows "\<exists>b'. free_block t b start order = Inr b' \<and> buddy_inv t b' \<and>
           free_memory b' = free_memory b \<union> block_of start order"
  using assms by (rule free_block_ok)

theorem free_block_correct_witness:
  "\<exists>b'. free_block X86_64 one_block 0x1000000 3 = Inr b' \<and> buddy_inv X86_64 b' \<and>
     free_memory b' = {0 ..< 2 ^ 24} \<union> {2 ^ 24 ..< 2 ^ 24 + 2 ^ 15}"
  using free_block_correct [OF one_block_inv, of 3 "0x1000000" X86_64]
  by (simp add: one_block_free buddy_consts aligned_def paddr_valid_iff blk_def)

text \<open>C2: allocating a block of any order never panics and keeps the invariant.  A returned block is
  aligned to its size, was free, and exactly it leaves the free memory; a failed allocation leaves
  the allocator as it was.\<close>

theorem allocate_block_correct:
  assumes "buddy_inv t b"
  shows "\<exists>r b'. allocate_block t b order = Inr (r, b') \<and> buddy_inv t b' \<and>
     (case r of
        None \<Rightarrow> b' = b
      | Some a \<Rightarrow> order \<le> MAX_ORDER \<and> block_aligned a order \<and> paddr_valid t a \<and>
          block_of a order \<subseteq> free_memory b \<and> free_memory b' = free_memory b - block_of a order)"
  using assms by (rule allocate_block_ok)

theorem allocate_block_correct_witness:
  "\<exists>r b'. allocate_block X86_64 one_block 9 = Inr (r, b') \<and> buddy_inv X86_64 b' \<and>
     (case r of
        None \<Rightarrow> b' = one_block
      | Some a \<Rightarrow> 9 \<le> MAX_ORDER \<and> block_aligned a 9 \<and> paddr_valid X86_64 a \<and>
          block_of a 9 \<subseteq> {0 ..< 2 ^ 24} \<and> free_memory b' = {0 ..< 2 ^ 24} - block_of a 9)"
  using allocate_block_correct [OF one_block_inv, of X86_64 9] unfolding one_block_free .

text \<open>C3: the allocator is complete: an allocation of a tracked order fails exactly when no aligned
  block of that size lies in the free memory, however the free memory is split over the bins.\<close>

theorem allocate_block_complete:
  assumes "buddy_inv t b" and "order \<le> MAX_ORDER"
  shows "allocate_block t b order = Inr (None, b) \<longleftrightarrow>
     \<not> (\<exists>a. block_aligned a order \<and> block_of a order \<subseteq> free_memory b)"
  using assms by (rule allocate_block_None_iff)

theorem allocate_block_complete_witness:
  "allocate_block X86_64 one_block 3 \<noteq> Inr (None, one_block)"
proof -
  have "block_aligned 0 3 \<and> block_of 0 3 \<subseteq> free_memory one_block"
    by (auto simp: one_block_free aligned_def blk_def)
  then have "\<exists>a. block_aligned a 3 \<and> block_of a 3 \<subseteq> free_memory one_block" by blast
  then show ?thesis
    using allocate_block_complete [OF one_block_inv, of 3 X86_64] by (simp add: buddy_consts)
qed

text \<open>C4: for every sequence of requests of a client that only gives back what it was given, no
  request panics, the areas the client holds are pairwise disjoint and disjoint from the free
  memory, together they are the memory there was at the start, and a client that holds nothing
  has restored the allocator exactly, bin for bin.\<close>

theorem buddy_session:
  assumes "buddy_inv t b"
  shows "\<exists>b' own. rfold (serve (allocate_block t) (free_block t)) (b, []) reqs = Inr (b', own) \<and>
     buddy_inv t b' \<and> owned_apart block_of own \<and>
     free_memory b' \<inter> owned_memory block_of own = {} \<and>
     free_memory b' \<union> owned_memory block_of own = free_memory b \<and> (own = [] \<longrightarrow> b' = b)"
  using assms by (rule buddy.session_ok)

theorem buddy_session_witness:
  "\<exists>b' own. rfold (serve (allocate_block X86_64) (free_block X86_64)) (one_block, [])
       [Acquire 3, Acquire 0, Release 1, Acquire 13, Release 0] = Inr (b', own) \<and>
     buddy_inv X86_64 b' \<and> owned_apart block_of own \<and>
     free_memory b' \<inter> owned_memory block_of own = {} \<and>
     free_memory b' \<union> owned_memory block_of own = {0 ..< 2 ^ 24} \<and> (own = [] \<longrightarrow> b' = one_block)"
  using buddy_session [OF one_block_inv, of X86_64 "[Acquire 3, Acquire 0, Release 1, Acquire 13, Release 0]"]
  unfolding one_block_free .

text \<open>C31: freeing a block that is in its bin already (a double free) panics, for every order the
  allocator tracks, and freeing a block of a larger order panics too.\<close>

theorem free_block_double_free:
  assumes "buddy_inv t b" and "paddr_valid t start"
    and "if order \<le> MAX_ORDER then start \<in> bins b ! order else order < 40"
  shows "free_block t b start order = Inl (if order \<le> MAX_ORDER then AssertFailed else IndexOutOfBounds)"
proof -
  obtain c where c: "buddy_of t start order = Inr c" "unat c = bud (unat start) (order + 12)"
    using buddy_of_eq [of order t start] assms(2,3) by (auto simp: buddy_consts split: if_splits)
  show ?thesis
  proof (cases "order \<le> MAX_ORDER")
    case True
    then have len: "order < length (bins b)" using assms(1) by (simp add: buddy_inv_def buddy_consts)
    have m: "(unat start, order + 12) \<in> blocks b" using assms(3) True len by (simp add: in_blocks_word)
    have "c \<notin> bins b ! order" if "order < MAX_ORDER"
      using wf_blocks_buddy [OF _ m, of 12 "MAX_ORDER + 12"] in_blocks_word [OF len, of c] assms(1) that c(2)
      by (simp add: buddy_inv_def)
    then show ?thesis
      using True assms(3) c(1) len by (auto simp: free_block.simps [of t b])
  next
    case False
    then show ?thesis
      using c(1) assms(1) by (simp add: free_block.simps [of t b] buddy_inv_def buddy_consts rindex_def)
  qed
qed

theorem free_block_double_free_witness:
  "free_block X86_64 one_block 0 12 = Inl AssertFailed"
  using free_block_double_free [OF one_block_inv, of X86_64 0 12]
  by (simp add: buddy_consts paddr_valid_iff nth_append)

end
