(* ===== verification/Kernel_Bootinfo.thy ===== *)
theory Kernel_Bootinfo
  imports Allocator_Spec
begin

text \<open>
  \<open>seed/seed_bootinfo/src/lib.rs\<close> and \<open>kernel/src/bootinfo.rs\<close>: what the boot loader tells
  the kernel about the machine, and the allocator that carves frames off the memory map before
  the physical memory manager exists.  The header and the tables behind its offsets are one
  record here: reading them through the offsets is a cast of raw pointers in the code.
\<close>

subsection \<open>The boot information\<close>

definition MAGIC :: u32 where
  "MAGIC = 0xf0cacc1a"

datatype memory_type =
  Usable | Reserved | AcpiReclaimable | AcpiNvs | UefiRuntimeServices | DeviceTree | Kernel
  | LoadedImageMemory | Framebuffer | Scratch

record memory_entry =
  mem_base :: u64
  mem_length :: u64
  mem_typ :: memory_type

record boot_info =
  magic :: u32
  higher_half_base_raw :: u64
  physical_mapping_base_raw :: u64
  kernel_dynamic_area_base_raw :: u64
  kernel_image_base_raw :: u64
  kernel_free_start_raw :: u64
  rsdp_address :: u64
  device_tree_address :: u64
  memory_map :: "memory_entry list"

definition boot_info_new :: "boot_info \<Rightarrow> panic + boot_info" where
  "boot_info_new raw = (if magic raw \<noteq> MAGIC then Inl ExplicitPanic else Inr raw)"

definition higher_half_base :: "target \<Rightarrow> boot_info \<Rightarrow> vaddr" where
  "higher_half_base t info = vaddr_new t (higher_half_base_raw info)"

definition physical_mapping_base :: "target \<Rightarrow> boot_info \<Rightarrow> vaddr" where
  "physical_mapping_base t info = vaddr_new t (physical_mapping_base_raw info)"

definition kernel_dynamic_area_base :: "target \<Rightarrow> boot_info \<Rightarrow> vaddr" where
  "kernel_dynamic_area_base t info = vaddr_new t (kernel_dynamic_area_base_raw info)"

definition kernel_image_base :: "target \<Rightarrow> boot_info \<Rightarrow> vaddr" where
  "kernel_image_base t info = vaddr_new t (kernel_image_base_raw info)"

definition kernel_free_start :: "target \<Rightarrow> boot_info \<Rightarrow> vaddr" where
  "kernel_free_start t info = vaddr_new t (kernel_free_start_raw info)"

definition rsdp_addr :: "boot_info \<Rightarrow> u64 option" where
  "rsdp_addr info = (if rsdp_address info = 0 then None else Some (rsdp_address info))"

definition device_tree_addr :: "boot_info \<Rightarrow> u64 option" where
  "device_tree_addr info = (if device_tree_address info = 0 then None else Some (device_tree_address info))"

subsection \<open>The early frame allocator\<close>

text \<open>The loop over the entries from index \<open>i\<close>: the first usable entry that is large enough
  loses \<open>n\<close> frames at its end.\<close>

function early_allocate_loop ::
  "target \<Rightarrow> memory_entry list \<Rightarrow> usize \<Rightarrow> nat \<Rightarrow> panic + ((paddr \<times> paddr) \<times> memory_entry list)" where
  "early_allocate_loop t mm n i =
     (if i < length mm then
        (if mem_typ (mm ! i) = Usable then
           rbind (umul n (SIZE Size4KiB)) (\<lambda>size.
             if mem_length (mm ! i) \<ge> size then
               rbind (uadd (mem_base (mm ! i)) (mem_length (mm ! i))) (\<lambda>top.
               rbind (usub top size) (\<lambda>a.
               rbind (runwrap (paddr_new t a)) (\<lambda>b.
               rbind (usub (mem_length (mm ! i)) size) (\<lambda>rest.
               rbind (frame_starts_with Size4KiB b) (\<lambda>start.
               rbind (frame_add t Size4KiB start n) (\<lambda>end'.
                 Inr ((start, end'), mm[i := (mm ! i)\<lparr>mem_length := rest\<rparr>])))))))
             else early_allocate_loop t mm n (i + 1))
         else early_allocate_loop t mm n (i + 1))
      else Inl ExplicitPanic)"
  by pat_completeness auto
termination
  by (relation "measure (\<lambda>(t, mm, n, i). length mm - i)") auto

declare early_allocate_loop.simps [simp del]

definition early_allocate_n ::
  "target \<Rightarrow> memory_entry list \<Rightarrow> usize \<Rightarrow> panic + ((paddr \<times> paddr) \<times> memory_entry list)" where
  "early_allocate_n t mm n = early_allocate_loop t mm n 0"

definition early_free_n :: "memory_entry list \<Rightarrow> paddr \<Rightarrow> usize \<Rightarrow> memory_entry list" where
  "early_free_n mm start n = mm"

text \<open>\<open>FrameAllocator::allocate\<close>, the default method of the trait, on this allocator.\<close>

definition early_allocate :: "target \<Rightarrow> memory_entry list \<Rightarrow> panic + (paddr \<times> memory_entry list)" where
  "early_allocate t mm = rbind (early_allocate_n t mm 1) (\<lambda>((start, end'), mm'). Inr (start, mm'))"

subsection \<open>Usable memory\<close>

definition entry_memory :: "memory_entry \<Rightarrow> nat set" where
  "entry_memory e = (if mem_typ e = Usable then {unat (mem_base e) ..< unat (mem_base e) + unat (mem_length e)} else {})"

definition usable_memory :: "memory_entry list \<Rightarrow> nat set" where
  "usable_memory mm = (\<Union>e \<in> set mm. entry_memory e)"

definition entry_ok :: "target \<Rightarrow> memory_entry \<Rightarrow> bool" where
  "entry_ok t e \<longleftrightarrow> (mem_typ e = Usable \<longrightarrow>
     4096 dvd unat (mem_base e) \<and> 4096 dvd unat (mem_length e) \<and> unat (mem_base e) + unat (mem_length e) < 2 ^ 64 \<and>
     paddr_valid t (mem_base e + mem_length e))"

definition memory_map_ok :: "target \<Rightarrow> memory_entry list \<Rightarrow> bool" where
  "memory_map_ok t mm \<longleftrightarrow> (\<forall>e \<in> set mm. entry_ok t e) \<and>
     sorted_wrt (\<lambda>e e'. entry_memory e \<inter> entry_memory e' = {}) mm"

lemma usable_memory_simps [simp]:
  "usable_memory [] = {}" "usable_memory (e # mm) = entry_memory e \<union> usable_memory mm"
  "usable_memory (mm @ mm') = usable_memory mm \<union> usable_memory mm'"
  by (auto simp: usable_memory_def)

lemma memory_map_ok_simps [simp]:
  "memory_map_ok t []"
  "memory_map_ok t (e # mm) \<longleftrightarrow> entry_ok t e \<and> entry_memory e \<inter> usable_memory mm = {} \<and> memory_map_ok t mm"
  "memory_map_ok t (mm @ mm') \<longleftrightarrow>
     memory_map_ok t mm \<and> memory_map_ok t mm' \<and> usable_memory mm \<inter> usable_memory mm' = {}"
  by (fastforce simp: memory_map_ok_def usable_memory_def sorted_wrt_append)+

lemma entry_shrink:
  assumes ok: "entry_ok t e" and us: "mem_typ e = Usable" and le: "unat sz \<le> unat (mem_length e)" and dv: "4096 dvd unat sz"
  defines "e' \<equiv> e\<lparr>mem_length := mem_length e - sz\<rparr>" and "a \<equiv> mem_base e + mem_length e - sz"
  shows "entry_ok t e'" and "unat a = unat (mem_base e) + unat (mem_length e) - unat sz"
    and "entry_memory e' = entry_memory e - {unat a ..< unat a + unat sz}"
    and "{unat a ..< unat a + unat sz} \<subseteq> entry_memory e"
    and "paddr_valid t a" and "4096 dvd unat a"
proof -
  have top: "unat (mem_base e + mem_length e) = unat (mem_base e) + unat (mem_length e)"
    using ok us by (intro unat_add_no_overflow) (simp add: entry_ok_def)
  have l: "unat (mem_length e - sz) = unat (mem_length e) - unat sz" using le by (intro unat_sub_le) (simp add: word_le_nat_alt)
  show a: "unat a = unat (mem_base e) + unat (mem_length e) - unat sz"
    unfolding a_def using le top by (subst unat_sub_le) (simp_all add: word_le_nat_alt)
  show "entry_memory e' = entry_memory e - {unat a ..< unat a + unat sz}"
    using us le a by (auto simp: entry_memory_def e'_def l)
  show "{unat a ..< unat a + unat sz} \<subseteq> entry_memory e"
    using us le a by (auto simp: entry_memory_def)
  show v: "paddr_valid t a"
    using ok us top a by (auto simp: entry_ok_def intro: paddr_valid_le [of t "mem_base e + mem_length e" a])
  show "4096 dvd unat a" using ok us dv le a by (simp add: entry_ok_def dvd_diff_nat)
  have "mem_base e + (mem_length e - sz) = a" by (simp add: a_def)
  then show "entry_ok t e'"
    using ok us dv v le by (auto simp: entry_ok_def e'_def l dvd_diff_nat intro: less_imp_diff_less)
qed

lemma usable_update:
  assumes ok: "memory_map_ok t mm" and i: "i < length mm" and e': "entry_ok t e'"
    and mem: "entry_memory e' = entry_memory (mm ! i) - X" and X: "X \<subseteq> entry_memory (mm ! i)"
  shows "memory_map_ok t (mm[i := e'])" and "usable_memory (mm[i := e']) = usable_memory mm - X"
    and "X \<subseteq> usable_memory mm"
proof -
  define xs ys where "xs = take i mm" and "ys = drop (Suc i) mm"
  have mm: "mm = xs @ mm ! i # ys" unfolding xs_def ys_def by (rule id_take_nth_drop [OF i])
  have upd: "mm[i := e'] = xs @ e' # ys" unfolding xs_def ys_def by (rule upd_conv_take_nth_drop [OF i])
  have m: "memory_map_ok t (xs @ mm ! i # ys)" and u: "usable_memory mm = usable_memory (xs @ mm ! i # ys)"
    using ok mm by simp_all
  show "memory_map_ok t (mm[i := e'])" using m e' mem unfolding upd by auto
  show "usable_memory (mm[i := e']) = usable_memory mm - X"
    using m X unfolding upd u by (auto simp: mem)
  show "X \<subseteq> usable_memory mm" using X unfolding u by auto
qed

lemma frame_add_eq:
  assumes "unat f + unat n * unat (SIZE s) < 2 ^ 64" and "paddr_valid t (f + n * SIZE s)"
  shows "frame_add t s f n = Inr (f + n * SIZE s)"
    and "unat (f + n * SIZE s) = unat f + unat n * unat (SIZE s)"
proof -
  have m: "unat (n * SIZE s) = unat n * unat (SIZE s)" using assms(1) by (intro unat_mul_no_overflow) simp
  then show "unat (f + n * SIZE s) = unat f + unat n * unat (SIZE s)"
    using assms(1) by (subst unat_add_no_overflow) simp_all
  have "umul n (SIZE s) = Inr (n * SIZE s)" and "uadd f (n * SIZE s) = Inr (f + n * SIZE s)"
    using assms(1) m by (simp_all add: umul_eq_Inr uadd_eq_Inr)
  then show "frame_add t s f n = Inr (f + n * SIZE s)"
    using assms(2) by (simp add: frame_add_def paddr_add_def)
qed

text \<open>An entry that can give \<open>n\<close> frames, and what giving them at its end means.\<close>

definition fits_entry :: "usize \<Rightarrow> memory_entry \<Rightarrow> bool" where
  "fits_entry n e \<longleftrightarrow> mem_typ e = Usable \<and> unat n * 4096 \<le> unat (mem_length e)"

definition cut_end :: "target \<Rightarrow> memory_entry list \<Rightarrow> usize \<Rightarrow> nat \<Rightarrow> paddr \<Rightarrow> paddr \<Rightarrow> memory_entry list \<Rightarrow> bool" where
  "cut_end t mm n i f e mm' \<longleftrightarrow> fits_entry n (mm ! i) \<and> unat e = unat (mem_base (mm ! i)) + unat (mem_length (mm ! i)) \<and>
     unat e = unat f + unat n * 4096 \<and> mm' = mm[i := (mm ! i)\<lparr>mem_length := mem_length (mm ! i) - n * SIZE Size4KiB\<rparr>] \<and>
     paddr_valid t f \<and> 4096 dvd unat f \<and> memory_map_ok t mm' \<and>
     {unat f ..< unat e} \<subseteq> usable_memory mm \<and> usable_memory mm' = usable_memory mm - {unat f ..< unat e}"

lemma early_allocate_step:
  assumes ok: "memory_map_ok t mm" and i: "i < length mm" and fits: "fits_entry n (mm ! i)"
  shows "\<exists>f e mm'. early_allocate_loop t mm n i = Inr ((f, e), mm') \<and> cut_end t mm n i f e mm'"
proof -
  let ?e = "mm ! i" and ?size = "n * SIZE Size4KiB"
  let ?f = "mem_base ?e + mem_length ?e - ?size" and ?e' = "?e\<lparr>mem_length := mem_length ?e - ?size\<rparr>"
  have us: "mem_typ ?e = Usable" and n: "unat n * 4096 \<le> unat (mem_length ?e)" using fits by (simp_all add: fits_entry_def)
  have eok: "entry_ok t ?e" using ok i by (simp add: memory_map_ok_def)
  have lt: "unat n * 4096 < 2 ^ 64" using n unsigned_less [of "mem_length ?e", where 'a = nat] by simp
  then have size: "unat ?size = unat n * 4096" "umul n (SIZE Size4KiB) = Inr ?size"
    by (simp_all add: unat_mul_no_overflow umul_eq_Inr)
  have le: "unat ?size \<le> unat (mem_length ?e)" and dv: "4096 dvd unat ?size"
    using n unfolding size(1) by simp_all
  note sh = entry_shrink [OF eok us le dv]
  note up = usable_update [OF ok i sh(1,3,4)]
  have top: "uadd (mem_base ?e) (mem_length ?e) = Inr (mem_base ?e + mem_length ?e)"
    "unat (mem_base ?e + mem_length ?e) = unat (mem_base ?e) + unat (mem_length ?e)"
    using eok us by (simp_all add: uadd_eq_Inr entry_ok_def unat_add_no_overflow)
  have sub: "usub (mem_base ?e + mem_length ?e) ?size = Inr ?f" "usub (mem_length ?e) ?size = Inr (mem_length ?e - ?size)"
    using le top(2) by (simp_all add: usub_eq_Inr word_le_nat_alt)
  have "?f + ?size = mem_base ?e + mem_length ?e" by simp
  then have e: "paddr_valid t (?f + ?size)" "unat ?f + unat n * unat (SIZE Size4KiB) < 2 ^ 64"
    using eok us le sh(2) unfolding size(1) by (simp_all add: entry_ok_def)
  note fa = frame_add_eq [OF e(2,1)]
  have st: "frame_starts_with Size4KiB ?f = Inr ?f" using sh(6) by (simp add: frame_starts_with_eq)
  have "early_allocate_loop t mm n i = Inr ((?f, ?f + ?size), mm[i := ?e'])"
    using i us size(2) le top(1) sub sh(5) st fa(1)
    by (simp add: early_allocate_loop.simps [of t mm n i] word_le_nat_alt)
  moreover have "unat (?f + ?size) = unat ?f + unat n * 4096" using fa(2) by simp
  moreover have "unat (?f + ?size) = unat (mem_base ?e) + unat (mem_length ?e)" using top(2) by simp
  ultimately show ?thesis
    using up sh(5,6) size(1) fits
    by (intro exI [of _ ?f] exI [of _ "?f + ?size"] exI [of _ "mm[i := ?e']"]) (simp add: cut_end_def)
qed

lemma early_allocate_loop_ok:
  assumes "memory_map_ok t mm" and "unat n * 4096 < 2 ^ 64"
  shows "(\<exists>j f e mm'. i \<le> j \<and> j < length mm \<and> (\<forall>x \<in> {i ..< j}. \<not> fits_entry n (mm ! x)) \<and>
       early_allocate_loop t mm n i = Inr ((f, e), mm') \<and> cut_end t mm n j f e mm') \<or>
     (\<forall>x \<in> {i ..< length mm}. \<not> fits_entry n (mm ! x)) \<and> early_allocate_loop t mm n i = Inl ExplicitPanic"
  using assms
proof (induction t mm n i rule: early_allocate_loop.induct)
  case (1 t mm n i)
  show ?case
  proof (cases "i < length mm")
    case False
    then show ?thesis by (simp add: early_allocate_loop.simps)
  next
    case i: True
    have size: "umul n (SIZE Size4KiB) = Inr (n * SIZE Size4KiB)" "unat (n * SIZE Size4KiB) = unat n * 4096"
      using "1.prems"(2) by (simp_all add: unat_mul_no_overflow umul_eq_Inr)
    show ?thesis
    proof (cases "fits_entry n (mm ! i)")
      case True
      then show ?thesis using early_allocate_step [OF "1.prems"(1) i True] i by (intro disjI1 exI [of _ i]) simp
    next
      case False
      then have next': "early_allocate_loop t mm n i = early_allocate_loop t mm n (i + 1)"
        using i size by (auto simp: early_allocate_loop.simps [of t mm n i] word_le_nat_alt fits_entry_def)
      have skip: "(\<forall>x \<in> {i ..< j}. \<not> fits_entry n (mm ! x)) \<longleftrightarrow> (\<forall>x \<in> {i + 1 ..< j}. \<not> fits_entry n (mm ! x))" for j
        using False by (auto simp: Suc_le_eq le_less)
      have IH: "(\<exists>j f e mm'. i + 1 \<le> j \<and> j < length mm \<and> (\<forall>x \<in> {i + 1 ..< j}. \<not> fits_entry n (mm ! x)) \<and>
          early_allocate_loop t mm n (i + 1) = Inr ((f, e), mm') \<and> cut_end t mm n j f e mm') \<or>
        (\<forall>x \<in> {i + 1 ..< length mm}. \<not> fits_entry n (mm ! x)) \<and> early_allocate_loop t mm n (i + 1) = Inl ExplicitPanic"
        using "1.IH"(1) [OF i _ size(1)] "1.IH"(2) [OF i] "1.prems" False size(2)
        by (cases "mem_typ (mm ! i) = Usable") (auto simp: fits_entry_def word_le_nat_alt)
      then show ?thesis unfolding next' skip by (meson Suc_leD add_leD1)
    qed
  qed
qed

lemma early_allocate_n_cases:
  assumes "memory_map_ok t mm" and "unat n * 4096 < 2 ^ 64"
  obtains (taken) i f e mm' where "i < length mm" "\<forall>j < i. \<not> fits_entry n (mm ! j)"
      "early_allocate_n t mm n = Inr ((f, e), mm')" "cut_end t mm n i f e mm'"
  | (full) "\<forall>e \<in> set mm. \<not> fits_entry n e" "early_allocate_n t mm n = Inl ExplicitPanic"
  using early_allocate_loop_ok [OF assms, of 0] unfolding early_allocate_n_def
  by (auto simp: all_set_conv_all_nth)

interpretation early: frame_source "memory_map_ok t" usable_memory "early_allocate t" "paddr_valid t" for t
proof
  fix mm f mm' assume ok: "memory_map_ok t mm" and a: "early_allocate t mm = Inr (f, mm')"
  from ok show "memory_map_ok t mm' \<and> paddr_valid t f \<and> 4096 dvd unat f \<and> frame_memory f \<subseteq> usable_memory mm \<and>
      usable_memory mm' = usable_memory mm - frame_memory f"
    by (rule early_allocate_n_cases [where n = 1]) (use a in \<open>auto simp: early_allocate_def cut_end_def\<close>)
next
  fix mm assume ok: "memory_map_ok t mm"
  show "finite (usable_memory mm)" by (simp add: usable_memory_def entry_memory_def)
  assume "usable_memory mm \<noteq> {}"
  then obtain e where e: "e \<in> set mm" "mem_typ e = Usable" "0 < unat (mem_length e)"
    by (fastforce simp: usable_memory_def entry_memory_def split: if_splits)
  then have "4096 dvd unat (mem_length e)" using ok by (simp add: memory_map_ok_def entry_ok_def)
  then have fits: "fits_entry 1 e" using e(2,3) by (simp add: fits_entry_def dvd_imp_le)
  from ok show "\<exists>r. early_allocate t mm = Inr r"
    by (rule early_allocate_n_cases [where n = 1]) (use fits e(1) in \<open>auto simp: early_allocate_def\<close>)
qed

subsection \<open>Properties\<close>

text \<open>C25: the early allocator takes the \<open>n\<close> frames from the end of the first usable entry that is large enough, and panics
  exactly when there is none.  The frames are aligned; the entry is shortened by them and no other one
  changes, so that exactly they leave the usable memory of the map, which stays well formed.\<close>

theorem early_allocate_n_correct:
  assumes "memory_map_ok t mm" and "unat n * 4096 < 2 ^ 64"
  shows "if \<exists>e \<in> set mm. mem_typ e = Usable \<and> unat n * 4096 \<le> unat (mem_length e)
     then \<exists>i f e mm'. early_allocate_n t mm n = Inr ((f, e), mm') \<and>
       i < length mm \<and> mem_typ (mm ! i) = Usable \<and> unat n * 4096 \<le> unat (mem_length (mm ! i)) \<and>
       (\<forall>j < i. \<not> (mem_typ (mm ! j) = Usable \<and> unat n * 4096 \<le> unat (mem_length (mm ! j)))) \<and>
       unat e = unat (mem_base (mm ! i)) + unat (mem_length (mm ! i)) \<and> unat f = unat e - unat n * 4096 \<and>
       mm' = mm[i := (mm ! i)\<lparr>mem_length := mem_length (mm ! i) - n * 4096\<rparr>] \<and>
       paddr_valid t f \<and> 4096 dvd unat f \<and> memory_map_ok t mm' \<and>
       {unat f ..< unat e} \<subseteq> usable_memory mm \<and> usable_memory mm' = usable_memory mm - {unat f ..< unat e}
     else early_allocate_n t mm n = Inl ExplicitPanic"
  using assms
proof (cases rule: early_allocate_n_cases)
  case (taken i f e mm')
  then have "\<exists>e \<in> set mm. mem_typ e = Usable \<and> unat n * 4096 \<le> unat (mem_length e)"
    by (auto simp: cut_end_def fits_entry_def intro: bexI [of _ "mm ! i"])
  then show ?thesis
    using taken by (auto simp: cut_end_def fits_entry_def intro!: exI [of _ i] exI [of _ f] exI [of _ e])
next
  case full
  then show ?thesis by (auto simp: fits_entry_def)
qed

theorem early_allocate_n_correct_witness:
  "\<exists>f e mm'. early_allocate_n X86_64
       [\<lparr>mem_base = 0, mem_length = 0x1000, mem_typ = Reserved\<rparr>,
        \<lparr>mem_base = 0x1000, mem_length = 0x9000, mem_typ = Usable\<rparr>] 3 = Inr ((f, e), mm') \<and>
     unat f = 0x7000 \<and> unat e = 0xa000 \<and> memory_map_ok X86_64 mm' \<and>
     usable_memory mm' = {0x1000 ..< 0xa000} - {unat f ..< unat e}"
  using early_allocate_n_correct [of X86_64 "[\<lparr>mem_base = 0, mem_length = 0x1000, mem_typ = Reserved\<rparr>,
        \<lparr>mem_base = 0x1000, mem_length = 0x9000, mem_typ = Usable\<rparr>]" 3]
  by (auto simp: entry_ok_def entry_memory_def paddr_valid_iff less_Suc_eq)

end
