(* ===== verification/Kernel_Pmm.thy ===== *)
theory Kernel_Pmm
  imports Kernel_Buddy Kernel_Bootinfo
begin

text \<open>
  \<open>kernel/src/pmm/mod.rs\<close>: the physical memory manager, a buddy allocator behind a lock.
  It is built from the memory map of the boot loader and hands out contiguous frames of each
  of the frame sizes.
\<close>

subsection \<open>The physical memory manager\<close>

record pmm =
  buddy :: buddy_allocator

definition pmm_add_entry :: "target \<Rightarrow> buddy_allocator \<Rightarrow> memory_entry \<Rightarrow> panic + buddy_allocator" where
  "pmm_add_entry t b entry =
     (if mem_typ entry = Usable then
        rbind (runwrap (paddr_new t (mem_base entry))) (\<lambda>a.
        rbind (frame_starts_with Size4KiB a) (\<lambda>start.
        rbind (uadd (mem_base entry) (mem_length entry)) (\<lambda>top.
        rbind (runwrap (paddr_new t top)) (\<lambda>e.
        rbind (frame_starts_with Size4KiB e) (\<lambda>end'.
          free_range t b start end')))))
      else Inr b)"

definition pmm_new :: "target \<Rightarrow> memory_entry list \<Rightarrow> panic + pmm" where
  "pmm_new t mm =
     rbind (rfold (pmm_add_entry t) buddy_new mm) (\<lambda>buddy_allocator. Inr \<lparr>buddy = buddy_allocator\<rparr>)"

definition pmm_alloc :: "target \<Rightarrow> pmm \<Rightarrow> usize \<Rightarrow> panic + (paddr \<times> pmm)" where
  "pmm_alloc t p count =
     rbind (buddy_alloc t (buddy p) count) (\<lambda>(r, b').
     rbind (runwrap r) (\<lambda>a. Inr (a, p\<lparr>buddy := b'\<rparr>)))"

definition pmm_free :: "target \<Rightarrow> pmm \<Rightarrow> paddr \<Rightarrow> usize \<Rightarrow> panic + pmm" where
  "pmm_free t p a count = rbind (buddy_free t (buddy p) a count) (\<lambda>b'. Inr (p\<lparr>buddy := b'\<rparr>))"

definition pmm_allocate_n ::
  "target \<Rightarrow> frame_size \<Rightarrow> pmm \<Rightarrow> usize \<Rightarrow> panic + ((paddr \<times> paddr) \<times> pmm)" where
  "pmm_allocate_n t s p n =
     rbind (umul n (SIZE s)) (\<lambda>bytes.
     rbind (udiv bytes (SIZE Size4KiB)) (\<lambda>count.
     rbind (buddy_alloc t (buddy p) count) (\<lambda>(r, b').
     rbind (runwrap r) (\<lambda>start.
     rbind (frame_starts_with s start) (\<lambda>f.
     rbind (frame_add t s f n) (\<lambda>e. Inr ((f, e), p\<lparr>buddy := b'\<rparr>)))))))"

definition pmm_free_n :: "target \<Rightarrow> frame_size \<Rightarrow> pmm \<Rightarrow> paddr \<Rightarrow> usize \<Rightarrow> panic + pmm" where
  "pmm_free_n t s p start num_frames =
     rbind (umul num_frames (SIZE s)) (\<lambda>bytes.
     rbind (udiv bytes (SIZE Size4KiB)) (\<lambda>count.
     rbind (buddy_free t (buddy p) start count) (\<lambda>b'. Inr (p\<lparr>buddy := b'\<rparr>))))"

text \<open>\<open>FrameAllocator::allocate\<close>, the default method of the trait, on this allocator.\<close>

definition pmm_allocate :: "target \<Rightarrow> frame_size \<Rightarrow> pmm \<Rightarrow> panic + (paddr \<times> pmm)" where
  "pmm_allocate t s p = rbind (pmm_allocate_n t s p 1) (\<lambda>((start, end'), p'). Inr (start, p'))"

subsection \<open>Invariant\<close>

definition pmm_memory :: "pmm \<Rightarrow> nat set" where
  "pmm_memory p = free_memory (buddy p)"

text \<open>All free memory lies below an address that is itself valid, as it does after \<open>Pmm::new\<close>:
  the end of every range that is handed out is then a valid address.\<close>

definition pmm_inv :: "target \<Rightarrow> pmm \<Rightarrow> bool" where
  "pmm_inv t p \<longleftrightarrow> buddy_inv t (buddy p) \<and>
     (\<exists>lim. paddr_valid t lim \<and> pmm_memory p \<subseteq> {..< unat lim})"

lemma pmm_inv_shrink:
  "pmm_inv t p \<Longrightarrow> buddy_inv t b' \<Longrightarrow> free_memory b' \<subseteq> pmm_memory p \<Longrightarrow> pmm_inv t (p\<lparr>buddy := b'\<rparr>)"
  by (auto simp: pmm_inv_def pmm_memory_def)

subsection \<open>Building the manager from the memory map\<close>

lemma pmm_add_entry_ok:
  assumes inv: "buddy_inv t b" and ok: "entry_ok t e" and fresh: "entry_memory e \<inter> free_memory b = {}"
  shows "\<exists>b'. pmm_add_entry t b e = Inr b' \<and> buddy_inv t b' \<and> free_memory b' = free_memory b \<union> entry_memory e"
proof (cases "mem_typ e = Usable")
  case True
  let ?top = "mem_base e + mem_length e"
  have o: "4096 dvd unat (mem_base e)" "4096 dvd unat (mem_length e)" "paddr_valid t ?top"
    and lt: "unat (mem_base e) + unat (mem_length e) < 2 ^ 64"
    using ok True by (simp_all add: entry_ok_def)
  have top: "unat ?top = unat (mem_base e) + unat (mem_length e)" using lt by (intro unat_add_no_overflow) simp
  have "paddr_valid t (mem_base e)" using o(3) by (rule paddr_valid_le) (simp add: top)
  moreover obtain b' where b': "free_range t b (mem_base e) ?top = Inr b'" "buddy_inv t b'"
      "free_memory b' = free_memory b \<union> {unat (mem_base e) ..< unat ?top}"
    using free_range_ok [OF inv, of "mem_base e" ?top "unat (mem_length e) div 4096"] o fresh True
    by (auto simp: aligned_def top entry_memory_def)
  ultimately show ?thesis
    using True o lt by (simp add: pmm_add_entry_def frame_starts_with_eq uadd_def top entry_memory_def)
qed (use inv in \<open>simp add: pmm_add_entry_def entry_memory_def\<close>)

lemma memory_map_bound:
  assumes "memory_map_ok t mm"
  shows "\<exists>lim. paddr_valid t lim \<and> usable_memory mm \<subseteq> {..< unat lim}"
  using assms
proof (induction mm)
  case Nil
  then show ?case by (intro exI [of _ 0]) (simp add: paddr_valid_iff)
next
  case (Cons e mm)
  then obtain lim where lim: "paddr_valid t lim" "usable_memory mm \<subseteq> {..< unat lim}" by auto
  let ?top = "mem_base e + mem_length e"
  show ?case
  proof (cases "mem_typ e = Usable \<and> unat lim < unat ?top")
    case True
    then have "entry_memory e \<subseteq> {..< unat ?top}" "paddr_valid t ?top"
      using Cons.prems by (auto simp: entry_ok_def entry_memory_def unat_add_no_overflow)
    then show ?thesis using lim True by (intro exI [of _ ?top]) auto
  next
    case False
    then have "entry_memory e \<subseteq> {..< unat lim}"
      using Cons.prems by (auto simp: entry_ok_def entry_memory_def unat_add_no_overflow)
    then show ?thesis using lim by (intro exI [of _ lim]) auto
  qed
qed

lemma pmm_new_ok:
  assumes ok: "memory_map_ok t mm"
  shows "\<exists>p. pmm_new t mm = Inr p \<and> pmm_inv t p \<and> pmm_memory p = usable_memory mm"
proof -
  have "\<exists>b. rfold (pmm_add_entry t) buddy_new mm = Inr b \<and> buddy_inv t b \<and> free_memory b = usable_memory mm"
  proof (rule rfold_invariant [where I = "\<lambda>xs b. buddy_inv t b \<and> free_memory b = usable_memory xs"])
    show "buddy_inv t buddy_new \<and> free_memory buddy_new = usable_memory []"
      by (simp add: buddy_new_inv buddy_new_free)
  next
    fix xs e b
    assume "\<exists>zs. mm = xs @ e # zs" and b: "buddy_inv t b \<and> free_memory b = usable_memory xs"
    then have "entry_ok t e" "entry_memory e \<inter> free_memory b = {}" using ok by auto
    then show "\<exists>b'. pmm_add_entry t b e = Inr b' \<and> buddy_inv t b' \<and> free_memory b' = usable_memory (xs @ [e])"
      using pmm_add_entry_ok [of t b e] b by auto
  qed
  then show ?thesis
    using memory_map_bound [OF ok] by (auto simp: pmm_new_def pmm_inv_def pmm_memory_def)
qed

subsection \<open>Allocating and freeing frames\<close>

text \<open>The order that is allocated for \<open>c\<close> base blocks: the smallest whose blocks are large enough.\<close>

definition order_for :: "nat \<Rightarrow> nat \<Rightarrow> bool" where
  "order_for c k \<longleftrightarrow> c \<le> 2 ^ k \<and> (\<forall>j < k. 2 ^ j < c)"

definition size_order :: "frame_size \<Rightarrow> nat" where
  "size_order s = (case s of Size4KiB \<Rightarrow> 0 | Size2MiB \<Rightarrow> 9 | Size1GiB \<Rightarrow> 18)"

lemma unat_SIZE: "unat (SIZE s) = 2 ^ size_order s * 4096"
  by (cases s) (simp_all add: size_order_def)

lemma order_for_unique: "order_for c k \<Longrightarrow> order_for c k' \<Longrightarrow> k = k'"
  by (metis order_for_def linorder_neqE_nat not_less)

lemma order_for_Suc: "c \<le> 2 ^ Suc k \<Longrightarrow> 2 ^ k < c \<Longrightarrow> order_for c (Suc k)"
  unfolding order_for_def by (meson less_Suc_eq_le order.strict_trans1 one_le_numeral power_increasing)

lemma mult_power_le:
  assumes "0 < c" and "c * 2 ^ j \<le> (2::nat) ^ k"
  shows "j \<le> k"
proof -
  have "(2::nat) ^ j \<le> c * 2 ^ j" using assms(1) by simp
  then have "(2::nat) ^ j \<le> 2 ^ k" using assms(2) by (rule le_trans)
  then show ?thesis by simp
qed

lemma buddy_alloc_eq:
  assumes "order_for (unat count) k" and "k < 64"
  shows "buddy_alloc t b count = allocate_block t b k"
proof -
  have "unat count \<le> 2 ^ k" using assms(1) by (simp add: order_for_def)
  also have "(2::nat) ^ k \<le> 2 ^ 63" using assms(2) by (intro power_increasing) simp_all
  finally have "unat count \<le> 2 ^ (LENGTH(64) - 1)" by simp
  then obtain k' where k': "k' < 64" "next_power_of_two count = Inr (2 ^ k')" "order_for (unat count) k'"
    by (rule next_power_of_two_spec) (auto simp: order_for_def)
  then show ?thesis
    using order_for_unique [OF assms(1) k'(3)] by (simp add: buddy_alloc_def trailing_zeros_power)
qed

lemma buddy_free_eq:
  "k < 64 \<Longrightarrow> buddy_free t b a (2 ^ k) = free_block t b a k"
  by (simp add: buddy_free_def is_power_of_two_power trailing_zeros_power)

lemma frame_count:
  assumes "unat n * unat (SIZE s) < 2 ^ 64"
  shows "umul n (SIZE s) = Inr (n * SIZE s)" and "udiv (n * SIZE s) (SIZE Size4KiB) = Inr (n * SIZE s div SIZE Size4KiB)"
    and "unat (n * SIZE s div SIZE Size4KiB) = unat n * 2 ^ size_order s"
proof -
  have m: "unat (n * SIZE s) = unat n * unat (SIZE s)" using assms by (intro unat_mul_no_overflow) simp
  show "umul n (SIZE s) = Inr (n * SIZE s)" using assms by (simp add: umul_eq_Inr)
  show "udiv (n * SIZE s) (SIZE Size4KiB) = Inr (n * SIZE s div SIZE Size4KiB)" by (simp add: udiv_def)
  show "unat (n * SIZE s div SIZE Size4KiB) = unat n * 2 ^ size_order s"
    unfolding unat_div m unat_SIZE by (simp add: size_order_def)
qed

lemma pmm_allocate_n_ok:
  assumes inv: "pmm_inv t p" and n: "0 < unat n" "unat n * unat (SIZE s) < 2 ^ 64"
    and k: "order_for (unat n * 2 ^ size_order s) k" "k < 64"
  shows "if \<exists>a. k \<le> MAX_ORDER \<and> block_aligned a k \<and> block_of a k \<subseteq> pmm_memory p
     then \<exists>f e p'. pmm_allocate_n t s p n = Inr ((f, e), p') \<and> pmm_inv t p' \<and> paddr_valid t f \<and>
       unat (SIZE s) dvd unat f \<and> block_aligned f k \<and> unat e = unat f + unat n * unat (SIZE s) \<and>
       {unat f ..< unat e} \<subseteq> block_of f k \<and> block_of f k \<subseteq> pmm_memory p \<and>
       pmm_memory p' = pmm_memory p - block_of f k
     else pmm_allocate_n t s p n = Inl UnwrapFailed"
proof -
  have b: "buddy_inv t (buddy p)" using inv by (simp add: pmm_inv_def)
  note c = frame_count [OF n(2)]
  have alloc: "buddy_alloc t (buddy p) (n * SIZE s div SIZE Size4KiB) = allocate_block t (buddy p) k"
    using k by (intro buddy_alloc_eq) (simp_all only: c(3))
  obtain r b' where r: "allocate_block t (buddy p) k = Inr (r, b')" "buddy_inv t b'"
    and res: "case r of None \<Rightarrow> b' = buddy p
      | Some a \<Rightarrow> k \<le> MAX_ORDER \<and> block_aligned a k \<and> paddr_valid t a \<and>
          block_of a k \<subseteq> free_memory (buddy p) \<and> free_memory b' = free_memory (buddy p) - block_of a k"
    using allocate_block_ok [OF b] by blast
  show ?thesis
  proof (cases r)
    case None
    then have "\<not> (\<exists>a. k \<le> MAX_ORDER \<and> block_aligned a k \<and> block_of a k \<subseteq> pmm_memory p)"
      using allocate_block_None_iff [OF b, of k] r(1) res by (auto simp: pmm_memory_def)
    moreover have "pmm_allocate_n t s p n = Inl UnwrapFailed"
      using None r(1) c(1,2) alloc by (simp add: pmm_allocate_n_def runwrap_def)
    ultimately show ?thesis by simp
  next
    case (Some f)
    then have a: "k \<le> MAX_ORDER" "block_aligned f k" "paddr_valid t f" "block_of f k \<subseteq> pmm_memory p"
        "free_memory b' = pmm_memory p - block_of f k"
      using res by (simp_all add: pmm_memory_def)
    have nk: "unat n * 2 ^ size_order s \<le> 2 ^ k" using k by (simp add: order_for_def)
    then have so: "size_order s \<le> k" using n(1) by (rule mult_power_le [rotated])
    have "2 ^ (size_order s + 12) dvd (2 :: nat) ^ (k + 12)" using so by (intro le_imp_power_dvd) simp
    then have dv: "unat (SIZE s) dvd unat f"
      using a(2) unfolding aligned_def unat_SIZE by (auto simp: power_add intro: dvd_trans)
    obtain lim where lim: "paddr_valid t lim" "pmm_memory p \<subseteq> {..< unat lim}" using inv by (auto simp: pmm_inv_def)
    have sz: "unat n * unat (SIZE s) \<le> 2 ^ (k + 12)"
      using mult_le_mono1 [OF nk, of 4096] by (simp add: unat_SIZE power_add)
    have "(1::nat) \<le> 2 ^ (k + 12)" by simp
    then have "unat f + 2 ^ (k + 12) - 1 \<in> block_of f k" unfolding blk_def atLeastLessThan_iff by linarith
    then have "unat f + 2 ^ (k + 12) - 1 < unat lim" using a(4) lim(2) by blast
    then have "unat f + unat n * unat (SIZE s) \<le> unat lim" using sz by simp
    moreover from this have lt: "unat f + unat n * unat (SIZE s) < 2 ^ 64"
      using unsigned_less [of lim, where 'a = nat] by simp
    ultimately have "paddr_valid t (f + n * SIZE s)"
      using lim(1) n(2) by (intro paddr_valid_le [OF lim(1)]) (simp add: unat_add_no_overflow unat_mul_no_overflow)
    note fa = frame_add_eq [OF lt this]
    have "pmm_allocate_n t s p n = Inr ((f, f + n * SIZE s), p\<lparr>buddy := b'\<rparr>)"
      using Some r(1) c(1,2) alloc dv fa(1) by (simp add: pmm_allocate_n_def frame_starts_with_eq)
    moreover have "pmm_inv t (p\<lparr>buddy := b'\<rparr>)" using inv r(2) a(5) by (intro pmm_inv_shrink) auto
    moreover have "{unat f ..< unat (f + n * SIZE s)} \<subseteq> block_of f k" using sz fa(2) by (auto simp: blk_def)
    moreover have "pmm_memory (p\<lparr>buddy := b'\<rparr>) = pmm_memory p - block_of f k" using a(5) by (simp add: pmm_memory_def)
    ultimately show ?thesis using a fa(2) dv by auto
  qed
qed

lemma pmm_allocate_ok:
  assumes "pmm_inv t p" and "pmm_allocate t Size4KiB p = Inr (f, p')"
  shows "pmm_inv t p' \<and> paddr_valid t f \<and> 4096 dvd unat f \<and> frame_memory f \<subseteq> pmm_memory p \<and>
     pmm_memory p' = pmm_memory p - frame_memory f"
proof -
  have o: "order_for (unat (1::usize) * 2 ^ size_order Size4KiB) 0" by (simp add: order_for_def size_order_def)
  from assms(2) obtain e where "pmm_allocate_n t Size4KiB p 1 = Inr ((f, e), p')"
    by (auto simp: pmm_allocate_def rbind_eq_Inr)
  then show ?thesis
    using pmm_allocate_n_ok [OF assms(1) _ _ o] by (auto simp: blk_frame split: if_splits)
qed

interpretation pmm: frame_source "pmm_inv t" pmm_memory "pmm_allocate t Size4KiB" "paddr_valid t" for t
proof
  fix p f p' assume "pmm_inv t p" and "pmm_allocate t Size4KiB p = Inr (f, p')"
  then show "pmm_inv t p' \<and> paddr_valid t f \<and> 4096 dvd unat f \<and> frame_memory f \<subseteq> pmm_memory p \<and>
      pmm_memory p' = pmm_memory p - frame_memory f" by (rule pmm_allocate_ok)
next
  fix p assume inv: "pmm_inv t p"
  then show "finite (pmm_memory p)" unfolding pmm_inv_def by (meson finite_lessThan finite_subset)
  assume "pmm_memory p \<noteq> {}"
  then obtain n k where nk: "(n, k) \<in> blocks (buddy p)" by (auto simp: pmm_memory_def free_memory_def block_memory_def)
  then obtain a :: paddr and order where a: "n = unat a" "k = order + 12" unfolding in_blocks by blast
  have sub: "block_of a order \<subseteq> pmm_memory p"
    using nk unfolding a pmm_memory_def free_memory_def block_memory_def by blast
  have "wf_blocks 12 (MAX_ORDER + 12) (blocks (buddy p))" using inv by (simp add: pmm_inv_def buddy_inv_def)
  then have "block_aligned a order" using nk unfolding a by (auto simp: wf_blocks_def)
  then have "block_aligned a 0" unfolding aligned_def by (rule dvd_trans [rotated]) (simp add: power_add)
  moreover have "block_of a 0 \<subseteq> block_of a order"
    by (auto simp: blk_def power_add intro: less_le_trans)
  ultimately have "block_aligned a 0 \<and> block_of a 0 \<subseteq> pmm_memory p" using sub by blast
  moreover have o: "order_for (unat (1::usize) * 2 ^ size_order Size4KiB) 0" by (simp add: order_for_def size_order_def)
  ultimately show "\<exists>r. pmm_allocate t Size4KiB p = Inr r"
    using pmm_allocate_n_ok [OF inv _ _ o] by (fastforce simp: pmm_allocate_def split: if_splits)
qed

lemma power_count:
  assumes "is_power_of_two c"
  obtains k where "k < 64" "c = (2 ^ k :: usize)" "order_for (unat c) k"
proof -
  obtain k where "k < 64" "c = (2 ^ k :: usize)" using assms by (auto simp: is_power_of_two_iff)
  moreover from this have "order_for (unat c) k" by (auto simp: order_for_def unat_power_two)
  ultimately show thesis by (rule that)
qed

subsection \<open>Properties\<close>

text \<open>C23: from a well formed memory map the manager is built without a panic, and its free memory
  is exactly the usable memory of the map, to the byte.\<close>

theorem pmm_new_correct:
  assumes "memory_map_ok t mm"
  shows "\<exists>p. pmm_new t mm = Inr p \<and> pmm_inv t p \<and> pmm_memory p = usable_memory mm"
  using assms by (rule pmm_new_ok)

theorem pmm_new_correct_witness:
  "\<exists>p. pmm_new X86_64
       [\<lparr>mem_base = 0x1000, mem_length = 0x9000, mem_typ = Usable\<rparr>,
        \<lparr>mem_base = 0xa000, mem_length = 0x1234, mem_typ = AcpiNvs\<rparr>,
        \<lparr>mem_base = 0x100000, mem_length = 0x700000, mem_typ = Usable\<rparr>] = Inr p \<and>
     pmm_inv X86_64 p \<and> pmm_memory p = {0x1000 ..< 0xa000} \<union> {0x100000 ..< 0x800000}"
  using pmm_new_correct [of X86_64 "[\<lparr>mem_base = 0x1000, mem_length = 0x9000, mem_typ = Usable\<rparr>,
        \<lparr>mem_base = 0xa000, mem_length = 0x1234, mem_typ = AcpiNvs\<rparr>,
        \<lparr>mem_base = 0x100000, mem_length = 0x700000, mem_typ = Usable\<rparr>]"]
  by (simp add: entry_ok_def entry_memory_def paddr_valid_iff)

text \<open>C24: allocating \<open>n\<close> frames of any size rounds up to a block of the smallest order that holds
  them.  It succeeds exactly when an aligned block of this order is free, and then returns the first
  \<open>n\<close> frames, aligned to the frame size, of a block that was free and is no longer; otherwise it
  panics.\<close>

theorem pmm_allocate_n_correct:
  assumes "pmm_inv t p" and "0 < unat n" and "unat n * unat (SIZE s) < 2 ^ 64"
    and "order_for (unat n * 2 ^ size_order s) k" and "k < 64"
  shows "if \<exists>a. k \<le> MAX_ORDER \<and> block_aligned a k \<and> block_of a k \<subseteq> pmm_memory p
     then \<exists>f e p'. pmm_allocate_n t s p n = Inr ((f, e), p') \<and> pmm_inv t p' \<and> paddr_valid t f \<and>
       unat (SIZE s) dvd unat f \<and> block_aligned f k \<and> unat e = unat f + unat n * unat (SIZE s) \<and>
       {unat f ..< unat e} \<subseteq> block_of f k \<and> block_of f k \<subseteq> pmm_memory p \<and>
       pmm_memory p' = pmm_memory p - block_of f k
     else pmm_allocate_n t s p n = Inl UnwrapFailed"
  using assms by (rule pmm_allocate_n_ok)

lemma one_block_pmm: "pmm_inv t \<lparr>buddy = one_block\<rparr>" and one_block_pmm_memory: "pmm_memory \<lparr>buddy = one_block\<rparr> = {0 ..< 2 ^ 24}"
  using one_block_inv [of t] one_block_free
  by (auto simp: pmm_inv_def pmm_memory_def paddr_valid_iff intro!: exI [of _ "0x1000000"])

theorem pmm_allocate_n_correct_witness:
  "\<exists>f e p'. pmm_allocate_n X86_64 Size2MiB \<lparr>buddy = one_block\<rparr> 3 = Inr ((f, e), p') \<and>
     0x200000 dvd unat f \<and> unat e = unat f + 0x600000 \<and>
     pmm_memory p' = {0 ..< 2 ^ 24} - block_of f 11"
proof -
  have "order_for (unat (3::usize) * 2 ^ size_order Size2MiB) 11"
    using order_for_Suc [of 1536 10] by (simp add: size_order_def)
  moreover have "\<exists>a. 11 \<le> MAX_ORDER \<and> block_aligned a 11 \<and> block_of a 11 \<subseteq> {0 ..< 2 ^ 24}"
    by (intro exI [of _ 0]) (auto simp: buddy_consts aligned_def blk_def)
  ultimately show ?thesis
    using pmm_allocate_n_correct [OF one_block_pmm, of 3 Size2MiB 11 X86_64] unfolding one_block_pmm_memory by auto
qed

text \<open>C32: freeing the frames of an allocation restores the manager exactly, bin for bin, when their
  number is a power of two, and panics for every other number, although the allocation accepts it.\<close>

theorem pmm_allocate_free:
  assumes inv: "pmm_inv t p" and n: "0 < unat n" "unat n * unat (SIZE s) < 2 ^ 64"
    and a: "pmm_allocate_n t s p n = Inr ((f, e), p')"
  shows "pmm_free_n t s p' f n = (if \<exists>m. unat n = 2 ^ m then Inr p else Inl AssertFailed)"
proof -
  let ?c = "n * SIZE s div SIZE Size4KiB"
  note c = frame_count [OF n(2)]
  have pow: "is_power_of_two ?c \<longleftrightarrow> (\<exists>m. unat n = 2 ^ m)"
  proof
    assume "is_power_of_two ?c"
    then obtain k where "k < 64" "?c = 2 ^ k" by (rule power_count)
    then have "unat n * 2 ^ size_order s = 2 ^ k" using c(3) by (simp add: unat_power_two)
    moreover from this have "size_order s \<le> k" using n(1) by (simp add: mult_power_le [of "unat n"])
    ultimately have "unat n * 2 ^ size_order s = 2 ^ (k - size_order s) * 2 ^ size_order s"
      by (simp flip: power_add)
    then show "\<exists>m. unat n = 2 ^ m" by auto
  next
    assume "\<exists>m. unat n = 2 ^ m"
    then obtain m where m: "unat ?c = 2 ^ (m + size_order s)" using c(3) by (auto simp: power_add)
    then have "(2::nat) ^ (m + size_order s) < 2 ^ 64" using unsigned_less [of ?c, where 'a = nat] by simp
    then have l: "m + size_order s < 64" by (simp only: power_strict_increasing_iff)
    then have "?c = 2 ^ (m + size_order s)" using m by (simp add: word_unat_eq_iff unat_power_two)
    then show "is_power_of_two ?c" using l by (auto simp: is_power_of_two_iff)
  qed
  show ?thesis
  proof (cases "\<exists>m. unat n = 2 ^ m")
    case True
    then obtain k where k: "k < 64" "?c = 2 ^ k" "order_for (unat ?c) k" using pow power_count by blast
    obtain r b' where "allocate_block t (buddy p) k = Inr (Some f, b')" "p' = p\<lparr>buddy := b'\<rparr>"
      using a c(1,2) buddy_alloc_eq [OF k(3,1), of t "buddy p"]
      by (auto simp: pmm_allocate_n_def rbind_eq_Inr runwrap_eq_Inr frame_starts_with_eq split: if_splits)
    then have "free_block t (buddy p') f k = Inr (buddy p)" "p'\<lparr>buddy := buddy p\<rparr> = p"
      using buddy.alloc_release [of t "buddy p" k f b'] inv by (simp_all add: pmm_inv_def)
    then show ?thesis using True c(1,2) k(2) buddy_free_eq [OF k(1)] by (simp add: pmm_free_n_def)
  next
    case False
    then show ?thesis using pow c(1,2) by (simp add: pmm_free_n_def buddy_free_def rassert_def)
  qed
qed

theorem pmm_allocate_free_witness:
  "\<exists>f e p'. pmm_allocate_n X86_64 Size2MiB \<lparr>buddy = one_block\<rparr> 2 = Inr ((f, e), p') \<and>
     pmm_free_n X86_64 Size2MiB p' f 2 = Inr \<lparr>buddy = one_block\<rparr>"
proof -
  have "order_for (unat (2::usize) * 2 ^ size_order Size2MiB) 10"
    using order_for_Suc [of 1024 9] by (simp add: size_order_def)
  moreover have "\<exists>a. 10 \<le> MAX_ORDER \<and> block_aligned a 10 \<and> block_of a 10 \<subseteq> {0 ..< 2 ^ 24}"
    by (intro exI [of _ 0]) (auto simp: buddy_consts aligned_def blk_def)
  ultimately obtain f e p' where "pmm_allocate_n X86_64 Size2MiB \<lparr>buddy = one_block\<rparr> 2 = Inr ((f, e), p')"
    using pmm_allocate_n_ok [OF one_block_pmm, of 2 Size2MiB 10 X86_64] unfolding one_block_pmm_memory by auto
  then show ?thesis
    using pmm_allocate_free [OF one_block_pmm, of 2 Size2MiB X86_64 f e p'] by (auto intro: exI [of _ 1])
qed

end
