(* ===== verification/Kernel_Objects.thy ===== *)
theory Kernel_Objects
  imports Poplar_Abi Kernel_Pmm
begin

text \<open>
  \<open>kernel/src/object\<close>: the kernel objects, and the operations of each on its own state.  An object
  that refers to another one holds a reference; the objects themselves live in the heap of
  \<open>Kernel_State\<close>.
\<close>

subsection \<open>Identifiers\<close>

definition SENTINEL_KERNEL_ID :: u64 where
  "SENTINEL_KERNEL_ID = 0"

text \<open>The counter is an atomic integer: it wraps.\<close>

definition alloc_kernel_object_id :: "u64 \<Rightarrow> u64 \<times> u64" where
  "alloc_kernel_object_id counter = (counter, counter + 1)"

datatype kernel_object_type = TAddressSpace | TTask | TMemoryObject | TChannel | TEvent | TInterrupt

subsection \<open>Channels\<close>

definition CHANNEL_MAX_NUM_BYTES :: usize where
  "CHANNEL_MAX_NUM_BYTES = 4096"

definition CHANNEL_MAX_NUM_HANDLES :: nat where
  "CHANNEL_MAX_NUM_HANDLES = 4"

record message =
  msg_bytes :: "u8 list"
  handle_objects :: "ref option list"

definition num_handles :: "message \<Rightarrow> nat" where
  "num_handles m = foldl (\<lambda>n h. if h \<noteq> None then n + 1 else n) 0 (handle_objects m)"

record channel_end =
  ch_id :: u64
  ch_owner :: u64
  messages :: "message list"
  other_end :: "ref option"

definition add_message :: "channel_end \<Rightarrow> message \<Rightarrow> channel_end" where
  "add_message ch m = ch\<lparr>messages := messages ch @ [m]\<rparr>"

text \<open>The function that handles the message may change other state, which it returns.\<close>

definition receive ::
  "channel_end \<Rightarrow> (message \<Rightarrow> panic + ((message \<times> get_message_error) + 'r) \<times> 's) \<Rightarrow> 's \<Rightarrow>
   panic + ((get_message_error + 'r) \<times> channel_end \<times> 's)" where
  "receive ch f s =
     (case messages ch of
        [] \<Rightarrow> Inr (Inl NoMessage, ch, s)
      | m # ms \<Rightarrow>
          rbind (f m) (\<lambda>(res, s').
            case res of
              Inr v \<Rightarrow> Inr (Inr v, ch\<lparr>messages := ms\<rparr>, s')
            | Inl (m', err) \<Rightarrow> Inr (Inl err, ch\<lparr>messages := m' # ms\<rparr>, s')))"

subsection \<open>Events and interrupts\<close>

record event =
  ev_id :: u64
  signalled :: bool

definition event_new :: "u64 \<Rightarrow> event \<times> u64" where
  "event_new counter = (let (i, c) = alloc_kernel_object_id counter in (\<lparr>ev_id = i, signalled = False\<rparr>, c))"

definition event_signal :: "event \<Rightarrow> event" where
  "event_signal e = e\<lparr>signalled := True\<rparr>"

definition event_clear :: "event \<Rightarrow> event" where
  "event_clear e = e\<lparr>signalled := False\<rparr>"

record interrupt =
  int_id :: u64
  triggered :: bool
  rearm_irq :: "usize option"

definition interrupt_new :: "u64 \<Rightarrow> usize option \<Rightarrow> interrupt \<times> u64" where
  "interrupt_new counter irq =
     (let (i, c) = alloc_kernel_object_id counter in (\<lparr>int_id = i, triggered = False, rearm_irq = irq\<rparr>, c))"

definition interrupt_trigger :: "interrupt \<Rightarrow> interrupt" where
  "interrupt_trigger i = i\<lparr>triggered := True\<rparr>"

text \<open>The interrupts that the platform was told to rearm are recorded in order.\<close>

definition interrupt_rearm :: "interrupt \<Rightarrow> usize list \<Rightarrow> interrupt \<times> usize list" where
  "interrupt_rearm i rearmed =
     (i\<lparr>triggered := False\<rparr>, case rearm_irq i of Some irq \<Rightarrow> rearmed @ [irq] | None \<Rightarrow> rearmed)"

text \<open>\<open>compare_exchange(true, false)\<close> on the flag of an event or an interrupt.\<close>

definition take_flag :: "bool \<Rightarrow> bool \<times> bool" where
  "take_flag b = (b, False)"

subsection \<open>Memory objects\<close>

record memory_object =
  mo_id :: u64
  mo_owner :: u64
  mo_size :: usize
  mo_flags :: flags
  backing :: "(paddr \<times> usize) list"

definition memory_object_new :: "u64 \<Rightarrow> u64 \<Rightarrow> paddr \<Rightarrow> usize \<Rightarrow> flags \<Rightarrow> memory_object \<times> u64" where
  "memory_object_new counter owner physical_address sz fl =
     (let (i, c) = alloc_kernel_object_id counter in
      (\<lparr>mo_id = i, mo_owner = owner, mo_size = sz, mo_flags = fl, backing = [(physical_address, sz)]\<rparr>, c))"

text \<open>A segment of an image that the boot loader has loaded; the two flags are decoded by the bit field
  crate.\<close>

record loaded_segment =
  seg_phys_addr :: u64
  seg_virt_addr :: u64
  seg_size :: u32
  seg_writable :: bool
  seg_executable :: bool

definition memory_object_from_boot_info ::
  "target \<Rightarrow> u64 \<Rightarrow> u64 \<Rightarrow> loaded_segment \<Rightarrow> panic + (memory_object \<times> u64)" where
  "memory_object_from_boot_info t counter owner segment =
     (let fl = flags_default\<lparr>writable := seg_writable segment, executable := seg_executable segment,
                 user_accessible := True\<rparr>;
          (i, c) = alloc_kernel_object_id counter in
      rbind (runwrap (paddr_new t (seg_phys_addr segment))) (\<lambda>a.
        Inr (\<lparr>mo_id = i, mo_owner = owner, mo_size = ucast (seg_size segment), mo_flags = fl,
              backing = [(a, ucast (seg_size segment))]\<rparr>, c)))"

definition memory_object_extend :: "memory_object \<Rightarrow> usize \<Rightarrow> paddr \<Rightarrow> panic + memory_object" where
  "memory_object_extend m extend_by new_backing =
     rbind (rassert (extend_by > 0)) (\<lambda>_.
     rbind (uadd (mo_size m) extend_by) (\<lambda>sz.
       Inr (m\<lparr>mo_size := sz, backing := backing m @ [(new_backing, extend_by)]\<rparr>)))"

definition memory_object_eq :: "memory_object \<Rightarrow> memory_object \<Rightarrow> bool" where
  "memory_object_eq m m' \<longleftrightarrow> mo_id m = mo_id m'"

subsection \<open>Address spaces and tasks\<close>

record stack =
  top_of :: vaddr
  slot_bottom :: vaddr
  stack_bottom :: vaddr
  physical_start :: paddr

record task_slot =
  slot_index :: nat
  user_stack :: stack

datatype as_state = NotActive | Active

text \<open>The mappings are a tree map: an association list in the order of the keys.\<close>

type_synonym mapping_list = "(vaddr \<times> ref) list"

fun btree_insert :: "'k::linorder \<Rightarrow> 'v \<Rightarrow> ('k \<times> 'v) list \<Rightarrow> ('k \<times> 'v) list" where
  "btree_insert k v [] = [(k, v)]"
| "btree_insert k v ((k', v') # m) =
     (if k < k' then (k, v) # (k', v') # m
      else if k = k' then (k, v) # m
      else (k', v') # btree_insert k v m)"

record 'pt address_space =
  as_id :: u64
  as_owner :: u64
  as_state :: as_state
  mappings :: mapping_list
  page_table :: 'pt
  slot_bitmap :: u64

datatype task_block = OnEvent ref

datatype task_state = Ready | Running | Blocked task_block

definition is_ready :: "task_state \<Rightarrow> bool" where
  "is_ready s = (case s of Ready \<Rightarrow> True | _ \<Rightarrow> False)"

definition is_running :: "task_state \<Rightarrow> bool" where
  "is_running s = (case s of Running \<Rightarrow> True | _ \<Rightarrow> False)"

definition is_blocked :: "task_state \<Rightarrow> bool" where
  "is_blocked s = (case s of Blocked _ \<Rightarrow> True | _ \<Rightarrow> False)"

datatype task_creation_error =
  InvalidName | NameTooLong | InvalidCapabilityEncoding | AddressSpaceFull | NoKernelStackSlots

record 'ctx task =
  t_id :: u64
  t_owner :: u64
  t_name :: "u8 list"
  t_address_space :: ref
  t_state :: task_state
  user_slot :: task_slot
  kernel_stack :: stack
  context_of :: 'ctx
  t_handles :: handles

datatype ('pt, 'ctx) kobj =
  AddressSpaceObj "'pt address_space" | TaskObj "'ctx task" | MemoryObj memory_object
  | ChannelObj channel_end | EventObj event | InterruptObj interrupt

fun kobj_id :: "('pt, 'ctx) kobj \<Rightarrow> u64" where
  "kobj_id (AddressSpaceObj a) = as_id a"
| "kobj_id (TaskObj t) = t_id t"
| "kobj_id (MemoryObj m) = mo_id m"
| "kobj_id (ChannelObj c) = ch_id c"
| "kobj_id (EventObj e) = ev_id e"
| "kobj_id (InterruptObj i) = int_id i"

fun kobj_typ :: "('pt, 'ctx) kobj \<Rightarrow> kernel_object_type" where
  "kobj_typ (AddressSpaceObj a) = TAddressSpace"
| "kobj_typ (TaskObj t) = TTask"
| "kobj_typ (MemoryObj m) = TMemoryObject"
| "kobj_typ (ChannelObj c) = TChannel"
| "kobj_typ (EventObj e) = TEvent"
| "kobj_typ (InterruptObj i) = TInterrupt"

text \<open>The downcasts \<open>downcast_arc::<T>()\<close>.\<close>

definition as_channel :: "('pt, 'ctx) kobj \<Rightarrow> channel_end option" where
  "as_channel ob = (case ob of ChannelObj c \<Rightarrow> Some c | _ \<Rightarrow> None)"

definition as_memory_object :: "('pt, 'ctx) kobj \<Rightarrow> memory_object option" where
  "as_memory_object ob = (case ob of MemoryObj m \<Rightarrow> Some m | _ \<Rightarrow> None)"

definition as_address_space :: "('pt, 'ctx) kobj \<Rightarrow> 'pt address_space option" where
  "as_address_space ob = (case ob of AddressSpaceObj a \<Rightarrow> Some a | _ \<Rightarrow> None)"

definition as_event :: "('pt, 'ctx) kobj \<Rightarrow> event option" where
  "as_event ob = (case ob of EventObj e \<Rightarrow> Some e | _ \<Rightarrow> None)"

definition as_interrupt :: "('pt, 'ctx) kobj \<Rightarrow> interrupt option" where
  "as_interrupt ob = (case ob of InterruptObj i \<Rightarrow> Some i | _ \<Rightarrow> None)"

definition as_task :: "('pt, 'ctx) kobj \<Rightarrow> 'ctx task option" where
  "as_task ob = (case ob of TaskObj t \<Rightarrow> Some t | _ \<Rightarrow> None)"

lemma as_object_Some [simp]:
  "as_channel ob = Some c \<longleftrightarrow> ob = ChannelObj c" "as_memory_object ob = Some m \<longleftrightarrow> ob = MemoryObj m"
  "as_address_space ob = Some a \<longleftrightarrow> ob = AddressSpaceObj a" "as_event ob = Some e \<longleftrightarrow> ob = EventObj e"
  "as_interrupt ob = Some i \<longleftrightarrow> ob = InterruptObj i" "as_task ob = Some t \<longleftrightarrow> ob = TaskObj t"
  by (auto simp: as_channel_def as_memory_object_def as_address_space_def as_event_def as_interrupt_def
      as_task_def split: kobj.splits)

end
