(* ===== verification/Fallible_State.thy ===== *)
theory Fallible_State
  imports Prelude
begin

text \<open>
  Functions of the kernel that change its state, can fail with an error and can panic: their type, how
  they are composed, and a calculus of weakest preconditions for proofs about them.  The state at an
  early return is kept: an error does not undo what happened before it.
\<close>

type_synonym ('k, 'e, 'a) sys = "'k \<Rightarrow> panic + (('e + 'a) \<times> 'k)"

definition sreturn :: "'a \<Rightarrow> ('k, 'e, 'a) sys" where
  "sreturn x = (\<lambda>k. Inr (Inr x, k))"

definition sfail :: "'e \<Rightarrow> ('k, 'e, 'a) sys" where
  "sfail e = (\<lambda>k. Inr (Inl e, k))"

definition sbind :: "('k, 'e, 'a) sys \<Rightarrow> ('a \<Rightarrow> ('k, 'e, 'b) sys) \<Rightarrow> ('k, 'e, 'b) sys" where
  "sbind m f = (\<lambda>k. rbind (m k) (\<lambda>(r, k'). case r of Inl e \<Rightarrow> Inr (Inl e, k') | Inr x \<Rightarrow> f x k'))"

text \<open>\<open>ok_or\<close> followed by the operator for early returns.\<close>

definition ok_or :: "'e \<Rightarrow> 'a option \<Rightarrow> ('k, 'e, 'a) sys" where
  "ok_or e x = (case x of None \<Rightarrow> sfail e | Some v \<Rightarrow> sreturn v)"

text \<open>\<open>map_err\<close>.\<close>

definition smap_err :: "('e \<Rightarrow> 'f) \<Rightarrow> ('k, 'e, 'a) sys \<Rightarrow> ('k, 'f, 'a) sys" where
  "smap_err g m = (\<lambda>k. rbind (m k) (\<lambda>(r, k'). Inr (case r of Inl e \<Rightarrow> Inl (g e) | Inr x \<Rightarrow> Inr x, k')))"

text \<open>\<open>unwrap\<close> and \<open>expect\<close>.\<close>

definition sunwrap :: "('k, 'e, 'a) sys \<Rightarrow> ('k, 'f, 'a) sys" where
  "sunwrap m = (\<lambda>k. rbind (m k) (\<lambda>(r, k'). case r of Inl e \<Rightarrow> Inl UnwrapFailed | Inr x \<Rightarrow> Inr (Inr x, k')))"

text \<open>A computation that may panic and neither fails nor changes the state.\<close>

definition slift :: "panic + 'a \<Rightarrow> ('k, 'e, 'a) sys" where
  "slift r = (\<lambda>k. rbind r (\<lambda>x. Inr (Inr x, k)))"

definition sget :: "('k \<Rightarrow> panic + 'a) \<Rightarrow> ('k, 'e, 'a) sys" where
  "sget f = (\<lambda>k. rbind (f k) (\<lambda>x. Inr (Inr x, k)))"

definition smodify :: "('k \<Rightarrow> 'k) \<Rightarrow> ('k, 'e, unit) sys" where
  "smodify f = (\<lambda>k. Inr (Inr (), f k))"

text \<open>A computation that may panic and changes the state.\<close>

definition supdate :: "('k \<Rightarrow> panic + 'k) \<Rightarrow> ('k, 'e, unit) sys" where
  "supdate f = (\<lambda>k. rbind (f k) (\<lambda>k'. Inr (Inr (), k')))"

primrec sfor :: "'a list \<Rightarrow> ('a \<Rightarrow> ('k, 'e, 'b) sys) \<Rightarrow> ('k, 'e, 'b list) sys" where
  "sfor [] f = sreturn []"
| "sfor (x # xs) f = sbind (f x) (\<lambda>y. sbind (sfor xs f) (\<lambda>ys. sreturn (y # ys)))"

subsection \<open>Weakest preconditions\<close>

text \<open>\<open>b\<close> says whether a panic is allowed.\<close>

definition wp :: "bool \<Rightarrow> ('k, 'e, 'a) sys \<Rightarrow> ('e + 'a \<Rightarrow> 'k \<Rightarrow> bool) \<Rightarrow> 'k \<Rightarrow> bool" where
  "wp b m Q k = (case m k of Inl p \<Rightarrow> b | Inr (r, k') \<Rightarrow> Q r k')"

named_theorems wp_simps \<open>weakest preconditions of the composed operations\<close>

lemma wp_return [wp_simps]: "wp b (sreturn x) Q k \<longleftrightarrow> Q (Inr x) k"
  and wp_fail [wp_simps]: "wp b (sfail e) Q k \<longleftrightarrow> Q (Inl e) k"
  and wp_ok_or [wp_simps]: "wp b (ok_or e y) Q k \<longleftrightarrow> (case y of None \<Rightarrow> Q (Inl e) k | Some v \<Rightarrow> Q (Inr v) k)"
  by (simp_all add: wp_def sreturn_def sfail_def ok_or_def split: option.split)

lemma wp_modify [wp_simps]: "wp b (smodify f) Q k \<longleftrightarrow> Q (Inr ()) (f k)"
  by (simp add: wp_def smodify_def)

text \<open>The postcondition of a first step: what remains to be shown once its result is known.\<close>

definition onward :: "bool \<Rightarrow> ('a \<Rightarrow> ('k, 'e, 'b) sys) \<Rightarrow> ('e + 'b \<Rightarrow> 'k \<Rightarrow> bool) \<Rightarrow> 'e + 'a \<Rightarrow> 'k \<Rightarrow> bool" where
  "onward b f Q r k = (case r of Inl e \<Rightarrow> Q (Inl e) k | Inr x \<Rightarrow> wp b (f x) Q k)"

definition relabel :: "('e \<Rightarrow> 'f) \<Rightarrow> ('f + 'a \<Rightarrow> 'k \<Rightarrow> bool) \<Rightarrow> 'e + 'a \<Rightarrow> 'k \<Rightarrow> bool" where
  "relabel g Q r k = Q (case r of Inl e \<Rightarrow> Inl (g e) | Inr x \<Rightarrow> Inr x) k"

definition expecting :: "bool \<Rightarrow> ('f + 'a \<Rightarrow> 'k \<Rightarrow> bool) \<Rightarrow> 'e + 'a \<Rightarrow> 'k \<Rightarrow> bool" where
  "expecting b Q r k = (case r of Inl e \<Rightarrow> b | Inr x \<Rightarrow> Q (Inr x) k)"

lemma post_simps [simp]:
  "onward b f Q (Inl e) k = Q (Inl e) k" "onward b f Q (Inr x) k = wp b (f x) Q k"
  by (simp_all add: onward_def)

lemma relabel_simps [simp]: "relabel g Q (Inl e) k = Q (Inl (g e)) k" "relabel g Q (Inr x) k = Q (Inr x) k"
  by (simp_all add: relabel_def)

lemma expecting_simps [simp]: "expecting b Q (Inl e) k = b" "expecting b Q (Inr x) k = Q (Inr x) k"
  by (simp_all add: expecting_def)

lemma wp_bind [wp_simps]: "wp b (sbind m f) Q k \<longleftrightarrow> wp b m (onward b f Q) k"
  by (auto simp: wp_def onward_def sbind_def rbind_def split: sum.splits)

lemma wp_get: "wp b (sget f) Q k \<longleftrightarrow> (case f k of Inl p \<Rightarrow> b | Inr x \<Rightarrow> Q (Inr x) k)"
  and wp_lift: "wp b (slift r) Q k \<longleftrightarrow> (case r of Inl p \<Rightarrow> b | Inr x \<Rightarrow> Q (Inr x) k)"
  by (auto simp: wp_def sget_def slift_def rbind_def split: sum.splits)

lemma wp_update: "wp b (supdate g) Q k \<longleftrightarrow> (case g k of Inl p \<Rightarrow> b | Inr k' \<Rightarrow> Q (Inr ()) k')"
  by (auto simp: wp_def supdate_def rbind_def split: sum.splits)

lemma wp_map_err [wp_simps]:
  "wp b (smap_err g m) Q k \<longleftrightarrow> wp b m (relabel g Q) k"
  by (auto simp: wp_def relabel_def smap_err_def rbind_def split: sum.splits)

lemma wp_unwrap [wp_simps]:
  "wp b (sunwrap m) Q k \<longleftrightarrow> wp b m (expecting b Q) k"
  by (auto simp: wp_def expecting_def sunwrap_def rbind_def split: sum.splits)

lemma wp_if [wp_simps]: "wp b (if c then m else m') Q k \<longleftrightarrow> (if c then wp b m Q k else wp b m' Q k)"
  by simp

lemma wp_mono: "wp b m Q k \<Longrightarrow> (\<And>r k'. Q r k' \<Longrightarrow> Q' r k') \<Longrightarrow> wp b m Q' k"
  by (auto simp: wp_def split: sum.splits)

lemma wp_total: "wp False m Q k \<Longrightarrow> \<exists>r k'. m k = Inr (r, k') \<and> Q r k'"
  by (auto simp: wp_def split: sum.splits)

lemma wp_partial: "wp b m Q k \<Longrightarrow> m k = Inr (r, k') \<Longrightarrow> Q r k'"
  by (auto simp: wp_def)

text \<open>A loop whose body keeps a property of the state, also when it fails, and whose results and errors
  have properties that do not depend on the state.\<close>

definition sound_result :: "('e \<Rightarrow> bool) \<Rightarrow> ('a \<Rightarrow> bool) \<Rightarrow> 'e + 'a \<Rightarrow> bool" where
  "sound_result E V r \<longleftrightarrow> (case r of Inl e \<Rightarrow> E e | Inr y \<Rightarrow> V y)"

lemma sound_result_simps [simp]: "sound_result E V (Inl e) = E e" "sound_result E V (Inr y) = V y"
  by (simp_all add: sound_result_def)

lemma wp_for:
  fixes f :: "'a \<Rightarrow> ('k, 'e, 'b) sys"
  assumes "I k" and "\<And>x k. x \<in> set xs \<Longrightarrow> I k \<Longrightarrow> wp b (f x) (\<lambda>r k'. I k' \<and> sound_result E V r) k"
    and "\<And>e k'. I k' \<Longrightarrow> E e \<Longrightarrow> Q (Inl e) k'"
    and "\<And>ys k'. I k' \<Longrightarrow> length ys = length xs \<Longrightarrow> (\<forall>y \<in> set ys. V y) \<Longrightarrow> Q (Inr ys) k'"
  shows "wp b (sfor xs f) Q k"
proof -
  let ?V = "\<lambda>xs ys. length ys = length xs \<and> (\<forall>y \<in> set ys. V y)"
  have "wp b (sfor xs f) (\<lambda>r k'. I k' \<and> sound_result E (?V xs) r) k"
    using assms(1,2)
  proof (induction xs arbitrary: k)
    case (Cons x xs)
    have "wp b (f x) (\<lambda>r k'. I k' \<and> sound_result E V r) k" using Cons.prems by simp
    then show ?case
      unfolding sfor.simps wp_simps
    proof (rule wp_mono)
      fix r :: "'e + 'b" and k' assume r: "I k' \<and> sound_result E V r"
      have IH: "wp b (sfor xs f) (\<lambda>r k'. I k' \<and> sound_result E (?V xs) r) k'"
        using Cons.IH [of k'] Cons.prems(2) r by simp
      then have "wp b (sfor xs f) (onward b (\<lambda>ys. sreturn (y # ys)) (\<lambda>r k'. I k' \<and> sound_result E (?V (x # xs)) r)) k'"
        if "V y" for y
        by (rule wp_mono) (use that in \<open>auto simp: onward_def sound_result_def wp_simps split: sum.splits\<close>)
      then show "onward b (\<lambda>y. sbind (sfor xs f) (\<lambda>ys. sreturn (y # ys))) (\<lambda>r k'. I k' \<and> sound_result E (?V (x # xs)) r) r k'"
        using r by (cases r) (simp_all add: wp_simps)
    qed
  qed (simp add: wp_simps)
  then show ?thesis
  proof (rule wp_mono)
    show "Q r k'" if "I k' \<and> sound_result E (?V xs) r" for r k'
      using that assms(3,4) by (cases r) auto
  qed
qed

end
