(* ===== verification/Kernel_State.thy ===== *)
theory Kernel_State
  imports Kernel_Objects Fallible_State
begin

text \<open>
  The state of the kernel: the heap of kernel objects with the lifetimes of \<open>Arc\<close> and \<open>Weak\<close>, the
  managers of physical and virtual memory (\<open>kernel/src/vmm/mod.rs\<close>), and the operations of address
  spaces and tasks that change more than one of them (\<open>kernel/src/object/address_space.rs\<close>,
  \<open>kernel/src/object/task.rs\<close>).  The platform and the crates outside the repository are fields of the
  record \<open>platform\<close>, which the operations take as an argument.
\<close>

subsection \<open>Platform and state\<close>

record ('pt, 'ctx) platform =
  tgt :: target
  new_task_page_tables :: "pmm \<Rightarrow> panic + ('pt \<times> pmm)"
  map_area :: "'pt \<Rightarrow> vaddr \<Rightarrow> paddr \<Rightarrow> usize \<Rightarrow> flags \<Rightarrow> pmm \<Rightarrow> panic + ((paging_error + unit) \<times> 'pt \<times> pmm)"
  new_task_context :: "stack \<Rightarrow> stack \<Rightarrow> vaddr \<Rightarrow> 'ctx"
  bits :: "(u64, u64) bit_ops"
  flags_contain :: "u32 \<Rightarrow> u32 \<Rightarrow> bool"

record 'pt vmm =
  kernel_page_table :: 'pt
  vmm_higher_half_start :: vaddr
  vmm_physical_mapping_base :: vaddr
  vmm_kernel_dynamic_area_base :: vaddr
  vmm_kernel_image_base :: vaddr
  kernel_dynamic_next_available :: usize
  kernel_end_of_dynamic_area :: vaddr

record framebuffer_info =
  fb_width :: u16
  fb_height :: u16
  fb_stride :: u16
  fb_pixel_format :: u8

datatype bar = Memory32 u32 u32 bool | Memory64 u64 u64 bool | Io

record pci_device =
  pci_vendor_id :: u16
  pci_device_id :: u16
  pci_revision :: u8
  pci_class :: u8
  pci_sub_class :: u8
  pci_interface :: u8
  pci_bars :: "bar option list"
  pci_interrupt :: "ref option"

datatype user_bar = UserMemory32 handle u32 | UserMemory64 handle u64

record pci_device_info =
  info_address :: u32
  info_vendor_id :: u16
  info_device_id :: u16
  info_revision :: u8
  info_class :: u8
  info_sub_class :: u8
  info_interface :: u8
  info_bars :: "user_bar option list"
  info_interrupt :: "handle option"

text \<open>Besides the statics of the kernel the state has the memory of the running task, the lines that were
  logged and the interrupts that were rearmed.  A task that waits inside a system call has the object
  that it waits for on its kernel stack: \<open>in_call\<close>.\<close>

record ('pt, 'ctx) kernel =
  heap :: "ref \<Rightarrow> ('pt, 'ctx) kobj option"
  next_ref :: ref
  id_counter :: u64
  pmm_of :: pmm
  vmm_of :: "'pt vmm"
  running_task :: "ref option"
  ready_queue :: "ref list"
  blocked_queue :: "ref list"
  framebuffer :: "(framebuffer_info \<times> ref) option"
  pci_info :: "(u32 \<times> pci_device) list option"
  user_memory :: "usize \<Rightarrow> u8"
  user_descriptors :: "usize \<Rightarrow> nat \<Rightarrow> pci_device_info option"
  log_lines :: "(u8 list \<times> u8 list) list"
  rearmed :: "usize list"
  in_call :: "ref \<Rightarrow> ref option"

subsection \<open>References\<close>

definition alloc_object :: "('pt, 'ctx) kernel \<Rightarrow> ('pt, 'ctx) kobj \<Rightarrow> ref \<times> ('pt, 'ctx) kernel" where
  "alloc_object k ob = (next_ref k, k\<lparr>heap := (heap k)(next_ref k \<mapsto> ob), next_ref := next_ref k + 1\<rparr>)"

text \<open>Following a reference: an \<open>Arc\<close> always points to an object, so the other branch is never taken.\<close>

definition deref :: "('pt, 'ctx) kernel \<Rightarrow> ref \<Rightarrow> panic + ('pt, 'ctx) kobj" where
  "deref k r = runwrap (heap k r)"

definition deref_task :: "('pt, 'ctx) kernel \<Rightarrow> ref \<Rightarrow> panic + 'ctx task" where
  "deref_task k r = rbind (deref k r) (\<lambda>ob. runwrap (as_task ob))"

definition deref_address_space :: "('pt, 'ctx) kernel \<Rightarrow> ref \<Rightarrow> panic + 'pt address_space" where
  "deref_address_space k r = rbind (deref k r) (\<lambda>ob. runwrap (as_address_space ob))"

definition update_object :: "('pt, 'ctx) kernel \<Rightarrow> ref \<Rightarrow> ('pt, 'ctx) kobj \<Rightarrow> ('pt, 'ctx) kernel" where
  "update_object k r ob = k\<lparr>heap := (heap k)(r \<mapsto> ob)\<rparr>"

text \<open>\<open>Weak::upgrade\<close> succeeds as long as the object has not been dropped.\<close>

definition upgrade :: "('pt, 'ctx) kernel \<Rightarrow> ref \<Rightarrow> ref option" where
  "upgrade k r = (if heap k r = None then None else Some r)"

text \<open>The strong references that an object holds.  The other end of a channel is a weak one.\<close>

definition message_refs :: "message \<Rightarrow> ref list" where
  "message_refs m = List.map_filter id (handle_objects m)"

definition table_refs :: "handles \<Rightarrow> ref set" where
  "table_refs h = ran (table h)"

fun refs_of :: "('pt, 'ctx) kobj \<Rightarrow> ref set" where
  "refs_of (AddressSpaceObj a) = snd ` set (mappings a)"
| "refs_of (TaskObj t) = insert (t_address_space t)
     (table_refs (t_handles t) \<union> (case t_state t of Blocked (OnEvent e) \<Rightarrow> {e} | _ \<Rightarrow> {}))"
| "refs_of (MemoryObj m) = {}"
| "refs_of (ChannelObj c) = (\<Union>m \<in> set (messages c). set (message_refs m))"
| "refs_of (EventObj e) = {}"
| "refs_of (InterruptObj i) = {}"

definition roots :: "('pt, 'ctx) kernel \<Rightarrow> ref set" where
  "roots k = set_option (running_task k) \<union> set (ready_queue k) \<union> set (blocked_queue k) \<union>
     snd ` set_option (framebuffer k) \<union> ran (in_call k) \<union>
     (\<Union>ds \<in> set_option (pci_info k). \<Union>(a, d) \<in> set ds. set_option (pci_interrupt d))"

definition referenced :: "('pt, 'ctx) kernel \<Rightarrow> ref \<Rightarrow> bool" where
  "referenced k r \<longleftrightarrow> r \<in> roots k \<or>
     (\<exists>r' \<in> set [0 ..< next_ref k]. case heap k r' of None \<Rightarrow> False | Some ob \<Rightarrow> r \<in> refs_of ob)"

text \<open>Dropping: an object whose last strong reference is gone is destroyed, with the references it
  holds.  The order does not matter for what remains.\<close>

definition garbage :: "('pt, 'ctx) kernel \<Rightarrow> ref option" where
  "garbage k = find (\<lambda>r. heap k r \<noteq> None \<and> \<not> referenced k r) [0 ..< next_ref k]"

lemma garbage_Some:
  assumes "garbage k = Some r"
  shows "r < next_ref k" and "heap k r \<noteq> None" and "\<not> referenced k r"
  using assms unfolding garbage_def by (auto simp: find_Some_iff)

function collect :: "('pt, 'ctx) kernel \<Rightarrow> ('pt, 'ctx) kernel" where
  "collect k = (case garbage k of None \<Rightarrow> k | Some r \<Rightarrow> collect (k\<lparr>heap := (heap k)(r := None)\<rparr>))"
  by pat_completeness auto
termination
proof (relation "measure (\<lambda>k. card {r. r < next_ref k \<and> heap k r \<noteq> None})")
  fix k :: "('pt, 'ctx) kernel" and r assume "garbage k = Some r"
  from garbage_Some [OF this]
  have "{r'. r' < next_ref k \<and> ((heap k)(r := None)) r' \<noteq> None} \<subset> {r'. r' < next_ref k \<and> heap k r' \<noteq> None}"
    by (auto split: if_splits)
  then show "(k\<lparr>heap := (heap k)(r := None)\<rparr>, k) \<in> measure (\<lambda>k. card {r. r < next_ref k \<and> heap k r \<noteq> None})"
    by (simp add: psubset_card_mono)
qed simp

declare collect.simps [simp del]

subsection \<open>The virtual memory manager\<close>

definition vmm_new :: "target \<Rightarrow> 'pt \<Rightarrow> boot_info \<Rightarrow> 'pt vmm" where
  "vmm_new t pt info =
     \<lparr>kernel_page_table = pt,
      vmm_higher_half_start = higher_half_base t info,
      vmm_physical_mapping_base = physical_mapping_base t info,
      vmm_kernel_dynamic_area_base = kernel_dynamic_area_base t info,
      vmm_kernel_image_base = kernel_image_base t info,
      kernel_dynamic_next_available = kernel_dynamic_area_base t info,
      kernel_end_of_dynamic_area = kernel_image_base t info\<rparr>"

definition physical_to_virtual :: "target \<Rightarrow> 'pt vmm \<Rightarrow> paddr \<Rightarrow> panic + vaddr" where
  "physical_to_virtual t v phys = vaddr_add t (vmm_physical_mapping_base v) phys"

definition alloc_kernel :: "target \<Rightarrow> 'pt vmm \<Rightarrow> usize \<Rightarrow> panic + (vaddr option \<times> 'pt vmm)" where
  "alloc_kernel t v sz =
     rbind (align_up sz (SIZE Size4KiB)) (\<lambda>sz.
       let address = vaddr_new t (kernel_dynamic_next_available v);
           v' = v\<lparr>kernel_dynamic_next_available := kernel_dynamic_next_available v + sz\<rparr> in
       rbind (vaddr_add t address sz) (\<lambda>e.
         if e > kernel_end_of_dynamic_area v then Inr (None, v') else Inr (Some address, v')))"

definition map_kernel ::
  "('pt, 'ctx) platform \<Rightarrow> 'pt vmm \<Rightarrow> pmm \<Rightarrow> paddr \<Rightarrow> usize \<Rightarrow> flags \<Rightarrow> panic + (vaddr option \<times> 'pt vmm \<times> pmm)" where
  "map_kernel p v pm addr sz fl =
     rbind (alloc_kernel (tgt p) v sz) (\<lambda>(r, v).
       case r of
         None \<Rightarrow> Inr (None, v, pm)
       | Some virt \<Rightarrow>
           rbind (map_area p (kernel_page_table v) virt addr sz fl pm) (\<lambda>(res, pt, pm).
             case res of
               Inl e \<Rightarrow> Inl UnwrapFailed
             | Inr u \<Rightarrow> Inr (Some virt, v\<lparr>kernel_page_table := pt\<rparr>, pm)))"

definition KERNEL_STACK_SLOT_SIZE :: usize where
  "KERNEL_STACK_SLOT_SIZE = 0x100000"

definition alloc_kernel_stack ::
  "('pt, 'ctx) platform \<Rightarrow> 'pt vmm \<Rightarrow> pmm \<Rightarrow> usize \<Rightarrow> panic + (stack option \<times> 'pt vmm \<times> pmm)" where
  "alloc_kernel_stack p v pm initial_size =
     rbind (alloc_kernel (tgt p) v KERNEL_STACK_SLOT_SIZE) (\<lambda>(r, v).
     rbind (runwrap r) (\<lambda>bottom.
     rbind (vaddr_add (tgt p) bottom KERNEL_STACK_SLOT_SIZE) (\<lambda>t1.
     rbind (vaddr_sub (tgt p) t1 1) (\<lambda>top.
     rbind (vaddr_sub (tgt p) top initial_size) (\<lambda>b1.
     rbind (vaddr_add (tgt p) b1 1) (\<lambda>sb.
     rbind (udiv initial_size (SIZE Size4KiB)) (\<lambda>count.
     rbind (pmm_alloc (tgt p) pm count) (\<lambda>(phys, pm).
     rbind (map_area p (kernel_page_table v) sb phys initial_size (flags_default\<lparr>writable := True\<rparr>) pm)
       (\<lambda>(res, pt, pm).
         case res of
           Inl e \<Rightarrow> Inl UnwrapFailed
         | Inr u \<Rightarrow> Inr (Some \<lparr>top_of = top, slot_bottom = bottom, stack_bottom = sb, physical_start = phys\<rparr>,
             v\<lparr>kernel_page_table := pt\<rparr>, pm))))))))))"

subsection \<open>Address spaces\<close>

definition USER_STACK_BASE :: vaddr where
  "USER_STACK_BASE = 0x0000000200000000"

definition USER_STACK_SLOT_SIZE :: usize where
  "USER_STACK_SLOT_SIZE = 0x100000"

definition address_space_new ::
  "('pt, 'ctx) platform \<Rightarrow> u64 \<Rightarrow> pmm \<Rightarrow> u64 \<Rightarrow> panic + ('pt address_space \<times> u64 \<times> pmm)" where
  "address_space_new p counter pm owner =
     (let (i, c) = alloc_kernel_object_id counter in
      rbind (new_task_page_tables p pm) (\<lambda>(pt, pm).
        Inr (\<lparr>as_id = i, as_owner = owner, as_state = NotActive, mappings = [], page_table = pt,
              slot_bitmap = 0\<rparr>, c, pm)))"

fun map_backing ::
  "('pt, 'ctx) platform \<Rightarrow> 'pt \<Rightarrow> pmm \<Rightarrow> flags \<Rightarrow> vaddr \<Rightarrow> (paddr \<times> usize) list \<Rightarrow>
   panic + ((map_memory_object_error + unit) \<times> 'pt \<times> pmm)" where
  "map_backing p pt pm fl cur [] = Inr (Inr (), pt, pm)"
| "map_backing p pt pm fl cur ((phys, sz) # bs) =
     rbind (map_area p pt cur phys sz fl pm) (\<lambda>(res, pt, pm).
       case res of
         Inl AlreadyMapped \<Rightarrow> Inr (Inl RegionAlreadyMapped, pt, pm)
       | Inr u \<Rightarrow> rbind (vaddr_add (tgt p) cur sz) (\<lambda>cur. map_backing p pt pm fl cur bs))"

definition as_map_memory_object ::
  "('pt, 'ctx) platform \<Rightarrow> 'pt address_space \<Rightarrow> memory_object \<Rightarrow> ref \<Rightarrow> vaddr \<Rightarrow> pmm \<Rightarrow>
   panic + ((map_memory_object_error + unit) \<times> 'pt address_space \<times> pmm)" where
  "as_map_memory_object p a m r virtual_address pm =
     rbind (map_backing p (page_table a) pm (mo_flags m) virtual_address (backing m)) (\<lambda>(res, pt, pm).
       case res of
         Inl e \<Rightarrow> Inr (Inl e, a\<lparr>page_table := pt\<rparr>, pm)
       | Inr u \<Rightarrow> Inr (Inr (), a\<lparr>page_table := pt, mappings := btree_insert virtual_address r (mappings a)\<rparr>, pm))"

definition alloc_task_slot ::
  "('pt, 'ctx) platform \<Rightarrow> 'pt address_space \<Rightarrow> usize \<Rightarrow> pmm \<Rightarrow>
   panic + (task_slot option \<times> 'pt address_space \<times> pmm)" where
  "alloc_task_slot p a initial_stack_size pm =
     rbind (bitmap_alloc (bits p) (slot_bitmap a) 1) (\<lambda>(r, bm).
       let a = a\<lparr>slot_bitmap := bm\<rparr> in
       case r of
         None \<Rightarrow> Inr (None, a, pm)
       | Some index \<Rightarrow>
           rbind (umul USER_STACK_SLOT_SIZE (of_nat index)) (\<lambda>off.
           rbind (vaddr_add (tgt p) USER_STACK_BASE off) (\<lambda>bottom.
           rbind (vaddr_add (tgt p) bottom USER_STACK_SLOT_SIZE) (\<lambda>t1.
           rbind (vaddr_sub (tgt p) t1 1) (\<lambda>top.
           rbind (vaddr_add (tgt p) top 1) (\<lambda>t2.
           rbind (vaddr_sub (tgt p) t2 initial_stack_size) (\<lambda>sb.
           rbind (udiv initial_stack_size (SIZE Size4KiB)) (\<lambda>count.
           rbind (pmm_alloc (tgt p) pm count) (\<lambda>(phys, pm).
           rbind (map_area p (page_table a) sb phys initial_stack_size
               (flags_default\<lparr>writable := True, user_accessible := True\<rparr>) pm) (\<lambda>(res, pt, pm).
             case res of
               Inl e \<Rightarrow> Inl UnwrapFailed
             | Inr u \<Rightarrow>
                 Inr (Some \<lparr>slot_index = index,
                     user_stack = \<lparr>top_of = top, slot_bottom = bottom, stack_bottom = sb, physical_start = phys\<rparr>\<rparr>,
                   a\<lparr>page_table := pt\<rparr>, pm)))))))))))"

definition as_switch_to :: "'pt address_space \<Rightarrow> panic + 'pt address_space" where
  "as_switch_to a = rbind (rassert (as_state a = NotActive)) (\<lambda>_. Inr (a\<lparr>as_state := Active\<rparr>))"

definition as_switch_from :: "'pt address_space \<Rightarrow> panic + 'pt address_space" where
  "as_switch_from a = rbind (rassert (as_state a = Active)) (\<lambda>_. Inr (a\<lparr>as_state := NotActive\<rparr>))"

subsection \<open>Creating a task\<close>

definition task_new ::
  "('pt, 'ctx) platform \<Rightarrow> ('pt, 'ctx) kernel \<Rightarrow> u64 \<Rightarrow> ref \<Rightarrow> u8 list \<Rightarrow> vaddr \<Rightarrow> handles \<Rightarrow>
   panic + ((task_creation_error + ref) \<times> ('pt, 'ctx) kernel)" where
  "task_new p k owner as_ref nm entry_point hs =
     (let (i, c) = alloc_kernel_object_id (id_counter k); k = k\<lparr>id_counter := c\<rparr> in
      rbind (deref_address_space k as_ref) (\<lambda>a.
      rbind (alloc_task_slot p a 0x8000 (pmm_of k)) (\<lambda>(slot, a, pm).
        let k = (update_object k as_ref (AddressSpaceObj a))\<lparr>pmm_of := pm\<rparr> in
        case slot of
          None \<Rightarrow> Inr (Inl AddressSpaceFull, k)
        | Some s \<Rightarrow>
            rbind (alloc_kernel_stack p (vmm_of k) (pmm_of k) 0x4000) (\<lambda>(st, v, pm).
              let k = k\<lparr>vmm_of := v, pmm_of := pm\<rparr> in
              case st of
                None \<Rightarrow> Inr (Inl NoKernelStackSlots, k)
              | Some kst \<Rightarrow>
                  let (r, k) = alloc_object k (TaskObj
                    \<lparr>t_id = i, t_owner = owner, t_name = nm, t_address_space = as_ref, t_state = Ready,
                     user_slot = s, kernel_stack = kst,
                     context_of = new_task_context p kst (user_stack s) entry_point, t_handles = hs\<rparr>)
                  in Inr (Inr r, k)))))"

end
