(* ===== verification/Kernel_Scheduler.thy ===== *)
theory Kernel_Scheduler
  imports Kernel_State
begin

text \<open>
  \<open>kernel/src/scheduler.rs\<close>: which task runs.  The context switch itself and the polling of kernel
  tasklets belong to the platform and to a crate outside the repository; what a switch does to the
  tasks, the queues and the address spaces is all here.
\<close>

definition set_task_state :: "('pt, 'ctx) kernel \<Rightarrow> ref \<Rightarrow> task_state \<Rightarrow> panic + ('pt, 'ctx) kernel" where
  "set_task_state k r s = rbind (deref_task k r) (\<lambda>t. Inr (update_object k r (TaskObj (t\<lparr>t_state := s\<rparr>))))"

definition switch_space_to :: "('pt, 'ctx) kernel \<Rightarrow> ref \<Rightarrow> panic + ('pt, 'ctx) kernel" where
  "switch_space_to k r =
     rbind (deref_task k r) (\<lambda>t. rbind (deref_address_space k (t_address_space t)) (\<lambda>a.
     rbind (as_switch_to a) (\<lambda>a. Inr (update_object k (t_address_space t) (AddressSpaceObj a)))))"

definition switch_space_from :: "('pt, 'ctx) kernel \<Rightarrow> ref \<Rightarrow> panic + ('pt, 'ctx) kernel" where
  "switch_space_from k r =
     rbind (deref_task k r) (\<lambda>t. rbind (deref_address_space k (t_address_space t)) (\<lambda>a.
     rbind (as_switch_from a) (\<lambda>a. Inr (update_object k (t_address_space t) (AddressSpaceObj a)))))"

definition choose_next :: "('pt, 'ctx) kernel \<Rightarrow> ref option \<times> ('pt, 'ctx) kernel" where
  "choose_next k = (case ready_queue k of [] \<Rightarrow> (None, k) | r # rs \<Rightarrow> (Some r, k\<lparr>ready_queue := rs\<rparr>))"

definition add_task :: "('pt, 'ctx) kernel \<Rightarrow> ref \<Rightarrow> panic + ('pt, 'ctx) kernel" where
  "add_task k r =
     rbind (deref_task k r) (\<lambda>t.
       case t_state t of
         Ready \<Rightarrow> Inr (k\<lparr>ready_queue := ready_queue k @ [r]\<rparr>)
       | Blocked b \<Rightarrow> Inr (k\<lparr>blocked_queue := blocked_queue k @ [r]\<rparr>)
       | Running \<Rightarrow> Inl ExplicitPanic)"

definition drop_to_userspace :: "('pt, 'ctx) kernel \<Rightarrow> ref \<Rightarrow> panic + ('pt, 'ctx) kernel" where
  "drop_to_userspace k r =
     rbind (set_task_state k r Running) (\<lambda>k. switch_space_to (k\<lparr>running_task := Some r\<rparr>) r)"

definition start_scheduling :: "('pt, 'ctx) kernel \<Rightarrow> panic + ('pt, 'ctx) kernel" where
  "start_scheduling k =
     rbind (rassert (running_task k = None)) (\<lambda>_.
       let (next, k) = choose_next k in
       rbind (runwrap next) (\<lambda>r.
       rbind (deref_task k r) (\<lambda>t.
       rbind (rassert (is_ready (t_state t))) (\<lambda>_. drop_to_userspace k r))))"

definition switch_to :: "('pt, 'ctx) kernel \<Rightarrow> task_state \<Rightarrow> ref \<Rightarrow> panic + ('pt, 'ctx) kernel" where
  "switch_to k new_state next_task =
     rbind (runwrap (running_task k)) (\<lambda>current_task.
     rbind (deref_task k current_task) (\<lambda>ct.
     rbind (rassert (is_running (t_state ct))) (\<lambda>_.
     rbind (deref_task k next_task) (\<lambda>nt.
     rbind (rassert (is_ready (t_state nt))) (\<lambda>_.
     rbind (set_task_state (k\<lparr>running_task := Some next_task\<rparr>) next_task Running) (\<lambda>k.
     rbind (case new_state of
         Running \<Rightarrow> Inl ExplicitPanic
       | Ready \<Rightarrow> rbind (set_task_state k current_task Ready) (\<lambda>k.
           Inr (k\<lparr>ready_queue := ready_queue k @ [current_task]\<rparr>))
       | Blocked b \<Rightarrow> rbind (set_task_state k current_task (Blocked b)) (\<lambda>k.
           Inr (k\<lparr>blocked_queue := blocked_queue k @ [current_task]\<rparr>))) (\<lambda>k.
     rbind (switch_space_from k current_task) (\<lambda>k.
       switch_space_to k next_task))))))))"

definition schedule :: "('pt, 'ctx) kernel \<Rightarrow> task_state \<Rightarrow> panic + ('pt, 'ctx) kernel" where
  "schedule k new_state =
     rbind (rassert (running_task k \<noteq> None)) (\<lambda>_.
       let (next, k) = choose_next k in
       case next of None \<Rightarrow> Inr k | Some r \<Rightarrow> switch_to k new_state r)"

subsection \<open>The invariant of the kernel\<close>

text \<open>The type of the object behind a reference, and the address space of the running task.\<close>

definition kind :: "('pt, 'ctx) kernel \<Rightarrow> ref \<Rightarrow> kernel_object_type option" where
  "kind k r = map_option kobj_typ (heap k r)"

definition space_of :: "('pt, 'ctx) kernel \<Rightarrow> ref \<Rightarrow> ref option" where
  "space_of k r = (case heap k r of Some (TaskObj t) \<Rightarrow> Some (t_address_space t) | _ \<Rightarrow> None)"

definition state_of :: "('pt, 'ctx) kernel \<Rightarrow> ref \<Rightarrow> task_state option" where
  "state_of k r = (case heap k r of Some (TaskObj t) \<Rightarrow> Some (t_state t) | _ \<Rightarrow> None)"

definition active :: "('pt, 'ctx) kernel \<Rightarrow> ref \<Rightarrow> bool" where
  "active k r \<longleftrightarrow> (case heap k r of Some (AddressSpaceObj a) \<Rightarrow> as_state a = Active | _ \<Rightarrow> False)"

definition peer_of :: "('pt, 'ctx) kernel \<Rightarrow> ref \<Rightarrow> ref option" where
  "peer_of k r = (case heap k r of Some (ChannelObj c) \<Rightarrow> other_end c | _ \<Rightarrow> None)"

text \<open>A message is no longer than a task may send, and its objects come first, without gaps.\<close>

definition message_ok :: "message \<Rightarrow> bool" where
  "message_ok m \<longleftrightarrow> length (msg_bytes m) \<le> unat CHANNEL_MAX_NUM_BYTES \<and> (\<exists>rs. length rs \<le> CHANNEL_MAX_NUM_HANDLES \<and>
     handle_objects m = map Some rs @ replicate (CHANNEL_MAX_NUM_HANDLES - length rs) None)"

fun object_ok :: "('pt, 'ctx) kernel \<Rightarrow> ('pt, 'ctx) kobj \<Rightarrow> bool" where
  "object_ok k (TaskObj t) \<longleftrightarrow> kind k (t_address_space t) = Some TAddressSpace \<and>
     (\<forall>r \<in> ran (table (t_handles t)). kind k r \<noteq> None) \<and>
     (\<forall>e. t_state t = Blocked (OnEvent e) \<longrightarrow> kind k e = Some TEvent)"
| "object_ok k (AddressSpaceObj a) \<longleftrightarrow> (\<forall>(v, r) \<in> set (mappings a). kind k r = Some TMemoryObject)"
| "object_ok k (ChannelObj c) \<longleftrightarrow>
     (\<forall>m \<in> set (messages c). message_ok m \<and> (\<forall>r \<in> set (message_refs m). kind k r \<noteq> None)) \<and>
     (\<forall>p. other_end c = Some p \<longrightarrow> p < next_ref k)"
| "object_ok k ob \<longleftrightarrow> True"

definition heap_ok :: "('pt, 'ctx) kernel \<Rightarrow> bool" where
  "heap_ok k \<longleftrightarrow> (\<forall>r ob. heap k r = Some ob \<longrightarrow> r < next_ref k \<and> object_ok k ob)"

definition peers_ok :: "('pt, 'ctx) kernel \<Rightarrow> bool" where
  "peers_ok k \<longleftrightarrow> (\<forall>r p. peer_of k r = Some p \<and> kind k p \<noteq> None \<longrightarrow> p \<noteq> r \<and> peer_of k p = Some r)"

definition roots_ok :: "('pt, 'ctx) kernel \<Rightarrow> bool" where
  "roots_ok k \<longleftrightarrow>
     (\<forall>i r. framebuffer k = Some (i, r) \<longrightarrow> kind k r = Some TMemoryObject) \<and>
     (\<forall>ds a d r. pci_info k = Some ds \<and> (a, d) \<in> set ds \<and> pci_interrupt d = Some r \<longrightarrow> kind k r = Some TInterrupt) \<and>
     (\<forall>r \<in> ran (in_call k). kind k r = Some TEvent \<or> kind k r = Some TInterrupt)"

text \<open>Exactly the running task is in the state \<open>Running\<close> and exactly its address space is active; every
  queue holds tasks in the matching state, and no task is queued twice.\<close>

definition sched_ok :: "('pt, 'ctx) kernel \<Rightarrow> bool" where
  "sched_ok k \<longleftrightarrow>
     (\<forall>r. state_of k r = Some Running \<longleftrightarrow> running_task k = Some r) \<and>
     (\<forall>r. active k r \<longleftrightarrow> (\<exists>t. running_task k = Some t \<and> space_of k t = Some r)) \<and>
     (\<forall>r \<in> set (ready_queue k). state_of k r = Some Ready) \<and>
     (\<forall>r \<in> set (blocked_queue k). \<exists>b. state_of k r = Some (Blocked b)) \<and>
     distinct (ready_queue k @ blocked_queue k)"

definition kernel_inv :: "('pt, 'ctx) kernel \<Rightarrow> bool" where
  "kernel_inv k \<longleftrightarrow> heap_ok k \<and> peers_ok k \<and> roots_ok k \<and> sched_ok k"

subsection \<open>Updating one object\<close>

named_theorems kernel_views \<open>what an update of one object does to the views of the state\<close>

lemma update_object_fields [simp]:
  "next_ref (update_object k r ob) = next_ref k" "running_task (update_object k r ob) = running_task k"
  "ready_queue (update_object k r ob) = ready_queue k" "blocked_queue (update_object k r ob) = blocked_queue k"
  "framebuffer (update_object k r ob) = framebuffer k" "pci_info (update_object k r ob) = pci_info k"
  "in_call (update_object k r ob) = in_call k"
  by (simp_all add: update_object_def)

lemma heap_update_object [simp]: "heap (update_object k r ob) = (heap k)(r \<mapsto> ob)"
  by (simp add: update_object_def)

text \<open>Every view depends on the heap only.\<close>

lemma views_heap:
  assumes "heap k' = heap k"
  shows "kind k' = kind k" and "space_of k' = space_of k" and "state_of k' = state_of k"
    and "active k' = active k" and "peer_of k' = peer_of k"
  using assms by (auto simp: fun_eq_iff kind_def space_of_def state_of_def active_def peer_of_def)

lemma kind_update: "heap k r = Some ob \<Longrightarrow> kobj_typ ob' = kobj_typ ob \<Longrightarrow> kind (update_object k r ob') = kind k"
  by (auto simp: kind_def fun_eq_iff)

lemma view_update [kernel_views]:
  "space_of (update_object k r ob) r' =
     (if r' = r then (case ob of TaskObj t \<Rightarrow> Some (t_address_space t) | _ \<Rightarrow> None) else space_of k r')"
  "state_of (update_object k r ob) r' =
     (if r' = r then (case ob of TaskObj t \<Rightarrow> Some (t_state t) | _ \<Rightarrow> None) else state_of k r')"
  "active (update_object k r ob) r' =
     (if r' = r then (case ob of AddressSpaceObj a \<Rightarrow> as_state a = Active | _ \<Rightarrow> False) else active k r')"
  "peer_of (update_object k r ob) r' =
     (if r' = r then (case ob of ChannelObj c \<Rightarrow> other_end c | _ \<Rightarrow> None) else peer_of k r')"
  by (auto simp: space_of_def state_of_def active_def peer_of_def)

lemma view_cases:
  "state_of k r = Some s \<longleftrightarrow> (\<exists>t. heap k r = Some (TaskObj t) \<and> t_state t = s)"
  "space_of k r = Some a \<longleftrightarrow> (\<exists>t. heap k r = Some (TaskObj t) \<and> t_address_space t = a)"
  "active k r \<longleftrightarrow> (\<exists>a. heap k r = Some (AddressSpaceObj a) \<and> as_state a = Active)"
  "peer_of k r = Some p \<longleftrightarrow> (\<exists>c. heap k r = Some (ChannelObj c) \<and> other_end c = Some p)"
  "kind k r = None \<longleftrightarrow> heap k r = None"
  by (auto simp: state_of_def space_of_def active_def peer_of_def kind_def split: option.splits kobj.splits)

lemma kind_Some:
  "kind k r = Some TTask \<longleftrightarrow> (\<exists>t. heap k r = Some (TaskObj t))"
  "kind k r = Some TAddressSpace \<longleftrightarrow> (\<exists>a. heap k r = Some (AddressSpaceObj a))"
  "kind k r = Some TMemoryObject \<longleftrightarrow> (\<exists>m. heap k r = Some (MemoryObj m))"
  "kind k r = Some TChannel \<longleftrightarrow> (\<exists>c. heap k r = Some (ChannelObj c))"
  "kind k r = Some TEvent \<longleftrightarrow> (\<exists>e. heap k r = Some (EventObj e))"
  "kind k r = Some TInterrupt \<longleftrightarrow> (\<exists>i. heap k r = Some (InterruptObj i))"
proof -
  have "kobj_typ ob = TTask \<longleftrightarrow> (\<exists>t. ob = TaskObj t)" "kobj_typ ob = TAddressSpace \<longleftrightarrow> (\<exists>a. ob = AddressSpaceObj a)"
    "kobj_typ ob = TMemoryObject \<longleftrightarrow> (\<exists>m. ob = MemoryObj m)" "kobj_typ ob = TChannel \<longleftrightarrow> (\<exists>c. ob = ChannelObj c)"
    "kobj_typ ob = TEvent \<longleftrightarrow> (\<exists>e. ob = EventObj e)" "kobj_typ ob = TInterrupt \<longleftrightarrow> (\<exists>i. ob = InterruptObj i)"
    for ob :: "('a, 'b) kobj" by (cases ob; simp)+
  then show "kind k r = Some TTask \<longleftrightarrow> (\<exists>t. heap k r = Some (TaskObj t))"
    "kind k r = Some TAddressSpace \<longleftrightarrow> (\<exists>a. heap k r = Some (AddressSpaceObj a))"
    "kind k r = Some TMemoryObject \<longleftrightarrow> (\<exists>m. heap k r = Some (MemoryObj m))"
    "kind k r = Some TChannel \<longleftrightarrow> (\<exists>c. heap k r = Some (ChannelObj c))"
    "kind k r = Some TEvent \<longleftrightarrow> (\<exists>e. heap k r = Some (EventObj e))"
    "kind k r = Some TInterrupt \<longleftrightarrow> (\<exists>i. heap k r = Some (InterruptObj i))"
    by (auto simp: kind_def)
qed

lemma object_ok_cong:
  "(\<And>r. kind k r \<noteq> None \<Longrightarrow> kind k' r = kind k r) \<Longrightarrow> next_ref k \<le> next_ref k' \<Longrightarrow> object_ok k ob \<Longrightarrow> object_ok k' ob"
proof (cases ob)
  case (TaskObj t)
  assume "\<And>r. kind k r \<noteq> None \<Longrightarrow> kind k' r = kind k r" "object_ok k ob"
  then show ?thesis using TaskObj by (fastforce)
next
  case (AddressSpaceObj a)
  assume "\<And>r. kind k r \<noteq> None \<Longrightarrow> kind k' r = kind k r" "object_ok k ob"
  then show ?thesis using AddressSpaceObj by fastforce
next
  case (ChannelObj c)
  assume "\<And>r. kind k r \<noteq> None \<Longrightarrow> kind k' r = kind k r" "next_ref k \<le> next_ref k'" "object_ok k ob"
  then show ?thesis using ChannelObj by fastforce
qed auto

lemma heap_okD: "heap_ok k \<Longrightarrow> heap k r = Some ob \<Longrightarrow> object_ok k ob"
  unfolding heap_ok_def by blast

lemma heap_ok_update:
  assumes "heap_ok k" and "heap k r = Some ob" and "kobj_typ ob' = kobj_typ ob" and "object_ok k ob'"
  shows "heap_ok (update_object k r ob')"
proof -
  have "object_ok (update_object k r ob') o'" if "object_ok k o'" for o'
    by (rule object_ok_cong [OF _ _ that]) (simp_all add: kind_update [OF assms(2,3)])
  then show ?thesis using assms by (auto simp: heap_ok_def)
qed

lemma heap_ok_frame:
  assumes "heap k' = heap k" and "next_ref k' = next_ref k"
  shows "heap_ok k' = heap_ok k"
proof -
  have "object_ok k' ob = object_ok k ob" for ob
    using object_ok_cong [of k k' ob] object_ok_cong [of k' k ob] views_heap(1) [OF assms(1)] assms(2) by auto
  then show ?thesis using assms by (simp add: heap_ok_def)
qed

text \<open>An update that keeps what the other objects and the scheduler rely on.\<close>

definition same_core :: "('pt, 'ctx) kobj \<Rightarrow> ('pt, 'ctx) kobj \<Rightarrow> bool" where
  "same_core ob ob' \<longleftrightarrow> kobj_typ ob' = kobj_typ ob \<and>
     (case ob of
        TaskObj t \<Rightarrow> (\<forall>t'. ob' = TaskObj t' \<longrightarrow> t_state t' = t_state t \<and> t_address_space t' = t_address_space t)
      | AddressSpaceObj a \<Rightarrow> (\<forall>a'. ob' = AddressSpaceObj a' \<longrightarrow> as_state a' = as_state a)
      | ChannelObj c \<Rightarrow> (\<forall>c'. ob' = ChannelObj c' \<longrightarrow> other_end c' = other_end c)
      | _ \<Rightarrow> True)"

lemma same_core_typ: "same_core ob ob' \<Longrightarrow> kobj_typ ob' = kobj_typ ob"
  by (simp add: same_core_def)

lemma update_views:
  assumes "heap k r = Some ob" and "same_core ob ob'"
  shows "kind (update_object k r ob') = kind k" and "space_of (update_object k r ob') = space_of k"
    and "state_of (update_object k r ob') = state_of k" and "active (update_object k r ob') = active k"
    and "peer_of (update_object k r ob') = peer_of k"
proof -
  show "kind (update_object k r ob') = kind k" using assms by (simp add: kind_update same_core_typ)
  have "space_of (update_object k r ob') r' = space_of k r'" "state_of (update_object k r ob') r' = state_of k r'"
    "active (update_object k r ob') r' = active k r'" "peer_of (update_object k r ob') r' = peer_of k r'" for r'
    using assms unfolding view_update same_core_def
    by (cases ob; cases ob'; simp add: space_of_def state_of_def active_def peer_of_def)+
  then show "space_of (update_object k r ob') = space_of k" "state_of (update_object k r ob') = state_of k"
    "active (update_object k r ob') = active k" "peer_of (update_object k r ob') = peer_of k" by auto
qed

lemma kernel_inv_update:
  assumes "kernel_inv k" and "heap k r = Some ob" and "same_core ob ob'" and "object_ok k ob'"
  shows "kernel_inv (update_object k r ob')"
proof -
  have "peers_ok (update_object k r ob') = peers_ok k" "roots_ok (update_object k r ob') = roots_ok k"
    "sched_ok (update_object k r ob') = sched_ok k"
    by (simp_all add: peers_ok_def roots_ok_def sched_ok_def update_views [OF assms(2,3)] del: heap_update_object)
  then show ?thesis
    using assms(1) heap_ok_update [OF _ assms(2) same_core_typ [OF assms(3)] assms(4)] by (simp add: kernel_inv_def)
qed

subsection \<open>Switching tasks\<close>

text \<open>What the steps of a switch leave alone.\<close>

definition steady :: "('pt, 'ctx) kernel \<Rightarrow> ('pt, 'ctx) kernel \<Rightarrow> bool" where
  "steady k k' \<longleftrightarrow> k' = k\<lparr>heap := heap k'\<rparr> \<and> kind k' = kind k \<and> space_of k' = space_of k \<and> peer_of k' = peer_of k"

lemma steady_trans: "steady k k' \<Longrightarrow> steady k' k'' \<Longrightarrow> steady k k''"
  by (metis (no_types, lifting) kernel.update_convs(1) kernel.surjective steady_def)

lemma steady_fields:
  assumes "steady k k'"
  shows "next_ref k' = next_ref k" and "running_task k' = running_task k" and "ready_queue k' = ready_queue k"
    and "blocked_queue k' = blocked_queue k" and "framebuffer k' = framebuffer k" and "pci_info k' = pci_info k" and "in_call k' = in_call k"
proof -
  have "k' = k\<lparr>heap := heap k'\<rparr>" using assms by (simp add: steady_def)
  then show "next_ref k' = next_ref k" "running_task k' = running_task k" "ready_queue k' = ready_queue k"
    "blocked_queue k' = blocked_queue k" "framebuffer k' = framebuffer k" "pci_info k' = pci_info k" "in_call k' = in_call k"
    by (metis kernel.select_convs kernel.surjective kernel.update_convs(1))+
qed

lemma steady_update:
  "heap k r = Some ob \<Longrightarrow> kobj_typ ob' = kobj_typ ob \<Longrightarrow>
   (\<And>t. ob = TaskObj t \<Longrightarrow> \<exists>t'. ob' = TaskObj t' \<and> t_address_space t' = t_address_space t) \<Longrightarrow>
   (\<And>c. ob = ChannelObj c \<Longrightarrow> \<exists>c'. ob' = ChannelObj c' \<and> other_end c' = other_end c) \<Longrightarrow>
   steady k (update_object k r ob')"
  unfolding steady_def
  by (cases ob; cases ob'; simp add: kind_update view_update fun_eq_iff space_of_def peer_of_def)
    (simp_all add: update_object_def)

lemma set_task_state_ok:
  assumes "heap_ok k" and "heap k r = Some (TaskObj t)" and "\<And>e. s = Blocked (OnEvent e) \<Longrightarrow> kind k e = Some TEvent"
  obtains k' where "set_task_state k r s = Inr k'" and "heap_ok k'" and "steady k k'"
    and "active k' = active k" and "state_of k' = (state_of k)(r \<mapsto> s)"
proof
  let ?k = "update_object k r (TaskObj (t\<lparr>t_state := s\<rparr>))"
  have ok: "object_ok k (TaskObj t)" using assms(1,2) by (rule heap_okD)
  show "set_task_state k r s = Inr ?k" using assms(2) by (simp add: set_task_state_def deref_task_def deref_def as_task_def)
  show "heap_ok ?k" using assms(1,2) by (rule heap_ok_update) (use ok assms(3) in auto)
  show "steady k ?k" using assms(2) by (rule steady_update) auto
  show "active ?k = active k" "state_of ?k = (state_of k)(r \<mapsto> s)"
    using assms(2) by (auto simp: view_update fun_eq_iff active_def)
qed

lemma switch_space_ok:
  assumes "heap_ok k" and "space_of k r = Some a"
  shows "active k a \<Longrightarrow> \<exists>k'. switch_space_from k r = Inr k' \<and> heap_ok k' \<and> steady k k' \<and>
      active k' = (active k)(a := False) \<and> state_of k' = state_of k" (is "_ \<Longrightarrow> ?from")
    and "\<not> active k a \<Longrightarrow> \<exists>k'. switch_space_to k r = Inr k' \<and> heap_ok k' \<and> steady k k' \<and>
      active k' = (active k)(a := True) \<and> state_of k' = state_of k" (is "_ \<Longrightarrow> ?to")
proof -
  obtain t where t: "heap k r = Some (TaskObj t)" "t_address_space t = a"
    using assms(2) by (auto simp: view_cases)
  then obtain sp where sp: "heap k a = Some (AddressSpaceObj sp)"
    using assms(1) by (fastforce simp: heap_ok_def kind_Some)
  have deref: "deref_task k r = Inr t" "deref_address_space k a = Inr sp"
    using t sp by (simp_all add: deref_task_def deref_address_space_def deref_def as_task_def as_address_space_def)
  have up: "heap_ok (update_object k a (AddressSpaceObj (sp\<lparr>as_state := s\<rparr>)))"
    "steady k (update_object k a (AddressSpaceObj (sp\<lparr>as_state := s\<rparr>)))"
    "state_of (update_object k a (AddressSpaceObj (sp\<lparr>as_state := s\<rparr>))) = state_of k"
    "active (update_object k a (AddressSpaceObj (sp\<lparr>as_state := s\<rparr>))) = (active k)(a := s = Active)" for s
  proof -
    show "heap_ok (update_object k a (AddressSpaceObj (sp\<lparr>as_state := s\<rparr>)))"
      using assms(1) sp by (rule heap_ok_update) (use assms(1) sp in \<open>force simp: heap_ok_def\<close>)+
    show "steady k (update_object k a (AddressSpaceObj (sp\<lparr>as_state := s\<rparr>)))" using sp by (rule steady_update) auto
    show "state_of (update_object k a (AddressSpaceObj (sp\<lparr>as_state := s\<rparr>))) = state_of k"
      "active (update_object k a (AddressSpaceObj (sp\<lparr>as_state := s\<rparr>))) = (active k)(a := s = Active)"
      using sp by (auto simp: view_update fun_eq_iff state_of_def)
  qed
  have state: "active k a \<longleftrightarrow> as_state sp = Active" using sp by (simp add: active_def)
  show ?from if "active k a"
    using that deref up [of NotActive] t(2) by (simp add: state switch_space_from_def as_switch_from_def)
  show ?to if "\<not> active k a"
    using that deref up [of Active] t(2) by (cases "as_state sp") (simp_all add: state switch_space_to_def as_switch_to_def)
qed

text \<open>The state that a task is put in when another one takes over.\<close>

definition parked :: "('pt, 'ctx) kernel \<Rightarrow> task_state \<Rightarrow> bool" where
  "parked k s \<longleftrightarrow> (case s of Running \<Rightarrow> False | Ready \<Rightarrow> True | Blocked (OnEvent e) \<Rightarrow> kind k e = Some TEvent)"

lemma switch_to_ok:
  assumes inv: "heap_ok k" and running: "running_task k = Some me" and park: "parked k s"
    and me: "state_of k me = Some Running" "space_of k me = Some a" and n: "state_of k n = Some Ready" "space_of k n = Some a'"
    and act: "active k = (\<lambda>r. r = a)"
  obtains k' where "switch_to k s n = Inr k'" and "heap_ok k'" and "next_ref k' = next_ref k"
    and "kind k' = kind k" and "space_of k' = space_of k" and "peer_of k' = peer_of k"
    and "active k' = (\<lambda>r. r = a')" and "state_of k' = (state_of k)(n \<mapsto> Running, me \<mapsto> s)"
    and "running_task k' = Some n" and "ready_queue k' = ready_queue k @ (if s = Ready then [me] else [])"
    and "blocked_queue k' = blocked_queue k @ (if s = Ready then [] else [me])"
    and "framebuffer k' = framebuffer k" and "pci_info k' = pci_info k" and "in_call k' = in_call k"
proof -
  obtain tm tn where t: "heap k me = Some (TaskObj tm)" "t_state tm = Running" "heap k n = Some (TaskObj tn)" "t_state tn = Ready"
    using me(1) n(1) by (auto simp: view_cases)
  have neq: "me \<noteq> n" using t by auto
  let ?k0 = "k\<lparr>running_task := Some n\<rparr>"
  have v0: "kind ?k0 = kind k" "space_of ?k0 = space_of k" "state_of ?k0 = state_of k" "active ?k0 = active k"
      "peer_of ?k0 = peer_of k" "heap_ok ?k0"
    using views_heap [of ?k0 k] heap_ok_frame [of ?k0 k] inv by simp_all
  obtain k1 where k1: "set_task_state ?k0 n Running = Inr k1" "heap_ok k1" "steady ?k0 k1" "active k1 = active ?k0"
      "state_of k1 = (state_of ?k0)(n \<mapsto> Running)"
    using set_task_state_ok [OF v0(6), of n tn Running] t(3) by auto
  have "state_of k1 me = Some Running" using k1(5) me(1) v0(3) neq by simp
  then obtain tm' where tm': "heap k1 me = Some (TaskObj tm')" by (auto simp: view_cases)
  have "kind k1 = kind k" using k1(3) v0(1) by (simp add: steady_def)
  then have ev: "kind k1 e = Some TEvent" if "s = Blocked (OnEvent e)" for e using park that by (simp add: parked_def)
  obtain k2 where k2: "set_task_state k1 me s = Inr k2" "heap_ok k2" "steady k1 k2" "active k2 = active k1"
      "state_of k2 = (state_of k1)(me \<mapsto> s)"
    using set_task_state_ok [OF k1(2) tm' ev] by blast
  let ?k3 = "k2\<lparr>ready_queue := ready_queue k @ (if s = Ready then [me] else []),
      blocked_queue := blocked_queue k @ (if s = Ready then [] else [me])\<rparr>"
  have st: "steady ?k0 k2" using steady_trans [OF k1(3) k2(3)] .
  note f2 = steady_fields [OF st, simplified]
  have park': "(case s of Running \<Rightarrow> Inl ExplicitPanic
       | Ready \<Rightarrow> rbind (set_task_state k1 me Ready) (\<lambda>k. Inr (k\<lparr>ready_queue := ready_queue k @ [me]\<rparr>))
       | Blocked b \<Rightarrow> rbind (set_task_state k1 me (Blocked b)) (\<lambda>k. Inr (k\<lparr>blocked_queue := blocked_queue k @ [me]\<rparr>))) = Inr ?k3"
    using park k2(1) f2(3,4) by (cases s) (simp_all add: parked_def)
  have v3: "kind ?k3 = kind k" "space_of ?k3 = space_of k" "state_of ?k3 = (state_of k)(n \<mapsto> Running, me \<mapsto> s)"
      "active ?k3 = active k" "peer_of ?k3 = peer_of k" "heap_ok ?k3"
    using views_heap [of ?k3 k2] heap_ok_frame [of ?k3 k2] k2(2,4,5) k1(4,5) st v0 by (simp_all add: steady_def)
  have sp3: "space_of ?k3 me = Some a" "active ?k3 a" using v3 me(2) act by simp_all
  obtain k4 where k4: "switch_space_from ?k3 me = Inr k4" "heap_ok k4" "steady ?k3 k4"
      "active k4 = (active ?k3)(a := False)" "state_of k4 = state_of ?k3"
    using switch_space_ok(1) [OF v3(6) sp3] by blast
  have sp4: "space_of k4 n = Some a'" "\<not> active k4 a'"
    using k4(3,4) v3(2,4) n(2) act by (auto simp: steady_def)
  obtain k5 where k5: "switch_space_to k4 n = Inr k5" "heap_ok k5" "steady k4 k5"
      "active k5 = (active k4)(a' := True)" "state_of k5 = state_of k4"
    using switch_space_ok(2) [OF k4(2) sp4] by blast
  have st5: "steady ?k3 k5" using steady_trans [OF k4(3) k5(3)] .
  note f5 = steady_fields [OF st5, simplified]
  show ?thesis
  proof
    have "deref_task k me = Inr tm" "deref_task k n = Inr tn"
      using t by (simp_all add: deref_task_def deref_def as_task_def)
    then show "switch_to k s n = Inr k5"
      unfolding switch_to_def running using t k1(1) park' k4(1) k5(1) by (simp add: is_ready_def is_running_def)
    show "heap_ok k5" by fact
    show "kind k5 = kind k" "space_of k5 = space_of k" "peer_of k5 = peer_of k"
      using st5 v3 by (simp_all add: steady_def)
    show "active k5 = (\<lambda>r. r = a')" using k5(4) k4(4) v3(4) act by (simp add: fun_eq_iff)
    show "state_of k5 = (state_of k)(n \<mapsto> Running, me \<mapsto> s)" using k5(5) k4(5) v3(3) by simp
  qed (use f2 f5 in simp_all)
qed

lemma choose_next_cons: "ready_queue k = r # rs \<Longrightarrow> choose_next k = (Some r, k\<lparr>ready_queue := rs\<rparr>)"
  and choose_next_nil: "ready_queue k = [] \<Longrightarrow> choose_next k = (None, k)"
  by (simp_all add: choose_next_def)

lemma running_views:
  assumes "kernel_inv k" and "running_task k = Some me"
  obtains a where "state_of k me = Some Running" and "space_of k me = Some a" and "active k = (\<lambda>r. r = a)"
proof -
  have st: "state_of k me = Some Running" using assms by (simp add: kernel_inv_def sched_ok_def)
  then obtain a where sp: "space_of k me = Some a" by (auto simp: view_cases)
  have "active k r \<longleftrightarrow> r = a" for r using assms sp by (auto simp: kernel_inv_def sched_ok_def)
  then show thesis using that st sp by blast
qed

lemma schedule_ok:
  assumes inv: "kernel_inv k" and me: "running_task k = Some me" and park: "parked k s"
  obtains k' where "schedule k s = Inr k'" and "kernel_inv k'" and "kind k' = kind k" and "next_ref k' = next_ref k"
    and "ready_queue k = [] \<Longrightarrow> k' = k"
    and "\<And>n q. ready_queue k = n # q \<Longrightarrow> running_task k' = Some n \<and> state_of k' me = Some s \<and>
      ready_queue k' = q @ (if s = Ready then [me] else []) \<and>
      blocked_queue k' = blocked_queue k @ (if s = Ready then [] else [me])"
proof (cases "ready_queue k")
  case Nil
  then show ?thesis using that inv me by (simp add: schedule_def choose_next_def)
next
  case (Cons n q)
  obtain a where a: "state_of k me = Some Running" "space_of k me = Some a" "active k = (\<lambda>r. r = a)"
    using running_views [OF inv me] by blast
  have sched: "sched_ok k" and hp: "heap_ok k" and peers: "peers_ok k" and roots: "roots_ok k"
    using inv by (simp_all add: kernel_inv_def)
  have n: "state_of k n = Some Ready" using sched Cons by (simp add: sched_ok_def)
  then obtain a' where a': "space_of k n = Some a'" by (auto simp: view_cases)
  let ?k = "k\<lparr>ready_queue := q\<rparr>"
  have v: "kind ?k = kind k" "space_of ?k = space_of k" "state_of ?k = state_of k" "active ?k = active k"
      "peer_of ?k = peer_of k" "heap_ok ?k"
    using views_heap [of ?k k] heap_ok_frame [of ?k k] hp by simp_all
  have park': "parked ?k s" using park v(1) by (simp add: parked_def split: task_state.splits task_block.splits)
  obtain k' where k': "switch_to ?k s n = Inr k'" "heap_ok k'" "next_ref k' = next_ref k" "kind k' = kind k"
      "space_of k' = space_of k" "peer_of k' = peer_of k" "active k' = (\<lambda>r. r = a')"
      "state_of k' = (state_of k)(n \<mapsto> Running, me \<mapsto> s)" "running_task k' = Some n"
      "ready_queue k' = q @ (if s = Ready then [me] else [])"
      "blocked_queue k' = blocked_queue k @ (if s = Ready then [] else [me])"
      "framebuffer k' = framebuffer k" "pci_info k' = pci_info k" "in_call k' = in_call k"
    by (rule switch_to_ok [of ?k me s a n a']) (use me park' a n a' v in simp_all)
  have neq: "me \<noteq> n" using a(1) n by auto
  have q: "me \<notin> set q" "me \<notin> set (blocked_queue k)" "n \<notin> set q" "n \<notin> set (blocked_queue k)"
  proof -
    have "state_of k r = Some Ready" if "r \<in> set q" for r using sched Cons that by (simp add: sched_ok_def)
    then show "me \<notin> set q" using a(1) by fastforce
    have "\<exists>b. state_of k r = Some (Blocked b)" if "r \<in> set (blocked_queue k)" for r
      using sched that by (simp add: sched_ok_def)
    then show "me \<notin> set (blocked_queue k)" using a(1) by fastforce
    show "n \<notin> set q" "n \<notin> set (blocked_queue k)" using sched Cons by (simp_all add: sched_ok_def)
  qed
  have s: "s \<noteq> Running" using park by (cases s) (simp_all add: parked_def)
  have "peers_ok k'" "roots_ok k'"
    using peers roots unfolding peers_ok_def roots_ok_def k'(4,6,12-14) .
  moreover have "sched_ok k'"
    unfolding sched_ok_def
  proof (intro conjI allI ballI)
    show "state_of k' r = Some Running \<longleftrightarrow> running_task k' = Some r" for r
      using sched me neq s by (auto simp: sched_ok_def k'(8,9))
    show "active k' r \<longleftrightarrow> (\<exists>t. running_task k' = Some t \<and> space_of k' t = Some r)" for r
      using a' by (auto simp: k'(5,7,9))
    show "state_of k' r = Some Ready" if "r \<in> set (ready_queue k')" for r
      using that sched Cons q by (auto simp: sched_ok_def k'(8,10) split: if_splits)
    show "\<exists>b. state_of k' r = Some (Blocked b)" if "r \<in> set (blocked_queue k')" for r
    proof (cases "r = me")
      case True
      then have "s \<noteq> Ready" using that q by (auto simp: k'(11) split: if_splits)
      then show ?thesis using s True by (cases s) (simp_all add: k'(8))
    next
      case False
      then show ?thesis using that sched q by (auto simp: sched_ok_def k'(8,11) split: if_splits)
    qed
    show "distinct (ready_queue k' @ blocked_queue k')"
      using sched Cons q by (auto simp: sched_ok_def k'(10,11))
  qed
  ultimately have "kernel_inv k'" using k'(2) by (simp add: kernel_inv_def)
  moreover have "schedule k s = Inr k'" using Cons me k'(1) by (simp add: schedule_def choose_next_def)
  ultimately show ?thesis using that [of k'] Cons k'(3,4,8-11) by simp
qed

text \<open>Starting the first task, and adding a new one.\<close>

lemma add_task_ok:
  assumes "kernel_inv k" and "state_of k r = Some Ready" and "r \<notin> set (ready_queue k)"
  shows "add_task k r = Inr (k\<lparr>ready_queue := ready_queue k @ [r]\<rparr>)" and "kernel_inv (k\<lparr>ready_queue := ready_queue k @ [r]\<rparr>)"
proof -
  let ?k = "k\<lparr>ready_queue := ready_queue k @ [r]\<rparr>"
  show "add_task k r = Inr ?k"
    using assms(2) by (auto simp: add_task_def deref_task_def deref_def as_task_def view_cases)
  note v = views_heap [of ?k k, simplified]
  have "r \<notin> set (blocked_queue k)" using assms(1,2) by (auto simp: kernel_inv_def sched_ok_def)
  then have "sched_ok ?k" using assms by (auto simp: kernel_inv_def sched_ok_def v)
  moreover have "peers_ok ?k = peers_ok k" "roots_ok ?k = roots_ok k"
    unfolding peers_ok_def roots_ok_def v by simp_all
  ultimately show "kernel_inv ?k" using assms(1) heap_ok_frame [of ?k k] by (simp add: kernel_inv_def)
qed

lemma start_scheduling_ok:
  assumes inv: "kernel_inv k" and idle: "running_task k = None" and q: "ready_queue k = r # rs"
  obtains k' where "start_scheduling k = Inr k'" and "kernel_inv k'" and "running_task k' = Some r" and "ready_queue k' = rs"
proof -
  have sched: "sched_ok k" and hp: "heap_ok k" and peers: "peers_ok k" and roots: "roots_ok k"
    using inv by (simp_all add: kernel_inv_def)
  have r: "state_of k r = Some Ready" using sched q by (simp add: sched_ok_def)
  then obtain t where t: "heap k r = Some (TaskObj t)" "t_state t = Ready" by (auto simp: view_cases)
  then have a: "space_of k r = Some (t_address_space t)" by (simp add: space_of_def)
  let ?k0 = "k\<lparr>ready_queue := rs\<rparr>"
  note v0 = views_heap [of ?k0 k, simplified]
  have hp0: "heap_ok ?k0" using heap_ok_frame [of ?k0 k] hp by simp
  obtain k1 where k1: "set_task_state ?k0 r Running = Inr k1" "heap_ok k1" "steady ?k0 k1" "active k1 = active ?k0"
      "state_of k1 = (state_of ?k0)(r \<mapsto> Running)"
    using set_task_state_ok [OF hp0, of r t Running] t(1) by auto
  let ?k2 = "k1\<lparr>running_task := Some r\<rparr>"
  note v2 = views_heap [of ?k2 k1, simplified]
  have hp2: "heap_ok ?k2" using heap_ok_frame [of ?k2 k1] k1(2) by simp
  have none: "active k = (\<lambda>_. False)" using sched idle by (simp add: sched_ok_def fun_eq_iff)
  have sp2: "space_of ?k2 r = Some (t_address_space t)" "\<not> active ?k2 (t_address_space t)"
    using a k1(3,4) none by (simp_all add: v2 v0 steady_def)
  obtain k' where k': "switch_space_to ?k2 r = Inr k'" "heap_ok k'" "steady ?k2 k'"
      "active k' = (active ?k2)(t_address_space t := True)" "state_of k' = state_of ?k2"
    using switch_space_ok(2) [OF hp2 sp2] by blast
  note f1 = steady_fields [OF k1(3), simplified] and f = steady_fields [OF k'(3), simplified]
  have view: "kind k' = kind k" "space_of k' = space_of k" "peer_of k' = peer_of k"
      "state_of k' = (state_of k)(r \<mapsto> Running)" "active k' = (\<lambda>x. x = t_address_space t)"
      "running_task k' = Some r" "ready_queue k' = rs" "blocked_queue k' = blocked_queue k"
      "framebuffer k' = framebuffer k" "pci_info k' = pci_info k" "in_call k' = in_call k"
    using k'(3-5) k1(3-5) none f1 f by (simp_all add: steady_def v0 v2 fun_eq_iff)
  have "peers_ok k'" "roots_ok k'" using peers roots unfolding peers_ok_def roots_ok_def view(1,3,9-11) .
  moreover have "sched_ok k'"
    using sched q a idle unfolding sched_ok_def view by (auto simp: r)
  ultimately have "kernel_inv k'" using k'(2) by (simp add: kernel_inv_def)
  moreover have "start_scheduling k = Inr k'"
    using idle q t k1(1) k'(1)
    by (simp add: start_scheduling_def choose_next_def deref_task_def deref_def as_task_def is_ready_def drop_to_userspace_def)
  ultimately show ?thesis using that view(6,7) by blast
qed

subsection \<open>A small kernel\<close>

text \<open>Two tasks in address spaces of their own, the first one running, with both ends of a channel, an
  event, an interrupt and a memory object in its table.\<close>

definition sample_stack :: stack where
  "sample_stack = \<lparr>top_of = 0, slot_bottom = 0, stack_bottom = 0, physical_start = 0\<rparr>"

definition sample_task :: "u64 \<Rightarrow> ref \<Rightarrow> task_state \<Rightarrow> handles \<Rightarrow> unit task" where
  "sample_task i a s h = \<lparr>t_id = i, t_owner = 0, t_name = [], t_address_space = a, t_state = s,
     user_slot = \<lparr>slot_index = 0, user_stack = sample_stack\<rparr>, kernel_stack = sample_stack, context_of = (), t_handles = h\<rparr>"

definition sample_space :: "u64 \<Rightarrow> as_state \<Rightarrow> unit address_space" where
  "sample_space i s = \<lparr>as_id = i, as_owner = 0, as_state = s, mappings = [], page_table = (), slot_bitmap = 1\<rparr>"

definition sample_heap :: "ref \<Rightarrow> (unit, unit) kobj option" where
  "sample_heap = [0 \<mapsto> AddressSpaceObj (sample_space 1 Active),
     1 \<mapsto> TaskObj (sample_task 2 0 Running \<lparr>table = [1 \<mapsto> 4, 2 \<mapsto> 5, 3 \<mapsto> 6, 4 \<mapsto> 7, 5 \<mapsto> 8], next_handle = 6\<rparr>),
     2 \<mapsto> AddressSpaceObj (sample_space 3 NotActive), 3 \<mapsto> TaskObj (sample_task 4 2 Ready handles_new),
     4 \<mapsto> ChannelObj \<lparr>ch_id = 5, ch_owner = 2, messages = [], other_end = Some 5\<rparr>,
     5 \<mapsto> ChannelObj \<lparr>ch_id = 6, ch_owner = 2, messages = [], other_end = Some 4\<rparr>,
     6 \<mapsto> EventObj \<lparr>ev_id = 7, signalled = True\<rparr>,
     7 \<mapsto> InterruptObj \<lparr>int_id = 8, triggered = True, rearm_irq = Some 9\<rparr>,
     8 \<mapsto> MemoryObj \<lparr>mo_id = 9, mo_owner = 2, mo_size = 4096, mo_flags = flags_default, backing = [(0x1000, 4096)]\<rparr>]"

definition sample_kernel :: "(unit, unit) kernel" where
  "sample_kernel = \<lparr>heap = sample_heap, next_ref = 9, id_counter = 10, pmm_of = \<lparr>buddy = one_block\<rparr>,
     vmm_of = \<lparr>kernel_page_table = (), vmm_higher_half_start = 0, vmm_physical_mapping_base = 0,
       vmm_kernel_dynamic_area_base = 0, vmm_kernel_image_base = 0, kernel_dynamic_next_available = 0,
       kernel_end_of_dynamic_area = 0\<rparr>,
     running_task = Some 1, ready_queue = [3], blocked_queue = [], framebuffer = None, pci_info = None,
     user_memory = (\<lambda>_. 0), user_descriptors = (\<lambda>_ _. None), log_lines = [], rearmed = [],
     in_call = (\<lambda>_. None)\<rparr>"

lemma sample_views:
  "state_of sample_kernel r = (if r = 1 then Some Running else if r = 3 then Some Ready else None)"
  "space_of sample_kernel r = (if r = 1 then Some 0 else if r = 3 then Some 2 else None)"
  "active sample_kernel r \<longleftrightarrow> r = 0"
  "peer_of sample_kernel r = (if r = 4 then Some 5 else if r = 5 then Some 4 else None)"
  "kind sample_kernel r = (if r \<in> {0, 2} then Some TAddressSpace else if r \<in> {1, 3} then Some TTask
     else if r \<in> {4, 5} then Some TChannel else if r = 6 then Some TEvent else if r = 7 then Some TInterrupt
     else if r = 8 then Some TMemoryObject else None)"
  by (simp_all add: state_of_def space_of_def active_def peer_of_def kind_def sample_kernel_def sample_heap_def
      sample_task_def sample_space_def)

lemma sample_inv: "kernel_inv sample_kernel"
proof -
  have "heap_ok sample_kernel"
    unfolding heap_ok_def
    by (auto simp: sample_views sample_space_def sample_task_def handles_new_def sample_kernel_def [THEN arg_cong, of heap]
        sample_kernel_def [THEN arg_cong, of next_ref] sample_heap_def split: if_splits)
  moreover have "peers_ok sample_kernel" by (auto simp: peers_ok_def sample_views)
  moreover have "roots_ok sample_kernel" by (simp add: roots_ok_def sample_kernel_def)
  moreover have "running_task sample_kernel = Some 1" "ready_queue sample_kernel = [3]" "blocked_queue sample_kernel = []"
    by (simp_all add: sample_kernel_def)
  then have "sched_ok sample_kernel" by (simp add: sched_ok_def sample_views)
  ultimately show ?thesis by (simp add: kernel_inv_def)
qed

subsection \<open>Properties\<close>

text \<open>C12: scheduling from a running task never panics and keeps the invariant of the kernel.  With no task
  ready nothing changes; otherwise the first task of the ready queue runs, and the previous one waits
  at the end of the queue of its new state.\<close>

theorem schedule_correct:
  assumes "kernel_inv k" and "running_task k = Some me" and "parked k s"
  shows "\<exists>k'. schedule k s = Inr k' \<and> kernel_inv k' \<and> (ready_queue k = [] \<longrightarrow> k' = k) \<and>
     (\<forall>n q. ready_queue k = n # q \<longrightarrow> running_task k' = Some n \<and> state_of k' me = Some s \<and>
        ready_queue k' = q @ (if s = Ready then [me] else []) \<and>
        blocked_queue k' = blocked_queue k @ (if s = Ready then [] else [me]))"
  by (rule schedule_ok [OF assms]) (rule exI, auto)

theorem schedule_correct_witness:
  "\<exists>k'. schedule sample_kernel Ready = Inr k' \<and> running_task k' = Some 3 \<and> ready_queue k' = [1]"
  using schedule_correct [OF sample_inv, of 1 Ready] by (auto simp: parked_def sample_kernel_def)

text \<open>A number of yields of whichever task is running.\<close>

primrec yields :: "nat \<Rightarrow> ('pt, 'ctx) kernel \<Rightarrow> panic + ('pt, 'ctx) kernel" where
  "yields 0 k = Inr k"
| "yields (Suc i) k = rbind (schedule k Ready) (yields i)"

lemma yields_rotate:
  "kernel_inv k \<Longrightarrow> running_task k = Some me \<Longrightarrow>
   \<exists>k' r q. yields i k = Inr k' \<and> kernel_inv k' \<and> running_task k' = Some r \<and> ready_queue k' = q \<and>
     r # q = rotate i (me # ready_queue k)"
proof (induction i arbitrary: k me)
  case (Suc i)
  have park: "parked k Ready" by (simp add: parked_def)
  obtain k' where k': "schedule k Ready = Inr k'" "kernel_inv k'" "ready_queue k = [] \<Longrightarrow> k' = k"
      "\<And>n q. ready_queue k = n # q \<Longrightarrow> running_task k' = Some n \<and> ready_queue k' = q @ [me]"
    by (rule schedule_ok [OF Suc.prems park]) simp
  show ?case
  proof (cases "ready_queue k")
    case Nil
    then show ?thesis using Suc.IH [OF Suc.prems] k'(1,3) by (simp add: rotate_length01)
  next
    case (Cons n q)
    then show ?thesis using Suc.IH [OF k'(2)] k'(1,4) by (simp add: rotate1_rotate_swap)
  qed
qed simp

text \<open>C13: tasks that only yield take turns.  Every task of the ready queue runs after at most as many
  yields as there are tasks in the queue, and no yield panics.\<close>

theorem schedule_round_robin:
  assumes "kernel_inv k" and "running_task k = Some me" and "r \<in> set (ready_queue k)"
  shows "\<exists>i k'. i \<le> length (ready_queue k) \<and> yields i k = Inr k' \<and> kernel_inv k' \<and> running_task k' = Some r"
proof -
  obtain i where i: "i < length (me # ready_queue k)" "(me # ready_queue k) ! i = r"
    using assms(3) by (metis in_set_conv_nth list.set_intros(2))
  obtain k' r' q where k': "yields i k = Inr k'" "kernel_inv k'" "running_task k' = Some r'"
      "r' # q = rotate i (me # ready_queue k)"
    using yields_rotate [OF assms(1,2), of i] by blast
  have "hd (r' # q) = (me # ready_queue k) ! i"
    unfolding k'(4) using i(1) by (subst hd_rotate_conv_nth) simp_all
  then show ?thesis using k'(1-3) i by (intro exI [of _ i] exI [of _ k']) auto
qed

theorem schedule_round_robin_witness:
  "\<exists>i k'. i \<le> 1 \<and> yields i sample_kernel = Inr k' \<and> kernel_inv k' \<and> running_task k' = Some 3"
  using schedule_round_robin [OF sample_inv, of 1 3] by (simp add: sample_kernel_def)

end
