(* ===== verification/Kernel_Validation.thy ===== *)
theory Kernel_Validation
  imports Kernel_Scheduler
begin

text \<open>
  \<open>kernel/src/syscall/validation.rs\<close>: access to the memory of the calling task.  The memory is a function
  from addresses to bytes; values are stored in the little endian order of both architectures.  The
  kernel does not check addresses yet, so that no read fails and a write fails only through a pointer
  that was made for reading.
\<close>

subsection \<open>Bytes\<close>

definition read_bytes :: "(usize \<Rightarrow> u8) \<Rightarrow> usize \<Rightarrow> nat \<Rightarrow> u8 list" where
  "read_bytes mem a n = map (\<lambda>i. mem (a + of_nat i)) [0 ..< n]"

primrec write_bytes :: "(usize \<Rightarrow> u8) \<Rightarrow> usize \<Rightarrow> u8 list \<Rightarrow> usize \<Rightarrow> u8" where
  "write_bytes mem a [] = mem"
| "write_bytes mem a (b # bs) = write_bytes (mem(a := b)) (a + 1) bs"

definition le_bytes :: "nat \<Rightarrow> 'w::len word \<Rightarrow> u8 list" where
  "le_bytes n w = map (\<lambda>i. ucast (drop_bit (8 * i) w)) [0 ..< n]"

primrec le_value :: "u8 list \<Rightarrow> 'w::len word" where
  "le_value [] = 0"
| "le_value (b # bs) = ucast b OR push_bit 8 (le_value bs)"

text \<open>Well formed UTF-8, which the standard library checks strings for.\<close>

definition continuation :: "u8 \<Rightarrow> bool" where
  "continuation c \<longleftrightarrow> 0x80 \<le> c \<and> c \<le> 0xBF"

fun utf8_valid :: "u8 list \<Rightarrow> bool" where
  "utf8_valid [] = True"
| "utf8_valid (b # bs) =
     (if b \<le> 0x7F then utf8_valid bs
      else if 0xC2 \<le> b \<and> b \<le> 0xDF
      then (case bs of c # r \<Rightarrow> continuation c \<and> utf8_valid r | _ \<Rightarrow> False)
      else if 0xE0 \<le> b \<and> b \<le> 0xEF
      then (case bs of
          c # d # r \<Rightarrow> continuation c \<and> (b = 0xE0 \<longrightarrow> 0xA0 \<le> c) \<and> (b = 0xED \<longrightarrow> c \<le> 0x9F) \<and> continuation d \<and> utf8_valid r
        | _ \<Rightarrow> False)
      else if 0xF0 \<le> b \<and> b \<le> 0xF4
      then (case bs of
          c # d # e # r \<Rightarrow> continuation c \<and> (b = 0xF0 \<longrightarrow> 0x90 \<le> c) \<and> (b = 0xF4 \<longrightarrow> c \<le> 0x8F) \<and>
            continuation d \<and> continuation e \<and> utf8_valid r
        | _ \<Rightarrow> False)
      else False)"

subsection \<open>Pointers, slices and strings of the user\<close>

record user_pointer =
  up_ptr :: usize
  can_write :: bool

definition user_pointer_new :: "usize \<Rightarrow> bool \<Rightarrow> user_pointer" where
  "user_pointer_new p needs_write = \<lparr>up_ptr = p, can_write = needs_write\<rparr>"

text \<open>\<open>decode\<close> and \<open>encode\<close> say how a value of the type pointed to lies in memory.\<close>

definition pointer_validate_read ::
  "((usize \<Rightarrow> u8) \<Rightarrow> usize \<Rightarrow> 'a) \<Rightarrow> user_pointer \<Rightarrow> (('pt, 'ctx) kernel, unit, 'a) sys" where
  "pointer_validate_read decode p = sget (\<lambda>k. Inr (decode (user_memory k) (up_ptr p)))"

definition pointer_validate_write ::
  "('a \<Rightarrow> u8 list) \<Rightarrow> user_pointer \<Rightarrow> 'a \<Rightarrow> (('pt, 'ctx) kernel, unit, unit) sys" where
  "pointer_validate_write encode p v =
     (if \<not> can_write p then sfail ()
      else smodify (\<lambda>k. k\<lparr>user_memory := write_bytes (user_memory k) (up_ptr p) (encode v)\<rparr>))"

record user_slice =
  us_ptr :: usize
  us_length :: usize

definition user_slice_new :: "usize \<Rightarrow> usize \<Rightarrow> user_slice" where
  "user_slice_new p len = \<lparr>us_ptr = p, us_length = len\<rparr>"

text \<open>\<open>width\<close> is the number of bytes of an element.\<close>

definition slice_validate_read ::
  "nat \<Rightarrow> user_slice \<Rightarrow> (('pt, 'ctx) kernel, unit, 'w::len word list) sys" where
  "slice_validate_read width s = sget (\<lambda>k. Inr (map (\<lambda>i. le_value
     (read_bytes (user_memory k) (us_ptr s + of_nat (width * i)) width)) [0 ..< unat (us_length s)]))"

text \<open>The slice that is returned for writing is written through later: the function yields where.\<close>

definition slice_validate_write :: "user_slice \<Rightarrow> (('pt, 'ctx) kernel, unit, usize) sys" where
  "slice_validate_write s = sreturn (us_ptr s)"

definition user_string_validate :: "user_slice \<Rightarrow> (('pt, 'ctx) kernel, unit, u8 list) sys" where
  "user_string_validate s =
     sbind (slice_validate_read 1 s) (\<lambda>bs. if utf8_valid bs then sreturn bs else sfail ())"

subsection \<open>Round trips\<close>

lemma length_le_bytes [simp]: "length (le_bytes n w) = n"
  by (simp add: le_bytes_def)

lemma length_read_bytes [simp]: "length (read_bytes mem a n) = n"
  by (simp add: read_bytes_def)

lemma bit_le_value: "bit (le_value bs :: 'w::len word) i \<longleftrightarrow> i < LENGTH('w) \<and> i div 8 < length bs \<and> bit (bs ! (i div 8)) (i mod 8)"
proof (induction bs arbitrary: i)
  case (Cons b bs)
  show ?case
  proof (cases "i < 8")
    case True
    then show ?thesis by (simp add: bit_or_iff bit_push_bit_iff bit_ucast_iff)
  next
    case False
    then have "i div 8 = Suc ((i - 8) div 8)" "(i - 8) mod 8 = i mod 8" by (simp_all add: le_div_geq le_mod_geq)
    moreover have "\<not> bit b i" using False by (auto dest: bit_imp_le_length)
    ultimately show ?thesis using False Cons.IH [of "i - 8"]
      by (simp add: bit_or_iff bit_push_bit_iff bit_ucast_iff) (auto dest: bit_imp_le_length)
  qed
qed simp

lemma le_value_bytes:
  fixes w :: "'w::len word"
  assumes "LENGTH('w) \<le> 8 * n"
  shows "le_value (le_bytes n w) = w"
proof (rule bit_eqI)
  fix i assume "possible_bit TYPE('w word) i"
  then have i: "i < LENGTH('w)" by simp
  then have "i div 8 < n" using assms by simp
  moreover have "8 * (i div 8) + i mod 8 = i" by simp
  ultimately show "bit (le_value (le_bytes n w) :: 'w word) i \<longleftrightarrow> bit w i"
    using i by (simp add: bit_le_value le_bytes_def bit_ucast_iff bit_drop_bit_eq)
qed

lemma write_bytes_apply:
  "length bs \<le> 2 ^ 63 \<Longrightarrow> write_bytes mem a bs x =
     (if unat (x - a) < length bs then bs ! unat (x - a) else mem x)"
proof (induction bs arbitrary: mem a)
  case (Cons b bs)
  show ?case
  proof (cases "x = a")
    case True
    have "unat (- 1 :: usize) = 2 ^ 64 - 1" by (simp add: unsigned_minus_1_eq_mask mask_eq_exp_minus_1)
    then show ?thesis using Cons True by simp
  next
    case False
    then have "x - a \<noteq> 0" by simp
    then have "unat (x - a - 1) = unat (x - a) - 1" "0 < unat (x - a)"
      using unat_minus_one by (blast, simp add: unat_gt_0)
    then have "unat (x - a) = Suc (unat (x - (a + 1)))" by (simp add: diff_diff_eq)
    then show ?thesis using Cons False by simp
  qed
qed simp

lemma read_write_bytes:
  assumes "length bs \<le> 2 ^ 63"
  shows "read_bytes (write_bytes mem a bs) a (length bs) = bs"
proof (rule nth_equalityI)
  fix i assume "i < length (read_bytes (write_bytes mem a bs) a (length bs))"
  then have i: "i < length bs" by simp
  then have "unat (of_nat i :: usize) = i" using assms by (simp add: unsigned_of_nat take_bit_nat_eq_self)
  then show "read_bytes (write_bytes mem a bs) a (length bs) ! i = bs ! i"
    using i by (simp add: read_bytes_def write_bytes_apply [OF assms])
qed simp

end
