(* ===== verification/Kernel_Syscall.thy ===== *)
theory Kernel_Syscall
  imports Kernel_Validation
begin

text \<open>
  \<open>kernel/src/syscall/mod.rs\<close>: the system calls.  Each is a function of the running task and of the raw
  arguments, in the order of checks and effects of the code.  An error keeps what happened before it.
\<close>

type_synonym ('pt, 'ctx, 'e, 'a) syscall = "(('pt, 'ctx) kernel, 'e, 'a) sys"

subsection \<open>Objects and handles of the calling task\<close>

definition read_object :: "(('pt, 'ctx) kobj \<Rightarrow> 'o option) \<Rightarrow> ref \<Rightarrow> ('pt, 'ctx, 'e, 'o) syscall" where
  "read_object as r = sget (\<lambda>k. rbind (deref k r) (\<lambda>ob. runwrap (as ob)))"

definition write_object :: "ref \<Rightarrow> ('pt, 'ctx) kobj \<Rightarrow> ('pt, 'ctx, 'e, unit) syscall" where
  "write_object r ob = smodify (\<lambda>k. update_object k r ob)"

definition new_object :: "('pt, 'ctx) kobj \<Rightarrow> ('pt, 'ctx, 'e, ref) syscall" where
  "new_object ob = (\<lambda>k. let (r, k') = alloc_object k ob in Inr (Inr r, k'))"

definition new_id :: "('pt, 'ctx, 'e, u64) syscall" where
  "new_id = (\<lambda>k. let (i, c) = alloc_kernel_object_id (id_counter k) in Inr (Inr i, k\<lparr>id_counter := c\<rparr>))"

definition task_get :: "ref \<Rightarrow> handle \<Rightarrow> ('pt, 'ctx, 'e, ref option) syscall" where
  "task_get me h = sbind (read_object as_task me) (\<lambda>t. sreturn (handles_get (t_handles t) h))"

definition task_add :: "ref \<Rightarrow> ref \<Rightarrow> ('pt, 'ctx, 'e, handle) syscall" where
  "task_add me r =
     sbind (read_object as_task me) (\<lambda>t.
       let (h, hs) = handles_add (t_handles t) r in
       sbind (write_object me (TaskObj (t\<lparr>t_handles := hs\<rparr>))) (\<lambda>_. sreturn h))"

definition task_remove :: "ref \<Rightarrow> handle \<Rightarrow> ('pt, 'ctx, 'e, unit) syscall" where
  "task_remove me h =
     sbind (read_object as_task me) (\<lambda>t.
       write_object me (TaskObj (t\<lparr>t_handles := handles_remove (t_handles t) h\<rparr>)))"

definition task_id :: "ref \<Rightarrow> ('pt, 'ctx, 'e, u64) syscall" where
  "task_id me = sbind (read_object as_task me) (\<lambda>t. sreturn (t_id t))"

text \<open>Looking up a handle and downcasting the object.\<close>

definition object_of ::
  "ref \<Rightarrow> handle \<Rightarrow> 'e \<Rightarrow> (('pt, 'ctx) kobj \<Rightarrow> 'o option) \<Rightarrow> 'e \<Rightarrow> ('pt, 'ctx, 'e, ref \<times> 'o) syscall" where
  "object_of me h missing as wrong =
     sbind (task_get me h) (\<lambda>x.
     sbind (ok_or missing x) (\<lambda>r.
     sbind (sget (\<lambda>k. deref k r)) (\<lambda>ob.
     sbind (ok_or wrong (as ob)) (\<lambda>v. sreturn (r, v)))))"

definition alloc_frames :: "('pt, 'ctx) platform \<Rightarrow> usize \<Rightarrow> ('pt, 'ctx, 'e, paddr) syscall" where
  "alloc_frames p count = (\<lambda>k. rbind (pmm_alloc (tgt p) (pmm_of k) count) (\<lambda>(a, pm). Inr (Inr a, k\<lparr>pmm_of := pm\<rparr>)))"

subsection \<open>Scheduling, logging and the framebuffer\<close>

definition yield_syscall :: "('pt, 'ctx, 'e, usize) syscall" where
  "yield_syscall = sbind (supdate (\<lambda>k. schedule k Ready)) (\<lambda>_. sreturn 0)"

definition early_log :: "ref \<Rightarrow> usize \<Rightarrow> usize \<Rightarrow> ('pt, 'ctx, early_log_error, unit) syscall" where
  "early_log me str_length str_address =
     (if str_length > 8192 then sfail MessageTooLong
      else
        sbind (smap_err (\<lambda>_. MessageNotValidUtf8) (user_string_validate (user_slice_new str_address str_length))) (\<lambda>message.
        sbind (read_object as_task me) (\<lambda>t.
          smodify (\<lambda>k. k\<lparr>log_lines := log_lines k @ [(t_name t, message)]\<rparr>))))"

definition framebuffer_info_bytes :: "framebuffer_info \<Rightarrow> u8 list" where
  "framebuffer_info_bytes i =
     le_bytes 2 (fb_width i) @ le_bytes 2 (fb_height i) @ le_bytes 2 (fb_stride i) @ [fb_pixel_format i]"

definition get_framebuffer :: "ref \<Rightarrow> usize \<Rightarrow> ('pt, 'ctx, get_framebuffer_error, handle) syscall" where
  "get_framebuffer me info_addr =
     sbind (sget (\<lambda>k. Inr (framebuffer k))) (\<lambda>fb.
     sbind (ok_or NoFramebufferCreated fb) (\<lambda>(info, memory_object).
     sbind (task_add me memory_object) (\<lambda>h.
     sbind (smap_err (\<lambda>_. InfoAddressIsInvalid)
         (pointer_validate_write framebuffer_info_bytes (user_pointer_new info_addr True) info)) (\<lambda>_.
       sreturn h))))"

subsection \<open>Memory objects\<close>

definition WRITABLE :: u32 where
  "WRITABLE = push_bit 0 1"

definition EXECUTABLE :: u32 where
  "EXECUTABLE = push_bit 1 1"

definition create_memory_object ::
  "('pt, 'ctx) platform \<Rightarrow> ref \<Rightarrow> usize \<Rightarrow> usize \<Rightarrow> usize \<Rightarrow> ('pt, 'ctx, create_memory_object_error, handle) syscall" where
  "create_memory_object p me sz fl physical_address_ptr =
     sbind (slift (align_up sz (SIZE Size4KiB))) (\<lambda>sz.
     sbind (slift (urem sz (SIZE Size4KiB))) (\<lambda>rest.
     sbind (slift (rassert (rest = 0))) (\<lambda>_.
     sbind (slift (udiv sz (SIZE Size4KiB))) (\<lambda>count.
     sbind (alloc_frames p count) (\<lambda>physical_start.
     sbind (task_id me) (\<lambda>owner.
     sbind new_id (\<lambda>i.
     sbind (new_object (MemoryObj (fst (memory_object_new i owner physical_start sz
         (flags_default\<lparr>writable := flags_contain p (ucast fl) WRITABLE,
            executable := flags_contain p (ucast fl) EXECUTABLE, user_accessible := True\<rparr>))))) (\<lambda>r.
     sbind (if physical_address_ptr \<noteq> 0
         then smap_err (\<lambda>_. InvalidPhysicalAddressPointer)
           (pointer_validate_write (le_bytes 8) (user_pointer_new physical_address_ptr True) physical_start)
         else sreturn ()) (\<lambda>_.
       task_add me r)))))))))"

definition map_into ::
  "('pt, 'ctx) platform \<Rightarrow> ref \<Rightarrow> ref \<Rightarrow> vaddr \<Rightarrow> ('pt, 'ctx, map_memory_object_error, unit) syscall" where
  "map_into p space r virtual_address =
     sbind (read_object as_address_space space) (\<lambda>a.
     sbind (read_object as_memory_object r) (\<lambda>m.
       (\<lambda>k. rbind (as_map_memory_object p a m r virtual_address (pmm_of k)) (\<lambda>(res, a', pm).
         Inr (res, (update_object k space (AddressSpaceObj a'))\<lparr>pmm_of := pm\<rparr>)))))"

definition map_memory_object ::
  "('pt, 'ctx) platform \<Rightarrow> ref \<Rightarrow> usize \<Rightarrow> usize \<Rightarrow> usize \<Rightarrow> usize \<Rightarrow>
   ('pt, 'ctx, map_memory_object_error, unit) syscall" where
  "map_memory_object p me memory_object_handle address_space_handle virtual_address address_ptr =
     sbind (ok_or MapInvalidMemoryObjectHandle (handle_try_from memory_object_handle)) (\<lambda>mh.
     sbind (ok_or InvalidAddressSpaceHandle (handle_try_from address_space_handle)) (\<lambda>ah.
     sbind (object_of me mh MapInvalidMemoryObjectHandle as_memory_object MapInvalidMemoryObjectHandle) (\<lambda>(r, m).
     sbind (slift (if virtual_address = 0 then Inl Unimplemented else Inr (vaddr_new (tgt p) virtual_address, False)))
       (\<lambda>(va, write_to_ptr).
     sbind (if ah = 0
         then sbind (read_object as_task me) (\<lambda>t. map_into p (t_address_space t) r va)
         else sbind (object_of me ah InvalidAddressSpaceHandle as_address_space InvalidAddressSpaceHandle) (\<lambda>(space, a).
           map_into p space r va)) (\<lambda>_.
       if write_to_ptr \<and> address_ptr \<noteq> 0
       then smap_err (\<lambda>_. AddressPointerInvalid) (pointer_validate_write (le_bytes 8) (user_pointer_new address_ptr True) va)
       else sreturn ())))))"

definition find_mapping :: "('pt, 'ctx) kernel \<Rightarrow> u64 \<Rightarrow> mapping_list \<Rightarrow> (vaddr \<times> ref) option" where
  "find_mapping k i = find (\<lambda>(v, r). case heap k r of Some (MemoryObj m) \<Rightarrow> mo_id m = i | _ \<Rightarrow> False)"

definition map_extension ::
  "('pt, 'ctx) platform \<Rightarrow> ref \<Rightarrow> u64 \<Rightarrow> usize \<Rightarrow> paddr \<Rightarrow> usize \<Rightarrow> ('pt, 'ctx, resize_memory_object_error, unit) syscall" where
  "map_extension p me i old_size new_backing extend_by =
     sbind (read_object as_task me) (\<lambda>t.
     sbind (read_object as_address_space (t_address_space t)) (\<lambda>a.
     sbind (sget (\<lambda>k. Inr (find_mapping k i (mappings a)))) (\<lambda>mapping.
       case mapping of
         None \<Rightarrow> sreturn ()
       | Some (virtual_addr, r) \<Rightarrow>
           sbind (slift (vaddr_add (tgt p) virtual_addr old_size)) (\<lambda>new_virtual.
           sbind (read_object as_memory_object r) (\<lambda>m.
             (\<lambda>k. rbind (map_area p (page_table a) new_virtual new_backing extend_by (mo_flags m) (pmm_of k))
               (\<lambda>(res, pt, pm).
                 let k' = (update_object k (t_address_space t) (AddressSpaceObj (a\<lparr>page_table := pt\<rparr>)))\<lparr>pmm_of := pm\<rparr> in
                 case res of
                   Inl e \<Rightarrow> Inr (Inl ResizedObjectCannotBeRemapped, k')
                 | Inr u \<Rightarrow> Inr (Inr (), k'))))))))"

definition resize_memory_object ::
  "('pt, 'ctx) platform \<Rightarrow> ref \<Rightarrow> usize \<Rightarrow> usize \<Rightarrow> ('pt, 'ctx, resize_memory_object_error, unit) syscall" where
  "resize_memory_object p me memory_object_handle new_size =
     sbind (ok_or ResizeInvalidMemoryObjectHandle (handle_try_from memory_object_handle)) (\<lambda>mh.
     sbind (object_of me mh ResizeInvalidMemoryObjectHandle as_memory_object ResizeInvalidMemoryObjectHandle) (\<lambda>(r, m).
       let old_size = mo_size m in
       if new_size > old_size
       then
         sbind (slift (rbind (usub new_size old_size) (\<lambda>d. align_up d (SIZE Size4KiB)))) (\<lambda>extend_by.
         sbind (slift (udiv extend_by (SIZE Size4KiB))) (\<lambda>count.
         sbind (alloc_frames p count) (\<lambda>new_backing.
         sbind (slift (memory_object_extend m extend_by new_backing)) (\<lambda>m'.
         sbind (write_object r (MemoryObj m')) (\<lambda>_.
           map_extension p me (mo_id m) old_size new_backing extend_by)))))
       else if new_size < old_size then slift (Inl Unimplemented)
       else sreturn ()))"

subsection \<open>Channels\<close>

text \<open>The end that is created first holds an empty weak reference until the other one exists.\<close>

definition new_channel :: "u64 \<Rightarrow> ('pt, 'ctx, 'e, ref \<times> ref) syscall" where
  "new_channel owner =
     sbind new_id (\<lambda>ia.
     sbind (new_object (ChannelObj \<lparr>ch_id = ia, ch_owner = owner, messages = [], other_end = None\<rparr>)) (\<lambda>ra.
     sbind new_id (\<lambda>ib.
     sbind (new_object (ChannelObj \<lparr>ch_id = ib, ch_owner = owner, messages = [], other_end = Some ra\<rparr>)) (\<lambda>rb.
     sbind (write_object ra (ChannelObj \<lparr>ch_id = ia, ch_owner = owner, messages = [], other_end = Some rb\<rparr>)) (\<lambda>_.
       sreturn (ra, rb))))))"

definition new_kernel_channel :: "u64 \<Rightarrow> ('pt, 'ctx, 'e, ref) syscall" where
  "new_kernel_channel owner =
     sbind new_id (\<lambda>i.
       new_object (ChannelObj \<lparr>ch_id = i, ch_owner = owner, messages = [], other_end = None\<rparr>))"

definition channel_send :: "channel_end \<Rightarrow> message \<Rightarrow> ('pt, 'ctx, send_message_error, unit) syscall" where
  "channel_send c m =
     (case other_end c of
        None \<Rightarrow> sreturn ()
      | Some p \<Rightarrow>
          sbind (sget (\<lambda>k. Inr (upgrade k p))) (\<lambda>x.
          sbind (ok_or OtherEndDisconnected x) (\<lambda>r.
          sbind (read_object as_channel r) (\<lambda>c'. write_object r (ChannelObj (add_message c' m))))))"

definition create_channel :: "ref \<Rightarrow> usize \<Rightarrow> ('pt, 'ctx, create_channel_error, handle) syscall" where
  "create_channel me other_end_address =
     sbind (task_id me) (\<lambda>owner.
     sbind (new_channel owner) (\<lambda>(end_a, end_b).
     sbind (task_add me end_a) (\<lambda>end_a_handle.
     sbind (task_add me end_b) (\<lambda>end_b_handle.
     sbind (smap_err (\<lambda>_. InvalidHandleAddress)
         (pointer_validate_write (le_bytes 4) (user_pointer_new other_end_address True) end_b_handle)) (\<lambda>_.
       sreturn end_a_handle)))))"

text \<open>Taking the objects to transfer out of the table of the sender.\<close>

definition take_object :: "ref \<Rightarrow> handle \<Rightarrow> ('pt, 'ctx, send_message_error, ref) syscall" where
  "take_object me h =
     sbind (task_get me h) (\<lambda>x.
     sbind (ok_or InvalidTransferredHandle x) (\<lambda>r.
     sbind (task_remove me h) (\<lambda>_. sreturn r)))"

definition objects_array :: "ref list \<Rightarrow> ref option list" where
  "objects_array rs = map Some rs @ replicate (CHANNEL_MAX_NUM_HANDLES - length rs) None"

definition send_message ::
  "ref \<Rightarrow> usize \<Rightarrow> usize \<Rightarrow> usize \<Rightarrow> usize \<Rightarrow> usize \<Rightarrow> ('pt, 'ctx, send_message_error, unit) syscall" where
  "send_message me channel_handle byte_address num_bytes handles_address num_hs =
     (if num_bytes > CHANNEL_MAX_NUM_BYTES then sfail TooManyBytes
      else if num_hs > of_nat CHANNEL_MAX_NUM_HANDLES then sfail TooManyHandles
      else
        sbind (ok_or SendInvalidChannelHandle (handle_try_from channel_handle)) (\<lambda>ch.
        sbind (if num_bytes = 0 then sreturn []
            else smap_err (\<lambda>_. SendBytesAddressInvalid) (slice_validate_read 1 (user_slice_new byte_address num_bytes))) (\<lambda>bytes.
        sbind (if num_hs = 0 then sreturn []
            else smap_err (\<lambda>_. SendHandlesAddressInvalid) (slice_validate_read 4 (user_slice_new handles_address num_hs))) (\<lambda>hs.
        sbind (sfor hs (take_object me)) (\<lambda>rs.
        sbind (object_of me ch SendInvalidChannelHandle as_channel SendNotAChannel) (\<lambda>(r, c).
          channel_send c \<lparr>msg_bytes = bytes, handle_objects = objects_array rs\<rparr>))))))"

text \<open>What \<open>get_message\<close> does with a message; an error comes with the message, which stays in the queue.\<close>

definition give_object :: "ref \<Rightarrow> message \<Rightarrow> usize \<Rightarrow> nat \<Rightarrow> ('pt, 'ctx, message \<times> get_message_error, unit) syscall" where
  "give_object me m buffer i =
     sbind (slift (rbind (rindex (handle_objects m) i) runwrap)) (\<lambda>r.
     sbind (task_add me r) (\<lambda>h.
       smodify (\<lambda>k. k\<lparr>user_memory := write_bytes (user_memory k) (buffer + of_nat (4 * i)) (le_bytes 4 h)\<rparr>)))"

definition deliver ::
  "('pt, 'ctx) platform \<Rightarrow> ref \<Rightarrow> usize \<Rightarrow> usize \<Rightarrow> usize \<Rightarrow> usize \<Rightarrow> message \<Rightarrow>
   ('pt, 'ctx, message \<times> get_message_error, usize) syscall" where
  "deliver p me bytes_address bytes_len handles_address handles_len m =
     (let n = num_handles m in
      if length (msg_bytes m) > unat bytes_len then sfail (m, BytesBufferTooSmall)
      else if n > unat handles_len then sfail (m, HandlesBufferTooSmall)
      else
        sbind (if bytes_len > 0 \<and> bytes_address \<noteq> 0
          then
            sbind (smap_err (\<lambda>_. (m, GetBytesAddressInvalid))
                (slice_validate_write (user_slice_new bytes_address (of_nat (length (msg_bytes m)))))) (\<lambda>buffer.
              smodify (\<lambda>k. k\<lparr>user_memory := write_bytes (user_memory k) buffer (msg_bytes m)\<rparr>))
          else sreturn ()) (\<lambda>_.
        sbind (if handles_len > 0 \<and> handles_address \<noteq> 0
          then
            sbind (smap_err (\<lambda>_. (m, GetHandlesAddressInvalid))
                (slice_validate_write (user_slice_new handles_address (of_nat n)))) (\<lambda>buffer.
            sbind (sfor [0 ..< n] (give_object me m buffer)) (\<lambda>_. sreturn ()))
          else sreturn ()) (\<lambda>_.
          slift (get_message_status (bits p) (of_nat (length (msg_bytes m))) (of_nat n)))))"

definition receive_from ::
  "ref \<Rightarrow> channel_end \<Rightarrow> (message \<Rightarrow> ('pt, 'ctx, message \<times> get_message_error, 'r) syscall) \<Rightarrow>
   ('pt, 'ctx, get_message_error, 'r) syscall" where
  "receive_from r c f = (\<lambda>k. rbind (receive c (\<lambda>m. f m k) k) (\<lambda>(res, c', k'). Inr (res, update_object k' r (ChannelObj c'))))"

definition get_message ::
  "('pt, 'ctx) platform \<Rightarrow> ref \<Rightarrow> usize \<Rightarrow> usize \<Rightarrow> usize \<Rightarrow> usize \<Rightarrow> usize \<Rightarrow>
   ('pt, 'ctx, get_message_error, usize) syscall" where
  "get_message p me channel_handle bytes_address bytes_len handles_address handles_len =
     sbind (ok_or GetInvalidChannelHandle (handle_try_from channel_handle)) (\<lambda>ch.
     sbind (object_of me ch GetInvalidChannelHandle as_channel GetNotAChannel) (\<lambda>(r, c).
       receive_from r c (deliver p me bytes_address bytes_len handles_address handles_len)))"

subsection \<open>PCI devices\<close>

definition bar_flags :: "bool \<Rightarrow> flags" where
  "bar_flags prefetchable = \<lparr>writable = True, executable = False, user_accessible = True, cached = prefetchable\<rparr>"

definition bar_object ::
  "('pt, 'ctx) platform \<Rightarrow> ref \<Rightarrow> usize \<Rightarrow> usize \<Rightarrow> bool \<Rightarrow> ('pt, 'ctx, 'e, handle) syscall" where
  "bar_object p me address sz prefetchable =
     sbind (task_id me) (\<lambda>owner.
     sbind (slift (runwrap (paddr_new (tgt p) address))) (\<lambda>a.
     sbind new_id (\<lambda>i.
     sbind (new_object (MemoryObj (fst (memory_object_new i owner a sz (bar_flags prefetchable))))) (\<lambda>r.
       task_add me r))))"

definition describe_bar :: "('pt, 'ctx) platform \<Rightarrow> ref \<Rightarrow> bar option \<Rightarrow> ('pt, 'ctx, 'e, user_bar option) syscall" where
  "describe_bar p me b =
     (case b of
        Some (Memory32 address sz prefetchable) \<Rightarrow>
          sbind (bar_object p me (ucast address) (ucast sz) prefetchable) (\<lambda>h. sreturn (Some (UserMemory32 h sz)))
      | Some (Memory64 address sz prefetchable) \<Rightarrow>
          sbind (bar_object p me address sz prefetchable) (\<lambda>h. sreturn (Some (UserMemory64 h sz)))
      | Some Io \<Rightarrow> sreturn None
      | None \<Rightarrow> sreturn None)"

definition describe_device ::
  "('pt, 'ctx) platform \<Rightarrow> ref \<Rightarrow> usize \<Rightarrow> nat \<times> u32 \<times> pci_device \<Rightarrow> ('pt, 'ctx, 'e, unit) syscall" where
  "describe_device p me buffer = (\<lambda>(i, address, device).
     sbind (case pci_interrupt device of
         None \<Rightarrow> sreturn None
       | Some r \<Rightarrow> sbind (task_add me r) (\<lambda>h. sreturn (Some h))) (\<lambda>interrupt_handle.
     sbind (sfor (pci_bars device) (describe_bar p me)) (\<lambda>bars.
       smodify (\<lambda>k. k\<lparr>user_descriptors := (user_descriptors k)(buffer := (user_descriptors k buffer)(i \<mapsto>
         \<lparr>info_address = address, info_vendor_id = pci_vendor_id device, info_device_id = pci_device_id device,
          info_revision = pci_revision device, info_class = pci_class device, info_sub_class = pci_sub_class device,
          info_interface = pci_interface device, info_bars = bars, info_interrupt = interrupt_handle\<rparr>))\<rparr>))))"

definition pci_get_info ::
  "('pt, 'ctx) platform \<Rightarrow> ref \<Rightarrow> usize \<Rightarrow> usize \<Rightarrow> ('pt, 'ctx, pci_get_info_error, usize) syscall" where
  "pci_get_info p me buffer_address buffer_size =
     sbind (sget (\<lambda>k. Inr (pci_info k))) (\<lambda>info.
       case info of
         None \<Rightarrow> sfail PlatformDoesNotSupportPci
       | Some devices \<Rightarrow>
           let num_descriptors = length devices in
           if buffer_size > 0 \<and> buffer_address \<noteq> 0
           then
             if unat buffer_size < num_descriptors then sfail (BufferNotLargeEnough (of_nat num_descriptors))
             else
               sbind (smap_err (\<lambda>_. BufferPointerInvalid) (slice_validate_write (user_slice_new buffer_address buffer_size))) (\<lambda>buffer.
               sbind (sfor (enumerate 0 devices) (describe_device p me buffer)) (\<lambda>_.
                 slift (pci_get_info_status (bits p) (of_nat num_descriptors))))
           else sfail (BufferNotLargeEnough (of_nat num_descriptors)))"

subsection \<open>Events and interrupts\<close>

text \<open>A blocking call polls the flag and lets the other tasks run between the polls: \<open>Waiting\<close> is the
  state of a call that will poll again when its task is scheduled.\<close>

datatype 'a progress = Done 'a | Waiting

definition event_wait_loop :: "ref \<Rightarrow> ref \<Rightarrow> ('pt, 'ctx, 'e, unit progress) syscall" where
  "event_wait_loop me r =
     sbind (read_object as_event r) (\<lambda>e.
       if signalled e
       then
         sbind (write_object r (EventObj (e\<lparr>signalled := snd (take_flag (signalled e))\<rparr>))) (\<lambda>_.
         sbind (slift (rassert (fst (take_flag (signalled e))))) (\<lambda>_.
         sbind (smodify (\<lambda>k. k\<lparr>in_call := (in_call k)(me := None)\<rparr>)) (\<lambda>_.
           sreturn (Done ()))))
       else
         sbind (smodify (\<lambda>k. k\<lparr>in_call := (in_call k)(me \<mapsto> r)\<rparr>)) (\<lambda>_.
         sbind (supdate (\<lambda>k. schedule k Ready)) (\<lambda>_.
           sreturn Waiting)))"

definition wait_for_event ::
  "ref \<Rightarrow> usize \<Rightarrow> usize \<Rightarrow> ('pt, 'ctx, wait_for_event_error, unit progress) syscall" where
  "wait_for_event me event_handle block =
     sbind (ok_or InvalidEventHandle (handle_try_from event_handle)) (\<lambda>h.
     sbind (object_of me h InvalidEventHandle as_event InvalidEventHandle) (\<lambda>(r, e).
       if block \<noteq> 0 then event_wait_loop me r
       else
         sbind (write_object r (EventObj (e\<lparr>signalled := snd (take_flag (signalled e))\<rparr>))) (\<lambda>_.
           if fst (take_flag (signalled e)) then sreturn (Done ()) else sfail NoEvent)))"

definition interrupt_wait_loop :: "ref \<Rightarrow> ref \<Rightarrow> ('pt, 'ctx, 'e, unit progress) syscall" where
  "interrupt_wait_loop me r =
     sbind (read_object as_interrupt r) (\<lambda>i.
       if triggered i
       then
         sbind (write_object r (InterruptObj (i\<lparr>triggered := snd (take_flag (triggered i))\<rparr>))) (\<lambda>_.
         sbind (slift (rassert (fst (take_flag (triggered i))))) (\<lambda>_.
         sbind (smodify (\<lambda>k. k\<lparr>in_call := (in_call k)(me := None)\<rparr>)) (\<lambda>_.
           sreturn (Done ()))))
       else
         sbind (smodify (\<lambda>k. k\<lparr>in_call := (in_call k)(me \<mapsto> r)\<rparr>)) (\<lambda>_.
         sbind (supdate (\<lambda>k. schedule k Ready)) (\<lambda>_.
           sreturn Waiting)))"

definition wait_for_interrupt ::
  "ref \<Rightarrow> usize \<Rightarrow> usize \<Rightarrow> ('pt, 'ctx, wait_for_interrupt_error, unit progress) syscall" where
  "wait_for_interrupt me interrupt_handle block =
     sbind (ok_or WaitInvalidInterruptHandle (handle_try_from interrupt_handle)) (\<lambda>h.
     sbind (object_of me h WaitInvalidInterruptHandle as_interrupt WaitInvalidInterruptHandle) (\<lambda>(r, i).
       if block \<noteq> 0 then interrupt_wait_loop me r
       else
         sbind (write_object r (InterruptObj (i\<lparr>triggered := snd (take_flag (triggered i))\<rparr>))) (\<lambda>_.
           if fst (take_flag (triggered i)) then sreturn (Done ()) else sfail NoInterrupt)))"

definition ack_interrupt :: "ref \<Rightarrow> usize \<Rightarrow> ('pt, 'ctx, ack_interrupt_error, unit) syscall" where
  "ack_interrupt me interrupt_handle =
     sbind (ok_or AckInvalidInterruptHandle (handle_try_from interrupt_handle)) (\<lambda>h.
     sbind (object_of me h AckInvalidInterruptHandle as_interrupt AckInvalidInterruptHandle) (\<lambda>(r, i).
       smodify (\<lambda>k. let (i', irqs) = interrupt_rearm i (rearmed k) in
         (update_object k r (InterruptObj i'))\<lparr>rearmed := irqs\<rparr>)))"

definition poll_interest :: "ref \<Rightarrow> usize \<Rightarrow> ('pt, 'ctx, poll_interest_error, usize) syscall" where
  "poll_interest me object_handle =
     sbind (ok_or PollInvalidHandle (handle_try_from object_handle)) (\<lambda>h.
     sbind (task_get me h) (\<lambda>x.
     sbind (ok_or PollInvalidHandle x) (\<lambda>r.
     sbind (sget (\<lambda>k. deref k r)) (\<lambda>ob.
     sbind (case kobj_typ ob of
         TChannel \<Rightarrow> slift (rbind (runwrap (as_channel ob)) (\<lambda>c. Inr (length (messages c) > 0)))
       | TEvent \<Rightarrow> slift (rbind (runwrap (as_event ob)) (\<lambda>e. Inr (signalled e)))
       | TInterrupt \<Rightarrow> slift (rbind (runwrap (as_interrupt ob)) (\<lambda>i. Inr (triggered i)))
       | _ \<Rightarrow> sfail UnsupportedObjectType) (\<lambda>interesting.
       sreturn (poll_interest_status interesting))))))"

subsection \<open>Address spaces and tasks\<close>

definition create_address_space :: "('pt, 'ctx) platform \<Rightarrow> ref \<Rightarrow> ('pt, 'ctx, 'e, handle) syscall" where
  "create_address_space p me =
     sbind (task_id me) (\<lambda>owner.
     sbind (\<lambda>k. rbind (address_space_new p (id_counter k) (pmm_of k) owner) (\<lambda>(a, c, pm).
         new_object (AddressSpaceObj a) (k\<lparr>id_counter := c, pmm_of := pm\<rparr>))) (\<lambda>r.
       task_add me r))"

lemma create_address_space_no_error:
  "create_address_space p me k = Inr (r, k') \<Longrightarrow> \<exists>h. r = Inr h"
  by (auto simp: create_address_space_def sbind_def rust_simps task_id_def task_add_def read_object_def sget_def sreturn_def
      new_object_def write_object_def smodify_def Let_def case_sum_eq split_beta)

record spawn_task_details =
  name_ptr :: usize
  name_len :: usize
  entry_point :: usize
  details_space :: u32
  object_array :: usize
  object_array_len :: usize

text \<open>The layout of the structure in C: the handle of the address space is followed by four bytes of padding.\<close>

definition read_spawn_task_details :: "(usize \<Rightarrow> u8) \<Rightarrow> usize \<Rightarrow> spawn_task_details" where
  "read_spawn_task_details mem a =
     \<lparr>name_ptr = le_value (read_bytes mem a 8), name_len = le_value (read_bytes mem (a + 8) 8),
      entry_point = le_value (read_bytes mem (a + 16) 8), details_space = le_value (read_bytes mem (a + 24) 4),
      object_array = le_value (read_bytes mem (a + 32) 8), object_array_len = le_value (read_bytes mem (a + 40) 8)\<rparr>"

primrec copy_handles :: "ref \<Rightarrow> handles \<Rightarrow> u32 list \<Rightarrow> ('pt, 'ctx, spawn_task_error, handles) syscall" where
  "copy_handles me hs [] = sreturn hs"
| "copy_handles me hs (x # xs) =
     sbind (ok_or InvalidHandleToTransfer (handle_try_from (ucast x))) (\<lambda>h.
     sbind (task_get me h) (\<lambda>y.
     sbind (ok_or InvalidHandleToTransfer y) (\<lambda>r.
       copy_handles me (snd (handles_add hs r)) xs)))"

definition spawn_task :: "('pt, 'ctx) platform \<Rightarrow> ref \<Rightarrow> usize \<Rightarrow> ('pt, 'ctx, spawn_task_error, handle) syscall" where
  "spawn_task p me details_ptr =
     sbind (sunwrap (pointer_validate_read read_spawn_task_details (user_pointer_new details_ptr False))) (\<lambda>details.
     sbind (smap_err (\<lambda>_. InvalidTaskName)
         (user_string_validate (user_slice_new (name_ptr details) (name_len details)))) (\<lambda>nm.
     sbind (ok_or NotAnAddressSpace (handle_try_from (ucast (details_space details)))) (\<lambda>sh.
     sbind (object_of me sh NotAnAddressSpace as_address_space NotAnAddressSpace) (\<lambda>(space, a).
     sbind (sunwrap (slice_validate_read 4 (user_slice_new (object_array details) (object_array_len details)))) (\<lambda>to_transfer.
     sbind (copy_handles me (snd (handles_add handles_new space)) to_transfer) (\<lambda>hs.
     sbind (task_id me) (\<lambda>owner.
     sbind (sunwrap (\<lambda>k. task_new p k owner space nm (vaddr_new (tgt p) (entry_point details)) hs)) (\<lambda>r.
     sbind (supdate (\<lambda>k. add_task k r)) (\<lambda>_.
       task_add me r)))))))))"

subsection \<open>Dispatch\<close>

definition run_status ::
  "('e \<times> usize) list \<Rightarrow> ('pt, 'ctx, 'e, unit) syscall \<Rightarrow> ('pt, 'ctx) kernel \<Rightarrow> panic + (usize option \<times> ('pt, 'ctx) kernel)" where
  "run_status tbl m k = rbind (m k) (\<lambda>(r, k'). Inr (Some (status_to_syscall_repr tbl r), k'))"

definition run_wait ::
  "('e \<times> usize) list \<Rightarrow> ('pt, 'ctx, 'e, unit progress) syscall \<Rightarrow> ('pt, 'ctx) kernel \<Rightarrow>
   panic + (usize option \<times> ('pt, 'ctx) kernel)" where
  "run_wait tbl m k = rbind (m k) (\<lambda>(r, k').
     case r of
       Inl e \<Rightarrow> Inr (Some (status_to_syscall_repr tbl (Inl e)), k')
     | Inr (Done u) \<Rightarrow> Inr (Some (status_to_syscall_repr tbl (Inr u)), k')
     | Inr Waiting \<Rightarrow> Inr (None, k'))"

definition run_handle ::
  "bit_field_ops \<Rightarrow> ('e \<times> usize) list \<Rightarrow> ('pt, 'ctx, 'e, handle) syscall \<Rightarrow> ('pt, 'ctx) kernel \<Rightarrow>
   panic + (usize option \<times> ('pt, 'ctx) kernel)" where
  "run_handle ops tbl m k = rbind (m k) (\<lambda>(r, k'). rbind (handle_to_syscall_repr ops tbl r) (\<lambda>w. Inr (Some w, k')))"

definition run_payload ::
  "('e \<Rightarrow> panic + usize) \<Rightarrow> ('pt, 'ctx, 'e, usize) syscall \<Rightarrow> ('pt, 'ctx) kernel \<Rightarrow>
   panic + (usize option \<times> ('pt, 'ctx) kernel)" where
  "run_payload into m k = rbind (m k) (\<lambda>(r, k'). rbind (status_with_payload_to_syscall_repr into r) (\<lambda>w. Inr (Some w, k')))"

text \<open>The value that the call returns, none while it waits, and the state it leaves once the objects that
  are not referenced any more have been dropped.  \<open>CreateAddressSpaceError\<close> has no variants.\<close>

definition syscall_body ::
  "('pt, 'ctx) platform \<Rightarrow> ref \<Rightarrow> usize \<Rightarrow> usize \<Rightarrow> usize \<Rightarrow> usize \<Rightarrow> usize \<Rightarrow> usize \<Rightarrow>
   ('pt, 'ctx) kernel \<Rightarrow> panic + (usize option \<times> ('pt, 'ctx) kernel)" where
  "syscall_body p me number a b c d e =
     (if number = SYSCALL_YIELD then run_payload Inr yield_syscall
      else if number = SYSCALL_EARLY_LOG then run_status EarlyLogError (early_log me a b)
      else if number = SYSCALL_GET_FRAMEBUFFER then run_handle (bits p) GetFramebufferError (get_framebuffer me a)
      else if number = SYSCALL_CREATE_MEMORY_OBJECT
        then run_handle (bits p) CreateMemoryObjectError (create_memory_object p me a b c)
      else if number = SYSCALL_MAP_MEMORY_OBJECT then run_status MapMemoryObjectError (map_memory_object p me a b c d)
      else if number = SYSCALL_CREATE_CHANNEL then run_handle (bits p) CreateChannelError (create_channel me a)
      else if number = SYSCALL_SEND_MESSAGE then run_status SendMessageError (send_message me a b c d e)
      else if number = SYSCALL_GET_MESSAGE
        then run_payload (\<lambda>err. Inr (error_into GetMessageError err)) (get_message p me a b c d e)
      else if number = SYSCALL_WAIT_FOR_MESSAGE then (\<lambda>k. Inl Unimplemented)
      else if number = SYSCALL_PCI_GET_INFO then run_payload (pci_error_into (bits p)) (pci_get_info p me a b)
      else if number = SYSCALL_WAIT_FOR_EVENT then run_wait WaitForEventError (wait_for_event me a b)
      else if number = SYSCALL_POLL_INTEREST
        then run_payload (\<lambda>err. Inr (error_into PollInterestError err)) (poll_interest me a)
      else if number = SYSCALL_CREATE_ADDRESS_SPACE
        then run_handle (bits p) CreateAddressSpaceError (create_address_space p me)
      else if number = SYSCALL_SPAWN_TASK then run_handle (bits p) SpawnTaskError (spawn_task p me a)
      else if number = SYSCALL_RESIZE_MEMORY_OBJECT
        then run_status ResizeMemoryObjectError (resize_memory_object p me a b)
      else if number = SYSCALL_WAIT_FOR_INTERRUPT then run_wait WaitForInterruptError (wait_for_interrupt me a b)
      else if number = SYSCALL_ACK_INTERRUPT then run_status AckInterruptError (ack_interrupt me a)
      else (\<lambda>k. Inr (Some (- 1), k)))"

definition handle_syscall ::
  "('pt, 'ctx) platform \<Rightarrow> usize \<Rightarrow> usize \<Rightarrow> usize \<Rightarrow> usize \<Rightarrow> usize \<Rightarrow> usize \<Rightarrow>
   ('pt, 'ctx) kernel \<Rightarrow> panic + (usize option \<times> ('pt, 'ctx) kernel)" where
  "handle_syscall p number a b c d e k =
     rbind (runwrap (running_task k)) (\<lambda>me.
     rbind (syscall_body p me number a b c d e k) (\<lambda>(r, k'). Inr (r, collect k')))"

end
