(* ===== verification/Kernel_Safety.thy ===== *)
theory Kernel_Safety
  imports Kernel_Syscall
begin

text \<open>
  Every system call keeps the invariant of the kernel, on every path.  The rules of \<open>wp_calls\<close> say so for
  the building blocks of the calls; they also record that no call changes the type of an object or
  destroys one, so that a reference stays valid for the rest of the call.
\<close>

named_theorems wp_calls \<open>rules for the building blocks of system calls\<close>

subsection \<open>Steps that keep the invariant\<close>

definition calling :: "ref \<Rightarrow> ('pt, 'ctx) kernel \<Rightarrow> bool" where
  "calling me k \<longleftrightarrow> kernel_inv k \<and> kind k me = Some TTask"

definition kept :: "('pt, 'ctx) kernel \<Rightarrow> ('pt, 'ctx) kernel \<Rightarrow> bool" where
  "kept k k' \<longleftrightarrow> (\<forall>r t. kind k r = Some t \<longrightarrow> kind k' r = Some t)"

lemma kept_refl [simp]: "kept k k"
  and kept_trans: "kept k k' \<Longrightarrow> kept k' k'' \<Longrightarrow> kept k k''"
  and kept_kind: "kept k k' \<Longrightarrow> kind k r = Some t \<Longrightarrow> kind k' r = Some t"
  by (auto simp: kept_def)

lemma kernel_inv_frame:
  assumes "heap k' = heap k" and "next_ref k' = next_ref k" and "running_task k' = running_task k"
    and "ready_queue k' = ready_queue k" and "blocked_queue k' = blocked_queue k"
    and "framebuffer k' = framebuffer k" and "pci_info k' = pci_info k" and "in_call k' = in_call k"
  shows "kernel_inv k' = kernel_inv k"
  unfolding kernel_inv_def heap_ok_frame [OF assms(1,2)] peers_ok_def roots_ok_def sched_ok_def
    views_heap [OF assms(1)] assms(3-8) ..

lemma calling_frame:
  assumes "heap k' = heap k" and "next_ref k' = next_ref k" and "running_task k' = running_task k"
    and "ready_queue k' = ready_queue k" and "blocked_queue k' = blocked_queue k"
    and "framebuffer k' = framebuffer k" and "pci_info k' = pci_info k" and "in_call k' = in_call k"
  shows "calling me k' = calling me k"
  unfolding calling_def kernel_inv_frame [OF assms] views_heap [OF assms(1)] ..

text \<open>The parts of the state that the invariant does not speak of.\<close>

lemma calling_fields [simp]:
  "calling me (k\<lparr>user_memory := m\<rparr>) = calling me k" "calling me (k\<lparr>log_lines := l\<rparr>) = calling me k"
  "calling me (k\<lparr>rearmed := i\<rparr>) = calling me k" "calling me (k\<lparr>user_descriptors := u\<rparr>) = calling me k"
  "calling me (k\<lparr>pmm_of := pm\<rparr>) = calling me k" "calling me (k\<lparr>vmm_of := v\<rparr>) = calling me k"
  "calling me (k\<lparr>id_counter := c\<rparr>) = calling me k"
  by (rule calling_frame; simp)+

lemma kind_fields [simp]:
  "kind (k\<lparr>user_memory := m\<rparr>) = kind k" "kind (k\<lparr>log_lines := l\<rparr>) = kind k" "kind (k\<lparr>rearmed := i\<rparr>) = kind k"
  "kind (k\<lparr>user_descriptors := u\<rparr>) = kind k" "kind (k\<lparr>pmm_of := pm\<rparr>) = kind k" "kind (k\<lparr>vmm_of := v\<rparr>) = kind k"
  "kind (k\<lparr>id_counter := c\<rparr>) = kind k" "kind (k\<lparr>in_call := w\<rparr>) = kind k" "kind (k\<lparr>ready_queue := q\<rparr>) = kind k"
  by (rule views_heap(1); simp)+

lemma kept_fields [simp]:
  "kept k (k'\<lparr>user_memory := m\<rparr>) = kept k k'" "kept k (k'\<lparr>log_lines := l\<rparr>) = kept k k'" "kept k (k'\<lparr>rearmed := i\<rparr>) = kept k k'"
  "kept k (k'\<lparr>user_descriptors := u\<rparr>) = kept k k'" "kept k (k'\<lparr>pmm_of := pm\<rparr>) = kept k k'" "kept k (k'\<lparr>vmm_of := v\<rparr>) = kept k k'"
  "kept k (k'\<lparr>id_counter := c\<rparr>) = kept k k'" "kept k (k'\<lparr>in_call := w\<rparr>) = kept k k'"
  by (simp_all add: kept_def)

text \<open>Changing one object.\<close>

lemma calling_update:
  assumes "calling me k" and "heap k r = Some ob" and "same_core ob ob'" and "object_ok k ob'"
  shows "calling me (update_object k r ob')" and "kind (update_object k r ob') = kind k"
  using assms kernel_inv_update [OF _ assms(2-4)] update_views(1) [OF assms(2,3)] by (auto simp: calling_def)

lemma calling_task:
  assumes "calling me k"
  obtains t where "heap k me = Some (TaskObj t)" and "object_ok k (TaskObj t)"
  using assms by (auto simp: calling_def kind_Some kernel_inv_def dest: heap_okD)

lemma calling_object: "calling me k \<Longrightarrow> heap k r = Some ob \<Longrightarrow> object_ok k ob"
  by (auto simp: calling_def kernel_inv_def dest: heap_okD)

text \<open>Making one object.  A new task waits, a new address space is not active, and the ends of a new
  channel are made together.\<close>

fun fresh_object :: "('pt, 'ctx) kobj \<Rightarrow> bool" where
  "fresh_object (TaskObj t) \<longleftrightarrow> t_state t = Ready"
| "fresh_object (AddressSpaceObj a) \<longleftrightarrow> as_state a = NotActive"
| "fresh_object (ChannelObj c) \<longleftrightarrow> other_end c = None"
| "fresh_object _ \<longleftrightarrow> True"

lemma fresh_none: "heap_ok k \<Longrightarrow> heap k (next_ref k) = None"
  unfolding heap_ok_def by (metis less_irrefl not_None_eq)

lemma views_alloc:
  assumes "heap k (next_ref k) = None" and "alloc_object k ob = (r, k')"
  shows "r = next_ref k" and "heap k' = (heap k)(r \<mapsto> ob)" and "next_ref k' = Suc r"
    and "running_task k' = running_task k" and "ready_queue k' = ready_queue k" and "blocked_queue k' = blocked_queue k"
    and "framebuffer k' = framebuffer k" and "pci_info k' = pci_info k" and "in_call k' = in_call k"
    and "kind k' = (kind k)(r \<mapsto> kobj_typ ob)" and "kept k k'"
  using assms by (auto simp: alloc_object_def kind_def kept_def fun_eq_iff)

lemma heap_ok_alloc:
  assumes "heap_ok k" and "alloc_object k ob = (r, k')" and "object_ok k' ob"
  shows "heap_ok k'"
proof -
  note v = views_alloc [OF fresh_none [OF assms(1)] assms(2)]
  have "kind k' x = kind k x" if "kind k x \<noteq> None" for x using v(11) that unfolding kept_def by fastforce
  then have "object_ok k' o'" if "object_ok k o'" for o'
    by (rule object_ok_cong [OF _ _ that]) (use v(1,3) in simp_all)
  then show ?thesis using assms(1,3) unfolding heap_ok_def v(1-3) by (auto split: if_splits simp: less_Suc_eq)
qed

lemma roots_ok_kept:
  assumes "roots_ok k" and "kept k k'" and "framebuffer k' = framebuffer k" and "pci_info k' = pci_info k"
    and "in_call k' = in_call k"
  shows "roots_ok k'"
  using assms(1) kept_kind [OF assms(2)] unfolding roots_ok_def assms(3-5) by blast

lemma kernel_inv_alloc:
  assumes inv: "kernel_inv k" and alloc: "alloc_object k ob = (r, k')" and fresh: "fresh_object ob" and ok: "object_ok k' ob"
  shows "kernel_inv k'" and "kept k k'" and "kind k' r = Some (kobj_typ ob)" and "r = next_ref k"
proof -
  have hp: "heap_ok k" and peers: "peers_ok k" and roots: "roots_ok k" and sched: "sched_ok k"
    using inv by (simp_all add: kernel_inv_def)
  note none = fresh_none [OF hp]
  note v = views_alloc [OF none alloc]
  have st: "state_of k' x = (if x = r then (case ob of TaskObj t \<Rightarrow> Some (t_state t) | _ \<Rightarrow> None) else state_of k x)"
    "active k' x = active k x" "space_of k' x = (if x = r then (case ob of TaskObj t \<Rightarrow> Some (t_address_space t) | _ \<Rightarrow> None) else space_of k x)"
    "peer_of k' x = peer_of k x" for x
    using none fresh unfolding state_of_def active_def space_of_def peer_of_def v(2) v(1) by (cases ob; simp)+
  have old: "state_of k r = None" "space_of k r = None" "peer_of k r = None" "kind k r = None"
    using none v(1) by (simp_all add: state_of_def space_of_def peer_of_def kind_def)
  have r1: "r \<notin> set (ready_queue k)" "r \<notin> set (blocked_queue k)" "running_task k \<noteq> Some r"
    using sched old(1) unfolding sched_ok_def by force+
  have nrun: "state_of k' r \<noteq> Some Running" using fresh st(1) by (cases ob) auto
  have "peers_ok k'"
  proof -
    have "p < next_ref k" if "peer_of k x = Some p" for x p
      using that hp by (auto simp: view_cases dest: heap_okD)
    then show ?thesis using peers unfolding peers_ok_def st(4) v(10) by (metis fun_upd_apply less_irrefl v(1))
  qed
  moreover have "roots_ok k'"
    using roots v(11,7-9) by (rule roots_ok_kept)
  moreover have "sched_ok k'"
    unfolding sched_ok_def
  proof (intro conjI allI ballI)
    show "state_of k' x = Some Running \<longleftrightarrow> running_task k' = Some x" for x
      using sched nrun r1 unfolding sched_ok_def v(4) by (cases "x = r") (auto simp: st(1))
    show "active k' x \<longleftrightarrow> (\<exists>t. running_task k' = Some t \<and> space_of k' t = Some x)" for x
      using sched r1 unfolding sched_ok_def v(4) st(2) by (auto simp: st(3))
    show "state_of k' x = Some Ready" if "x \<in> set (ready_queue k')" for x
      using that sched r1 unfolding sched_ok_def v(5) by (auto simp: st(1))
    show "\<exists>b. state_of k' x = Some (Blocked b)" if "x \<in> set (blocked_queue k')" for x
      using that sched r1 unfolding sched_ok_def v(6) by (auto simp: st(1))
    show "distinct (ready_queue k' @ blocked_queue k')" using sched unfolding sched_ok_def v(5,6) by simp
  qed
  ultimately show "kernel_inv k'" using heap_ok_alloc [OF hp alloc ok] by (simp add: kernel_inv_def)
  show "kept k k'" "kind k' r = Some (kobj_typ ob)" "r = next_ref k" using v(1,10,11) by simp_all
qed

subsection \<open>Rules for the building blocks\<close>

lemma wp_read_object:
  assumes "heap k r = Some ob" and "as ob = Some v" and "Q (Inr v) k"
  shows "wp b (read_object as r) Q k"
  using assms by (simp add: read_object_def wp_get deref_def)

lemma wp_read_task [wp_calls]:
  assumes "calling me k" and "\<And>t. heap k me = Some (TaskObj t) \<Longrightarrow> object_ok k (TaskObj t) \<Longrightarrow> Q (Inr t) k"
  shows "wp b (read_object as_task me) Q k"
  by (rule calling_task [OF assms(1)]) (rule wp_read_object, use assms(2) in simp_all)

lemma wp_read_space [wp_calls]:
  assumes "calling me k" and "kind k r = Some TAddressSpace"
    and "\<And>a. heap k r = Some (AddressSpaceObj a) \<Longrightarrow> object_ok k (AddressSpaceObj a) \<Longrightarrow> Q (Inr a) k"
  shows "wp b (read_object as_address_space r) Q k"
proof -
  obtain a where a: "heap k r = Some (AddressSpaceObj a)" using assms(2) by (auto simp: kind_Some)
  show ?thesis
    using a by (rule wp_read_object) (use assms(3) [OF a calling_object [OF assms(1) a]] in \<open>simp_all add: as_address_space_def\<close>)
qed

lemma wp_read_memory [wp_calls]:
  assumes "kind k r = Some TMemoryObject" and "\<And>m. heap k r = Some (MemoryObj m) \<Longrightarrow> Q (Inr m) k"
  shows "wp b (read_object as_memory_object r) Q k"
  using assms by (auto simp: kind_Some intro!: wp_read_object)

lemma wp_read_channel [wp_calls]:
  assumes "kind k r = Some TChannel" and "\<And>c. heap k r = Some (ChannelObj c) \<Longrightarrow> Q (Inr c) k"
  shows "wp b (read_object as_channel r) Q k"
  using assms by (auto simp: kind_Some intro!: wp_read_object)

lemma wp_task_get [wp_calls]:
  assumes "calling me k" and "\<And>x. (\<And>r. x = Some r \<Longrightarrow> \<exists>t. kind k r = Some t) \<Longrightarrow> Q (Inr x) k"
  shows "wp b (task_get me h) Q k"
  unfolding task_get_def wp_simps
  by (rule wp_read_task [OF assms(1)]) (auto simp: wp_simps handles_get_def ran_def intro!: assms(2))

lemma wp_write_object:
  assumes "calling me k" and "heap k r = Some ob" and "same_core ob ob'" and "object_ok k ob'"
    and "\<And>k'. calling me k' \<Longrightarrow> kind k' = kind k \<Longrightarrow> k' = update_object k r ob' \<Longrightarrow> Q (Inr ()) k'"
  shows "wp b (write_object r ob') Q k"
  using calling_update [OF assms(1-4)] assms(5) by (simp add: write_object_def wp_simps)

lemma same_core_handles: "same_core (TaskObj t) (TaskObj (t\<lparr>t_handles := hs\<rparr>))"
  by (simp add: same_core_def)

lemma wp_task_add [wp_calls]:
  assumes "calling me k" and "\<exists>t. kind k r = Some t" 
    and "\<And>h k'. calling me k' \<Longrightarrow> kind k' = kind k \<Longrightarrow> (\<forall>r. r \<noteq> me \<longrightarrow> heap k' r = heap k r) \<Longrightarrow> Q (Inr h) k'"
  shows "wp b (task_add me r) Q k"
  unfolding task_add_def wp_simps
proof (rule wp_read_task [OF assms(1)])
  fix t assume t: "heap k me = Some (TaskObj t)" "object_ok k (TaskObj t)"
  obtain h hs where a: "handles_add (t_handles t) r = (h, hs)" by (cases "handles_add (t_handles t) r")
  have "table hs = (table (t_handles t))(h \<mapsto> r)" using a by (auto simp: handles_add_def)
  then have ok: "object_ok k (TaskObj (t\<lparr>t_handles := hs\<rparr>))"
    using t(2) assms(2) by (auto simp: ran_def split: if_splits)
  show "onward b (\<lambda>t. let (h, hs) = handles_add (t_handles t) r
      in sbind (write_object me (TaskObj (t\<lparr>t_handles := hs\<rparr>))) (\<lambda>_. sreturn h)) Q (Inr t) k"
    by (simp add: a wp_simps) (rule wp_write_object [OF assms(1) t(1) same_core_handles ok], simp add: wp_simps assms(3))
qed

lemma wp_task_remove [wp_calls]:
  assumes "calling me k" and "\<And>k'. calling me k' \<Longrightarrow> kind k' = kind k \<Longrightarrow> Q (Inr ()) k'"
  shows "wp b (task_remove me h) Q k"
  unfolding task_remove_def wp_simps
proof (rule wp_read_task [OF assms(1)])
  fix t assume t: "heap k me = Some (TaskObj t)" "object_ok k (TaskObj t)"
  have ok: "object_ok k (TaskObj (t\<lparr>t_handles := handles_remove (t_handles t) h\<rparr>))"
    using t(2) by (auto simp: handles_remove_def ran_def split: if_splits)
  show "onward b (\<lambda>t. write_object me (TaskObj (t\<lparr>t_handles := handles_remove (t_handles t) h\<rparr>))) Q (Inr t) k"
    by simp (rule wp_write_object [OF assms(1) t(1) same_core_handles ok], simp add: assms(2))
qed

lemma wp_task_id [wp_calls]:
  assumes "calling me k" and "\<And>i. Q (Inr i) k"
  shows "wp b (task_id me) Q k"
  unfolding task_id_def wp_simps by (rule wp_read_task [OF assms(1)]) (simp add: wp_simps assms(2))

lemma wp_object_of [wp_calls]:
  assumes "calling me k" and "\<And>r ob v. heap k r = Some ob \<Longrightarrow> as ob = Some v \<Longrightarrow> object_ok k ob \<Longrightarrow> Q (Inr (r, v)) k"
    and "Q (Inl missing) k" and "Q (Inl wrong) k"
  shows "wp b (object_of me h missing as wrong) Q k"
proof -
  have "wp b (sbind (sget (\<lambda>k. deref k r)) (\<lambda>ob. sbind (ok_or wrong (as ob)) (\<lambda>v. sreturn (r, v)))) Q k"
    if kd: "kind k r = Some t" for r t
  proof -
    obtain ob where ob: "heap k r = Some ob" using kd by (auto simp: kind_def)
    show ?thesis
      using ob assms(2) [OF ob] assms(4) calling_object [OF assms(1) ob]
      by (simp add: wp_get wp_simps deref_def split: option.split)
  qed
  then show ?thesis
    unfolding object_of_def wp_bind [of b "task_get me h"]
    by (intro wp_task_get [OF assms(1)]) (auto simp: wp_bind [of b "ok_or missing _"] wp_ok_or assms(3) split: option.split)
qed

lemma wp_new_id [wp_calls]: "(\<And>i c. Q (Inr i) (k\<lparr>id_counter := c\<rparr>)) \<Longrightarrow> wp b new_id Q k"
  by (simp add: wp_def new_id_def alloc_kernel_object_id_def)

lemma wp_new_object [wp_calls]:
  assumes "calling me k" and "fresh_object ob" and "\<And>k'. kept k k' \<Longrightarrow> object_ok k' ob"
    and "\<And>r k'. calling me k' \<Longrightarrow> kept k k' \<Longrightarrow> kind k' r = Some (kobj_typ ob) \<Longrightarrow> Q (Inr r) k'"
  shows "wp b (new_object ob) Q k"
proof -
  obtain r k' where a: "alloc_object k ob = (r, k')" by (cases "alloc_object k ob")
  have inv: "kernel_inv k" and me: "kind k me = Some TTask" using assms(1) by (simp_all add: calling_def)
  have "kept k k'" using views_alloc(11) [OF fresh_none a] inv by (simp add: kernel_inv_def)
  note v = kernel_inv_alloc [OF inv a assms(2) assms(3) [OF this]]
  have "calling me k'" using v(1) kept_kind [OF v(2) me] by (simp add: calling_def)
  then show ?thesis using assms(4) [OF _ v(2,3)] a by (simp add: wp_def new_object_def)
qed

lemma wp_alloc_frames [wp_calls]: "(\<And>a pm. Q (Inr a) (k\<lparr>pmm_of := pm\<rparr>)) \<Longrightarrow> wp True (alloc_frames p n) Q k"
  by (auto simp: wp_def alloc_frames_def rbind_def split: sum.splits)

lemma wp_lift_partial [wp_calls]: "(\<And>x. r = Inr x \<Longrightarrow> Q (Inr x) k) \<Longrightarrow> wp True (slift r) Q k"
  by (auto simp: wp_lift split: sum.splits)

lemma wp_pointer_write [wp_calls]:
  "(\<And>m. Q (Inr ()) (k\<lparr>user_memory := m\<rparr>)) \<Longrightarrow> Q (Inl ()) k \<Longrightarrow> wp b (pointer_validate_write enc p v) Q k"
  by (simp add: pointer_validate_write_def wp_simps)

lemma wp_pointer_read [wp_calls]: "(\<And>v. Q (Inr v) k) \<Longrightarrow> wp b (pointer_validate_read dec p) Q k"
  by (simp add: pointer_validate_read_def wp_get)

lemma wp_slice_read [wp_calls]: "(\<And>vs. length vs = unat (us_length s) \<Longrightarrow> Q (Inr vs) k) \<Longrightarrow> wp b (slice_validate_read n s) Q k"
  by (simp add: slice_validate_read_def wp_get)

lemma wp_slice_write [wp_calls]: "Q (Inr (us_ptr s)) k \<Longrightarrow> wp b (slice_validate_write s) Q k"
  by (simp add: slice_validate_write_def wp_simps)

lemma wp_string [wp_calls]: "(\<And>vs. Q (Inr vs) k) \<Longrightarrow> Q (Inl ()) k \<Longrightarrow> wp b (user_string_validate s) Q k"
  by (auto simp: user_string_validate_def wp_simps intro!: wp_calls)

lemma wp_get_pure [wp_simps]: "wp b (sget (\<lambda>k. Inr (f k))) Q k \<longleftrightarrow> Q (Inr (f k)) k"
  by (simp add: wp_get)

lemma early_log_safe: "calling me k \<Longrightarrow> wp b (early_log me len a) (\<lambda>r k'. calling me k') k"
  by (auto simp: early_log_def wp_simps intro!: wp_calls)

lemma framebuffer_kind: "calling me k \<Longrightarrow> framebuffer k = Some (i, r) \<Longrightarrow> \<exists>t. kind k r = Some t"
  by (auto simp: calling_def kernel_inv_def roots_ok_def)

lemma get_framebuffer_safe: "calling me k \<Longrightarrow> wp b (get_framebuffer me a) (\<lambda>r k'. calling me k') k"
  by (auto simp: get_framebuffer_def wp_simps framebuffer_kind split: option.split intro!: wp_calls)

lemma create_memory_object_safe: "calling me k \<Longrightarrow> wp True (create_memory_object p me a fl ptr) (\<lambda>r k'. calling me k') k"
  by (auto simp: create_memory_object_def wp_simps memory_object_new_def alloc_kernel_object_id_def intro!: wp_calls)

lemma set_btree_insert: "set (btree_insert x v m) \<subseteq> insert (x, v) (set m)"
  by (induction m) (auto split: if_splits)

lemma same_core_space:
  "same_core (AddressSpaceObj a) (AddressSpaceObj a')" if "as_state a' = as_state a"
  using that by (simp add: same_core_def)

lemma as_map_memory_object_result:
  assumes "as_map_memory_object p a m r va pm = Inr (res, a', pm')"
  shows "as_state a' = as_state a" and "set (mappings a') \<subseteq> insert (va, r) (set (mappings a))"
  using assms set_btree_insert [of va r "mappings a"]
  by (auto simp: as_map_memory_object_def rust_simps split_beta case_sum_eq split: sum.splits)

lemma wp_map_into [wp_calls]:
  assumes k: "calling me k" and kinds: "kind k space = Some TAddressSpace" "kind k r = Some TMemoryObject"
    and Q: "\<And>e k'. calling me k' \<Longrightarrow> kind k' = kind k \<Longrightarrow> Q (Inl e) k'"
      "\<And>k'. calling me k' \<Longrightarrow> kind k' = kind k \<Longrightarrow> Q (Inr ()) k'"
  shows "wp True (map_into p space r va) Q k"
  unfolding map_into_def wp_simps
proof (intro wp_read_space [OF k kinds(1)])
  fix a assume a: "heap k space = Some (AddressSpaceObj a)" "object_ok k (AddressSpaceObj a)"
  have "wp True (\<lambda>k. rbind (as_map_memory_object p a m r va (pmm_of k)) (\<lambda>(res, a', pm).
       Inr (res, (update_object k space (AddressSpaceObj a'))\<lparr>pmm_of := pm\<rparr>))) Q k" for m
  proof (cases "as_map_memory_object p a m r va (pmm_of k)")
    case (Inr x)
    then obtain res a' pm where x: "as_map_memory_object p a m r va (pmm_of k) = Inr (res, a', pm)" by (cases x) auto
    note f = as_map_memory_object_result [OF x]
    have "object_ok k (AddressSpaceObj a')" using a(2) f(2) kinds(2) by auto
    note up = calling_update [OF k a(1) same_core_space [OF f(1)] this]
    show ?thesis using up Q x by (cases res) (simp_all add: wp_def)
  qed (simp add: wp_def)
  then show "onward True (\<lambda>a. sbind (read_object as_memory_object r) (\<lambda>m.
       (\<lambda>k. rbind (as_map_memory_object p a m r va (pmm_of k)) (\<lambda>(res, a', pm).
         Inr (res, (update_object k space (AddressSpaceObj a'))\<lparr>pmm_of := pm\<rparr>))))) Q (Inr a) k"
    by (simp add: wp_simps) (rule wp_read_memory [OF kinds(2)], simp)
qed

lemma task_space_kind: "object_ok k (TaskObj t) \<Longrightarrow> kind k (t_address_space t) = Some TAddressSpace"
  by simp

lemma kind_heap: "heap k r = Some ob \<Longrightarrow> kind k r = Some (kobj_typ ob)"
  by (simp add: kind_def)

lemma map_memory_object_safe: "calling me k \<Longrightarrow> wp True (map_memory_object p me mh ah va ptr) (\<lambda>r k'. calling me k') k"
  by (auto simp: map_memory_object_def wp_simps kind_heap task_space_kind simp del: object_ok.simps
      split: option.split if_splits intro!: wp_calls)

lemma find_mapping_kind:
  "find_mapping k i ms = Some (v, r) \<Longrightarrow> kind k r = Some TMemoryObject"
proof -
  assume "find_mapping k i ms = Some (v, r)"
  then have "case heap k r of Some (MemoryObj m) \<Rightarrow> mo_id m = i | _ \<Rightarrow> False"
    by (auto simp: find_mapping_def find_Some_iff)
  then show ?thesis by (cases "heap k r"; cases "the (heap k r)") (simp_all add: kind_def)
qed

lemma wp_map_extension [wp_calls]:
  assumes k: "calling me k" and Q: "\<And>e k'. calling me k' \<Longrightarrow> kind k' = kind k \<Longrightarrow> Q (Inl e) k'"
      "\<And>k'. calling me k' \<Longrightarrow> kind k' = kind k \<Longrightarrow> Q (Inr ()) k'"
  shows "wp True (map_extension p me i old_size nb by) Q k"
proof -
  have step: "wp True (\<lambda>k. rbind (map_area p (page_table a) nv nb by (mo_flags m) (pmm_of k))
      (\<lambda>(res, pt, pm). let k' = (update_object k space (AddressSpaceObj (a\<lparr>page_table := pt\<rparr>)))\<lparr>pmm_of := pm\<rparr> in
        case res of Inl e \<Rightarrow> Inr (Inl ResizedObjectCannotBeRemapped, k') | Inr u \<Rightarrow> Inr (Inr (), k'))) Q k"
    if a: "heap k space = Some (AddressSpaceObj a)" "object_ok k (AddressSpaceObj a)" for a space m nv
  proof -
    have "calling me (update_object k space (AddressSpaceObj (a\<lparr>page_table := pt\<rparr>)))"
        "kind (update_object k space (AddressSpaceObj (a\<lparr>page_table := pt\<rparr>))) = kind k" for pt
      using calling_update [OF k a(1) same_core_space] a(2) by simp_all
    then show ?thesis using Q by (auto simp: wp_def rbind_def Let_def split: sum.splits)
  qed
  show ?thesis
    unfolding map_extension_def wp_simps
    by (intro wp_read_task [OF k])
      (auto simp: wp_simps k Q simp del: object_ok.simps split: option.split dest!: task_space_kind find_mapping_kind
        intro!: wp_read_space [OF k] wp_lift_partial wp_read_memory step)
qed

text \<open>Objects that hold no references can be overwritten.\<close>

lemma wp_write_plain [wp_calls]:
  assumes "calling me k" and "kind k r = Some (kobj_typ ob)" and "\<And>k'. calling me k' \<Longrightarrow> kind k' = kind k \<Longrightarrow> Q (Inr ()) k'"
    and "kobj_typ ob \<in> {TMemoryObject, TEvent, TInterrupt}"
  shows "wp b (write_object r ob) Q k"
proof -
  obtain ob' where ob': "heap k r = Some ob'" "kobj_typ ob' = kobj_typ ob" using assms(2) by (auto simp: kind_def)
  have "same_core ob' ob" "object_ok k ob" using ob'(2) assms(4) by (cases ob; cases ob'; simp add: same_core_def)+
  then show ?thesis by (rule wp_write_object [OF assms(1) ob'(1)]) (simp add: assms(3))
qed

lemma resize_memory_object_safe: "calling me k \<Longrightarrow> wp True (resize_memory_object p me h n) (\<lambda>r k'. calling me k') k"
  by (auto simp: resize_memory_object_def wp_simps Let_def kind_heap intro!: wp_calls split: option.split)

subsection \<open>Channels\<close>

lemma peers_okD: "peers_ok k \<Longrightarrow> peer_of k r = Some p \<Longrightarrow> kind k p \<noteq> None \<Longrightarrow> p \<noteq> r \<and> peer_of k p = Some r"
  unfolding peers_ok_def by blast

lemma wp_new_channel [wp_calls]:
  fixes k :: "('pt, 'ctx) kernel" and Q :: "'e + ref \<times> ref \<Rightarrow> ('pt, 'ctx) kernel \<Rightarrow> bool"
  assumes k: "calling me k"
    and Q: "\<And>ra rb k'. calling me k' \<Longrightarrow> kept k k' \<Longrightarrow> kind k' ra = Some TChannel \<Longrightarrow> kind k' rb = Some TChannel \<Longrightarrow>
      Q (Inr (ra, rb)) k'"
  shows "wp b (new_channel owner) Q k"
proof -
  let ?n = "next_ref k"
  let ?a = "\<lambda>i. ChannelObj \<lparr>ch_id = i, ch_owner = owner, messages = [], other_end = Some (Suc ?n)\<rparr>"
  let ?b = "\<lambda>i. ChannelObj \<lparr>ch_id = i, ch_owner = owner, messages = [], other_end = Some ?n\<rparr>"
  define k' where "k' = k\<lparr>heap := (heap k)(?n \<mapsto> ?a (id_counter k), Suc ?n \<mapsto> ?b (id_counter k + 1)), next_ref := Suc (Suc ?n), id_counter := id_counter k + 2\<rparr>"
  have run: "new_channel owner k = (Inr (Inr (?n, Suc ?n), k') :: panic + ('e + ref \<times> ref) \<times> ('pt, 'ctx) kernel)"
    by (simp add: new_channel_def sbind_def new_id_def alloc_kernel_object_id_def new_object_def alloc_object_def
        write_object_def smodify_def sreturn_def update_object_def k'_def fun_upd_twist)
  have hp: "heap_ok k" and peers: "peers_ok k" and roots: "roots_ok k" and sched: "sched_ok k" and me: "kind k me = Some TTask"
    using k by (simp_all add: calling_def kernel_inv_def)
  have new: "heap k x = None" if "?n \<le> x" for x
    using hp that unfolding heap_ok_def by (metis leD not_None_eq)
  have views: "kind k' x = (if x = ?n \<or> x = Suc ?n then Some TChannel else kind k x)"
    "peer_of k' x = (if x = ?n then Some (Suc ?n) else if x = Suc ?n then Some ?n else peer_of k x)"
    "state_of k' x = state_of k x" "space_of k' x = space_of k x" "active k' x = active k x" for x
    using new [of ?n] new [of "Suc ?n"]
    by (simp_all add: k'_def kind_def peer_of_def state_of_def space_of_def active_def)
  have none: "kind k ?n = None" "kind k (Suc ?n) = None" using new by (simp_all add: kind_def)
  then have kept: "kept k k'" by (auto simp: kept_def views(1))
  have "heap_ok k'"
  proof -
    have "object_ok k' ob" if "object_ok k ob" for ob
    proof (rule object_ok_cong [OF _ _ that])
      show "kind k' x = kind k x" if "kind k x \<noteq> None" for x using that none by (auto simp: views(1))
    qed (simp add: k'_def)
    then show ?thesis using hp by (auto simp: heap_ok_def k'_def less_Suc_eq split: if_splits)
  qed
  moreover have "peers_ok k'"
  proof -
    have old: "p < ?n" if "peer_of k x = Some p" for x p
      using that hp by (auto simp: view_cases dest: heap_okD)
    show ?thesis
      unfolding peers_ok_def
    proof (intro allI impI, elim conjE)
      fix x p assume xp: "peer_of k' x = Some p" "kind k' p \<noteq> None"
      show "p \<noteq> x \<and> peer_of k' p = Some x"
      proof (cases "x = ?n \<or> x = Suc ?n")
        case True
        then show ?thesis using xp(1) by (auto simp: views(2))
      next
        case False
        then have p: "peer_of k x = Some p" using xp(1) by (simp add: views(2))
        then have "p < ?n" by (rule old)
        then have "kind k p \<noteq> None" using xp(2) by (simp add: views(1))
        then have "p \<noteq> x \<and> peer_of k p = Some x" by (rule peers_okD [OF peers p])
        then show ?thesis using \<open>p < ?n\<close> by (simp add: views(2))
      qed
    qed
  qed
  moreover have "roots_ok k'" using roots kept by (rule roots_ok_kept) (simp_all add: k'_def)
  moreover have "sched_ok k'" using sched unfolding sched_ok_def views(3-5) by (simp add: k'_def)
  ultimately have "calling me k'" using kept_kind [OF kept me] by (simp add: calling_def kernel_inv_def)
  then show ?thesis using Q [OF _ kept] run by (simp add: wp_def views(1))
qed

lemma create_channel_safe: "calling me k \<Longrightarrow> wp b (create_channel me a) (\<lambda>r k'. calling me k') k"
  by (auto simp: create_channel_def wp_simps intro!: wp_calls)

lemma channel_peer_kind:
  assumes "calling me k" and "heap k r = Some (ChannelObj c)" and "other_end c = Some p" and "kind k p \<noteq> None"
  shows "kind k p = Some TChannel"
proof -
  have "peer_of k r = Some p" using assms(2,3) by (simp add: peer_of_def)
  then have "peer_of k p = Some r" using assms(1,4) unfolding calling_def kernel_inv_def peers_ok_def by blast
  then show ?thesis by (auto simp: view_cases kind_Some)
qed

lemma wp_channel_send [wp_calls]:
  assumes k: "calling me k" and c: "heap k r = Some (ChannelObj c)" and m: "message_ok m" "\<And>r. r \<in> set (message_refs m) \<Longrightarrow> kind k r \<noteq> None"
    and Q: "\<And>k'. calling me k' \<Longrightarrow> kind k' = kind k \<Longrightarrow> Q (Inr ()) k'" "\<And>e. Q (Inl e) k"
  shows "wp b (channel_send c m) Q k"
proof (cases "other_end c")
  case (Some p)
  show ?thesis
  proof (cases "heap k p")
    case None
    then show ?thesis using Some Q(2) by (simp add: channel_send_def wp_simps upgrade_def)
  next
    case (Some ob)
    then have "kind k p = Some TChannel" using channel_peer_kind [OF k c \<open>other_end c = Some p\<close>] by (simp add: kind_def)
    then obtain c' where c': "heap k p = Some (ChannelObj c')" by (auto simp: kind_Some)
    have core: "same_core (ChannelObj c') (ChannelObj (add_message c' m))" by (simp add: same_core_def add_message_def)
    have "object_ok k (ChannelObj c')" using k c' by (rule calling_object)
    then have ok: "object_ok k (ChannelObj (add_message c' m))" using m by (auto simp: add_message_def)
    have "wp b (write_object p (ChannelObj (add_message c' m))) Q k"
      by (rule wp_write_object [OF k c' core ok]) (rule Q(1))
    then show ?thesis
      using c' \<open>other_end c = Some p\<close>
      by (simp add: channel_send_def wp_simps upgrade_def) (rule wp_read_object [OF c'], simp_all add: as_channel_def)
  qed
qed (use Q(1) [OF k] in \<open>simp add: channel_send_def wp_simps\<close>)

lemma objects_array_ok:
  "length bs \<le> unat CHANNEL_MAX_NUM_BYTES \<Longrightarrow> length rs \<le> CHANNEL_MAX_NUM_HANDLES \<Longrightarrow>
   message_ok \<lparr>msg_bytes = bs, handle_objects = objects_array rs\<rparr>"
  by (auto simp: message_ok_def objects_array_def)

lemma message_refs_array: "set (message_refs \<lparr>msg_bytes = bs, handle_objects = objects_array rs\<rparr>) = set rs"
  by (force simp: message_refs_def objects_array_def List.map_filter_def)

text \<open>Taking objects out of the table: the handles are gone even when a later one is not valid.\<close>

lemma wp_take_objects:
  assumes k: "calling me k"
    and Q: "\<And>e k'. calling me k' \<Longrightarrow> kind k' = kind k \<Longrightarrow> Q (Inl e) k'"
      "\<And>rs k'. calling me k' \<Longrightarrow> kind k' = kind k \<Longrightarrow> length rs = length hs \<Longrightarrow> (\<forall>r \<in> set rs. kind k r \<noteq> None) \<Longrightarrow> Q (Inr rs) k'"
  shows "wp b (sfor hs (take_object me)) Q k"
proof (rule wp_for [where I = "\<lambda>k'. calling me k' \<and> kind k' = kind k" and E = "\<lambda>_. True" and V = "\<lambda>r. kind k r \<noteq> None"])
  show "wp b (take_object me h) (\<lambda>r k'. (calling me k' \<and> kind k' = kind k) \<and> sound_result (\<lambda>_. True) (\<lambda>r. kind k r \<noteq> None) r) k1"
    if "calling me k1 \<and> kind k1 = kind k" for h k1
    using that by (auto simp: take_object_def wp_simps split: option.split intro!: wp_calls)
qed (use k Q in auto)

lemma send_message_safe: "calling me k \<Longrightarrow> wp b (send_message me h ba nb ha nh) (\<lambda>r k'. calling me k') k"
proof -
  assume k: "calling me k"
  have send: "wp b (sfor hs (take_object me)) (onward b (\<lambda>rs.
      sbind (object_of me ch SendInvalidChannelHandle as_channel SendNotAChannel) (\<lambda>(r, c).
        channel_send c \<lparr>msg_bytes = bs, handle_objects = objects_array rs\<rparr>)) (\<lambda>r k'. calling me k')) k"
    if hs: "length hs \<le> CHANNEL_MAX_NUM_HANDLES" "length bs \<le> unat CHANNEL_MAX_NUM_BYTES" for hs ch bs
  proof (rule wp_take_objects [OF k], simp_all only: post_simps)
    fix rs k' assume k': "calling me k'" "kind k' = kind k" and rs: "length rs = length hs" "\<forall>r \<in> set rs. kind k r \<noteq> None"
    have "wp b (channel_send c \<lparr>msg_bytes = bs, handle_objects = objects_array rs\<rparr>) (\<lambda>r k'. calling me k') k'"
      if "heap k' r = Some (ChannelObj c)" for r c
      by (rule wp_channel_send [OF k'(1) that]) (use rs hs k' in \<open>auto simp: message_refs_array objects_array_ok\<close>)
    then show "wp b (sbind (object_of me ch SendInvalidChannelHandle as_channel SendNotAChannel) (\<lambda>(r, c).
        channel_send c \<lparr>msg_bytes = bs, handle_objects = objects_array rs\<rparr>)) (\<lambda>r k'. calling me k') k'"
      unfolding wp_bind by (intro wp_object_of [OF k'(1)]) (auto simp: k')
  qed
  have small: "unat nh \<le> CHANNEL_MAX_NUM_HANDLES" if "\<not> of_nat CHANNEL_MAX_NUM_HANDLES < nh"
    using that by (simp add: CHANNEL_MAX_NUM_HANDLES_def word_less_nat_alt)
  have short: "unat nb \<le> unat CHANNEL_MAX_NUM_BYTES" if "\<not> CHANNEL_MAX_NUM_BYTES < nb"
    using that by (simp add: word_less_nat_alt)
  show ?thesis
    unfolding send_message_def
    by (auto simp: wp_simps k user_slice_new_def small short simp del: sfor.simps split: option.split
        intro!: send wp_slice_read)
qed


end
