(* ===== verification/Kernel_Invariant.thy ===== *)
theory Kernel_Invariant
  imports Kernel_Safety
begin

text \<open>
  The remaining system calls, the dispatch of a call and the dropping of objects keep the invariant of
  the kernel too, so that it holds in every state the kernel can reach.
\<close>

subsection \<open>Receiving\<close>

lemma count_objects:
  fixes rs :: "ref list"
  shows "foldl (\<lambda>n h. if h \<noteq> None then n + 1 else n) (n :: nat) (map Some rs @ replicate j None) = n + length rs"
proof -
  have "foldl (\<lambda>n h. if h \<noteq> None then n + 1 else n) (m :: nat) (replicate j (None :: ref option)) = m" for m
    by (induction j) simp_all
  moreover have "foldl (\<lambda>n h. if h \<noteq> None then n + 1 else n) n (map Some rs) = n + length rs" for n :: nat
    by (induction rs arbitrary: n) simp_all
  ultimately show ?thesis by (simp only: foldl_append)
qed

lemma message_ok_objects:
  assumes "message_ok m"
  obtains rs where "length rs \<le> 4" and "num_handles m = length rs" and "set (message_refs m) = set rs"
    and "\<And>i. i < length rs \<Longrightarrow> rindex (handle_objects m) i = Inr (Some (rs ! i))"
proof -
  obtain rs where rs: "length rs \<le> 4" "handle_objects m = map Some rs @ replicate (4 - length rs) None"
    using assms by (auto simp: message_ok_def CHANNEL_MAX_NUM_HANDLES_def)
  show thesis
  proof
    show "length rs \<le> 4" by fact
    show "num_handles m = length rs" unfolding num_handles_def rs(2) count_objects by simp
    show "set (message_refs m) = set rs" unfolding message_refs_def rs(2) by (force simp: List.map_filter_def)
    show "rindex (handle_objects m) i = Inr (Some (rs ! i))" if "i < length rs" for i
      using that by (simp add: rs(2) nth_append)
  qed
qed

text \<open>A state that differs only in the table of the calling task and in its memory.\<close>

definition only_caller :: "ref \<Rightarrow> ('pt, 'ctx) kernel \<Rightarrow> ('pt, 'ctx) kernel \<Rightarrow> bool" where
  "only_caller me k k' \<longleftrightarrow> calling me k' \<and> kind k' = kind k \<and> (\<forall>r. r \<noteq> me \<longrightarrow> heap k' r = heap k r)"

lemma only_caller_memory [simp]: "only_caller me k (k'\<lparr>user_memory := m\<rparr>) = only_caller me k k'"
  by (simp add: only_caller_def)

lemma only_caller_trans: "only_caller me k k' \<Longrightarrow> only_caller me k' k'' \<Longrightarrow> only_caller me k k''"
  by (simp add: only_caller_def)

lemma wp_give_objects:
  assumes "calling me k" and m: "message_ok m" "\<And>r. r \<in> set (message_refs m) \<Longrightarrow> \<exists>t. kind k r = Some t"
    and Q: "\<And>us k'. only_caller me k k' \<Longrightarrow> Q (Inr us) k'"
  shows "wp b (sfor [0 ..< num_handles m] (give_object me m buffer)) Q k"
proof (rule wp_for [where I = "only_caller me k" and E = "\<lambda>_. False" and V = "\<lambda>_. True"])
  show "only_caller me k k" using assms(1) by (simp add: only_caller_def)
  fix i k1 assume i: "i \<in> set [0 ..< num_handles m]" and k1: "only_caller me k k1"
  obtain rs where rs: "num_handles m = length rs" "set (message_refs m) = set rs"
      "\<And>i. i < length rs \<Longrightarrow> rindex (handle_objects m) i = Inr (Some (rs ! i))"
    using message_ok_objects [OF m(1)] by metis
  have "\<exists>t. kind k (rs ! i) = Some t" using m(2) rs(1,2) i by simp
  then show "wp b (give_object me m buffer i) (\<lambda>r k'. only_caller me k k' \<and> sound_result (\<lambda>_. False) (\<lambda>_. True) r) k1"
    using rs(1,3) i k1
    by (auto simp: give_object_def wp_simps wp_lift only_caller_def intro!: wp_task_add)
qed (use Q in auto)

lemma wp_deliver:
  assumes ops: "usize_bits (bits p)" and k: "calling me k"
    and m: "message_ok m" "\<And>r. r \<in> set (message_refs m) \<Longrightarrow> \<exists>t. kind k r = Some t"
    and Q: "\<And>e k'. only_caller me k k' \<Longrightarrow> Q (Inl (m, e)) k'" "\<And>w k'. only_caller me k k' \<Longrightarrow> Q (Inr w) k'"
  shows "wp b (deliver p me ba bl ha hl m) Q k"
proof -
  have me: "only_caller me k k" using k by (simp add: only_caller_def)
  have status: "\<exists>w. get_message_status (bits p) (of_nat (length (msg_bytes m))) (of_nat (num_handles m)) = Inr w"
  proof -
    have "length (msg_bytes m) \<le> 4096" using m(1) by (simp add: message_ok_def CHANNEL_MAX_NUM_BYTES_def)
    moreover have "num_handles m \<le> 4" using message_ok_objects [OF m(1)] by metis
    ultimately have small: "unat (of_nat (length (msg_bytes m)) :: usize) < 2 ^ (32 - 16)" "unat (of_nat (num_handles m) :: usize) < 2 ^ (48 - 32)"
      by (simp_all add: unsigned_of_nat take_bit_nat_eq_self)
    obtain w where "set_bits (bits p) 0 16 32 (of_nat (length (msg_bytes m))) = Inr w"
      by (rule set_field [OF ops _ _ small(1), of 0]) auto
    moreover obtain w' where "set_bits (bits p) w 32 48 (of_nat (num_handles m)) = Inr w'"
      by (rule set_field [OF ops _ _ small(2), of w]) auto
    ultimately show ?thesis by (simp add: get_message_status_def)
  qed
  have last: "wp b (slift (get_message_status (bits p) (of_nat (length (msg_bytes m))) (of_nat (num_handles m)))) Q k'"
    if "only_caller me k k'" for k'
    using status Q(2) [OF that] by (auto simp: wp_lift)
  have objs: "wp b (sfor [0 ..< num_handles m] (give_object me m buffer)) (onward b (\<lambda>_. sreturn ())
      (onward b (\<lambda>_. slift (get_message_status (bits p) (of_nat (length (msg_bytes m))) (of_nat (num_handles m)))) Q)) k'"
    if k': "only_caller me k k'" for k' buffer
  proof (rule wp_give_objects [OF _ m(1)])
    show "\<exists>t. kind k' r = Some t" if "r \<in> set (message_refs m)" for r using m(2) [OF that] k' by (simp add: only_caller_def)
  qed (use k' last Q(1) in \<open>auto simp: only_caller_def wp_simps dest: only_caller_trans\<close>)
  show ?thesis
    unfolding deliver_def Let_def
    by (auto simp: wp_simps me Q intro!: wp_slice_write objs last)
qed

lemma wp_receive_from:
  assumes k: "calling me k" and c: "heap k r = Some (ChannelObj c)" and neq: "r \<noteq> me"
    and f: "\<And>m Q. message_ok m \<Longrightarrow> (\<And>x. x \<in> set (message_refs m) \<Longrightarrow> \<exists>t. kind k x = Some t) \<Longrightarrow>
      (\<And>e k'. only_caller me k k' \<Longrightarrow> Q (Inl (m, e)) k') \<Longrightarrow> (\<And>w k'. only_caller me k k' \<Longrightarrow> Q (Inr w) k') \<Longrightarrow> wp b (f m) Q k"
    and Q: "\<And>res k'. calling me k' \<Longrightarrow> Q res k'"
  shows "wp b (receive_from r c f) Q k"
proof (cases "messages c")
  case Nil
  have "calling me (update_object k r (ChannelObj c))"
    using calling_update(1) [OF k c _ calling_object [OF k c]] by (simp add: same_core_def)
  then show ?thesis using Nil Q by (simp add: receive_from_def receive_def wp_def)
next
  case (Cons m ms)
  have ok: "object_ok k (ChannelObj c)" using k c by (rule calling_object)
  then have m: "message_ok m" "\<exists>t. kind k x = Some t" if "x \<in> set (message_refs m)" for x using Cons that by auto
  have mok: "message_ok m" using ok Cons by simp
  have kept_channel: "calling me (update_object k' r (ChannelObj (c\<lparr>messages := ms'\<rparr>)))" if "only_caller me k k'" "set ms' \<subseteq> set (messages c)" for k' ms'
  proof (rule calling_update(1))
    show "calling me k'" "heap k' r = Some (ChannelObj c)" using that(1) c neq by (simp_all add: only_caller_def)
    show "same_core (ChannelObj c) (ChannelObj (c\<lparr>messages := ms'\<rparr>))" by (simp add: same_core_def)
    have "object_ok k' (ChannelObj c)" using \<open>calling me k'\<close> \<open>heap k' r = Some (ChannelObj c)\<close> by (rule calling_object)
    then show "object_ok k' (ChannelObj (c\<lparr>messages := ms'\<rparr>))" using that(2) by auto
  qed
  let ?R = "\<lambda>res k'. only_caller me k k' \<and> (\<forall>m' e. res = Inl (m', e) \<longrightarrow> m' = m)"
  have "wp b (f m) ?R k" by (rule f [OF mok m(2)]) auto
  then show ?thesis
    using kept_channel Cons Q
    by (auto simp: receive_from_def receive_def wp_def rbind_def split: sum.splits prod.splits)
qed

lemma get_message_safe:
  assumes "usize_bits (bits p)" and "calling me k"
  shows "wp b (get_message p me h ba bl ha hl) (\<lambda>r k'. calling me k') k"
proof -
  have "r \<noteq> me" if "heap k r = Some (ChannelObj c)" for r c using that assms(2) by (auto simp: calling_def kind_Some)
  then have "wp b (receive_from r c (deliver p me ba bl ha hl)) (\<lambda>r k'. calling me k') k" if "heap k r = Some (ChannelObj c)" for r c
    using that by (intro wp_receive_from [OF assms(2)] wp_deliver [OF assms(1) assms(2)]) auto
  then show ?thesis
    by (auto simp: get_message_def wp_simps assms(2) simp del: object_ok.simps split: option.split intro!: wp_object_of [OF assms(2)])
qed

subsection \<open>PCI devices\<close>

text \<open>The description of a device does not panic if its memory regions have physical addresses.\<close>

definition bar_ok :: "target \<Rightarrow> bar option \<Rightarrow> bool" where
  "bar_ok t b \<longleftrightarrow> (case b of
      Some (Memory32 a _ _) \<Rightarrow> paddr_valid t (ucast a) | Some (Memory64 a _ _) \<Rightarrow> paddr_valid t a | _ \<Rightarrow> True)"

definition pci_fits :: "target \<Rightarrow> (u32 \<times> pci_device) list \<Rightarrow> bool" where
  "pci_fits t ds \<longleftrightarrow> length ds < 2 ^ 32 \<and> (\<forall>(a, d) \<in> set ds. \<forall>br \<in> set (pci_bars d). bar_ok t br)"

lemma wp_bar_object [wp_calls]:
  assumes "calling me k" and "b \<or> paddr_valid (tgt p) a" and "\<And>h k'. calling me k' \<Longrightarrow> kept k k' \<Longrightarrow> Q (Inr h) k'"
  shows "wp b (bar_object p me a sz pf) Q k"
proof -
  have lift: "wp b (slift (runwrap (paddr_new (tgt p) a))) Q' k" if Q': "Q' (Inr a) k" for Q' :: "'x + paddr \<Rightarrow> _" and k
  proof (cases "paddr_new (tgt p) a")
    case None
    then show ?thesis using assms(2) by (simp add: wp_lift)
  next
    case (Some v)
    then have "v = a" using paddr_new_Some by blast
    then show ?thesis using Some Q' by (simp add: wp_lift)
  qed
  show ?thesis
    using assms(1,3)
    by (auto simp: bar_object_def wp_simps memory_object_new_def alloc_kernel_object_id_def kept_def
        intro!: wp_task_id lift wp_new_id wp_new_object wp_task_add)
qed

lemma wp_describe_bar [wp_calls]:
  assumes "calling me k" and "b \<or> bar_ok (tgt p) br" and "\<And>u k'. calling me k' \<Longrightarrow> kept k k' \<Longrightarrow> Q (Inr u) k'"
  shows "wp b (describe_bar p me br) Q k"
  using assms by (auto simp: describe_bar_def bar_ok_def wp_simps split: option.splits bar.splits intro!: wp_bar_object)

lemma wp_describe_device:
  assumes k: "calling me k" and i: "\<And>r. pci_interrupt d = Some r \<Longrightarrow> \<exists>t. kind k r = Some t"
    and bar: "b \<or> (\<forall>br \<in> set (pci_bars d). bar_ok (tgt p) br)"
    and Q: "\<And>k'. calling me k' \<Longrightarrow> kept k k' \<Longrightarrow> Q (Inr ()) k'"
  shows "wp b (describe_device p me buffer (n, a, d)) Q k"
proof -
  have bars: "wp b (sfor (pci_bars d) (describe_bar p me)) (onward b f Q) k1"
    if k1: "calling me k1" "kept k k1" and f: "\<And>bs k'. calling me k' \<Longrightarrow> kept k k' \<Longrightarrow> wp b (f bs) Q k'" for f k1
    by (rule wp_for [where I = "\<lambda>k'. calling me k' \<and> kept k k'" and E = "\<lambda>_. False" and V = "\<lambda>_. True"])
      (use k1 f bar in \<open>auto intro!: wp_describe_bar dest: kept_trans\<close>)
  show ?thesis
    unfolding describe_device_def
    using k i by (auto simp: wp_simps kept_def split: option.split intro!: bars wp_task_add Q)
qed

lemma pci_status_total:
  assumes "usize_bits ops" and "unat n < 2 ^ 32"
  obtains w where "pci_get_info_status ops n = Inr w"
  by (rule set_field [OF assms(1), of 16 48 n 0]) (use assms(2) in \<open>auto simp: pci_get_info_status_def\<close>)

lemma pci_error_total:
  assumes "usize_bits ops"
  shows "pci_error_into ops e \<noteq> Inl x"
proof (cases e)
  case (BufferNotLargeEnough n)
  obtain w where "set_bits ops 3 16 48 (ucast n) = Inr w"
    by (rule set_field [OF assms, of 16 48 "ucast n" 3]) (use unat_handle [of n] unat_handle_less [of n] in auto)
  then show ?thesis using BufferNotLargeEnough by simp
qed simp_all

lemma pci_get_info_safe:
  assumes k: "calling me k" and ops: "usize_bits (bits p)" and fits: "b \<or> (\<forall>ds. pci_info k = Some ds \<longrightarrow> pci_fits (tgt p) ds)"
  shows "wp b (pci_get_info p me a n) (\<lambda>r k'. calling me k') k"
proof -
  have dev: "wp b (sfor (enumerate 0 ds) (describe_device p me buffer)) (onward b f (\<lambda>r k'. calling me k')) k"
    if ds: "pci_info k = Some ds" and f: "\<And>us k'. calling me k' \<Longrightarrow> wp b (f us) (\<lambda>r k'. calling me k') k'" for ds f buffer
  proof (rule wp_for [where I = "\<lambda>k'. calling me k' \<and> kept k k'" and E = "\<lambda>_. False" and V = "\<lambda>_. True"])
    fix x k1 assume x: "x \<in> set (enumerate 0 ds)" and k1: "calling me k1 \<and> kept k k1"
    obtain i a d where x': "x = (i, a, d)" by (cases x) auto
    have mem: "(a, d) \<in> set ds" using x x' by (metis in_set_enumerate_eq nth_mem snd_conv add_diff_cancel_left' diff_zero less_diff_conv2 add_0)
    then have "kind k r = Some TInterrupt" if "pci_interrupt d = Some r" for r
      using k ds that unfolding calling_def kernel_inv_def roots_ok_def by blast
    moreover have "b \<or> (\<forall>br \<in> set (pci_bars d). bar_ok (tgt p) br)" using fits ds mem by (auto simp: pci_fits_def)
    ultimately show "wp b (describe_device p me buffer x) (\<lambda>r k'. (calling me k' \<and> kept k k') \<and> sound_result (\<lambda>_. False) (\<lambda>_. True) r) k1"
      unfolding x' using k1 by (intro wp_describe_device) (auto dest: kept_trans kept_kind)
  qed (use k f in auto)
  have status: "wp b (slift (pci_get_info_status (bits p) (of_nat (length ds)))) (\<lambda>r k'. calling me k') k'"
    if "pci_info k = Some ds" "calling me k'" for ds k'
  proof (cases b)
    case False
    then have "unat (of_nat (length ds) :: usize) < 2 ^ 32"
      using fits that(1) by (auto simp: pci_fits_def unsigned_of_nat take_bit_nat_eq_self)
    then obtain w where "pci_get_info_status (bits p) (of_nat (length ds)) = Inr w" using pci_status_total [OF ops] by blast
    then show ?thesis using that(2) by (simp add: wp_lift)
  qed (use that(2) in \<open>simp add: wp_lift_partial\<close>)
  show ?thesis
    unfolding pci_get_info_def Let_def
    by (auto simp: wp_simps k split: option.split intro!: dev status wp_slice_write)
qed

subsection \<open>Events, interrupts and waiting\<close>

lemma wp_schedule [wp_calls]:
  assumes "calling me k" and "running_task k = Some me" and "\<And>k'. calling me k' \<Longrightarrow> Q (Inr ()) k'"
  shows "wp b (supdate (\<lambda>k. schedule k Ready)) Q k"
proof -
  have "kernel_inv k" using assms(1) by (simp add: calling_def)
  moreover have "parked k Ready" by (simp add: parked_def)
  ultimately obtain k' where "schedule k Ready = Inr k'" "kernel_inv k'" "kind k' = kind k"
    by (rule schedule_ok [OF _ assms(2)])
  then show ?thesis using assms(1,3) by (simp add: wp_update calling_def)
qed

lemma yield_safe: "calling me k \<Longrightarrow> running_task k = Some me \<Longrightarrow> wp b yield_syscall (\<lambda>r k'. calling me k') k"
  by (auto simp: yield_syscall_def wp_simps intro!: wp_schedule)

lemma calling_in_call:
  assumes "calling me k" and "\<And>r. w = Some r \<Longrightarrow> kind k r = Some TEvent \<or> kind k r = Some TInterrupt"
  shows "calling me (k\<lparr>in_call := (in_call k)(me := w)\<rparr>)"
proof -
  let ?k = "k\<lparr>in_call := (in_call k)(me := w)\<rparr>"
  note v = views_heap [of ?k k, simplified]
  have "heap_ok ?k = heap_ok k" by (rule heap_ok_frame) simp_all
  moreover have "peers_ok ?k = peers_ok k" "sched_ok ?k = sched_ok k" unfolding peers_ok_def sched_ok_def v by simp_all
  moreover have "ran (in_call ?k) \<subseteq> ran (in_call k) \<union> set_option w" by (auto simp: ran_def split: if_splits)
  then have "roots_ok ?k" using assms unfolding calling_def kernel_inv_def roots_ok_def v by fastforce
  ultimately show ?thesis using assms(1) by (simp add: calling_def kernel_inv_def v)
qed

lemma event_wait_safe:
  assumes "calling me k" and "running_task k = Some me" and "kind k r = Some TEvent"
  shows "wp b (event_wait_loop me r) (\<lambda>r k'. calling me k') k"
proof -
  have wait: "calling me (k\<lparr>in_call := (in_call k)(me \<mapsto> r)\<rparr>)" using assms by (intro calling_in_call) auto
  show ?thesis
    using assms wait
    by (auto simp: event_wait_loop_def wp_simps wp_lift take_flag_def kind_Some
        intro!: wp_read_object wp_write_plain wp_schedule [where me = me] calling_in_call)
qed

lemma interrupt_wait_safe:
  assumes "calling me k" and "running_task k = Some me" and "kind k r = Some TInterrupt"
  shows "wp b (interrupt_wait_loop me r) (\<lambda>r k'. calling me k') k"
proof -
  have wait: "calling me (k\<lparr>in_call := (in_call k)(me \<mapsto> r)\<rparr>)" using assms by (intro calling_in_call) auto
  show ?thesis
    using assms wait
    by (auto simp: interrupt_wait_loop_def wp_simps wp_lift take_flag_def kind_Some
        intro!: wp_read_object wp_write_plain wp_schedule [where me = me] calling_in_call)
qed

lemma wait_for_event_safe:
  "calling me k \<Longrightarrow> running_task k = Some me \<Longrightarrow> wp b (wait_for_event me h bl) (\<lambda>r k'. calling me k') k"
  by (auto simp: wait_for_event_def wp_simps kind_heap split: option.split intro!: wp_object_of event_wait_safe wp_write_plain)

lemma wait_for_interrupt_safe:
  "calling me k \<Longrightarrow> running_task k = Some me \<Longrightarrow> wp b (wait_for_interrupt me h bl) (\<lambda>r k'. calling me k') k"
  by (auto simp: wait_for_interrupt_def wp_simps kind_heap split: option.split intro!: wp_object_of interrupt_wait_safe wp_write_plain)

lemma ack_interrupt_safe: "calling me k \<Longrightarrow> wp b (ack_interrupt me h) (\<lambda>r k'. calling me k') k"
proof -
  assume k: "calling me k"
  have "calling me (update_object k r (InterruptObj i'))" if "heap k r = Some (InterruptObj i)" for r i i'
    using k that by (rule calling_update(1)) (simp_all add: same_core_def)
  then show ?thesis
    by (auto simp: ack_interrupt_def wp_simps k interrupt_rearm_def split: option.split intro!: wp_object_of [OF k])
qed

lemma poll_interest_safe: "calling me k \<Longrightarrow> wp b (poll_interest me h) (\<lambda>r k'. k' = k) k"
proof -
  assume k: "calling me k"
  have "wp b (sget (\<lambda>k. deref k r)) (onward b (\<lambda>ob. sbind (case kobj_typ ob of
         TChannel \<Rightarrow> slift (rbind (runwrap (as_channel ob)) (\<lambda>c. Inr (length (messages c) > 0)))
       | TEvent \<Rightarrow> slift (rbind (runwrap (as_event ob)) (\<lambda>e. Inr (signalled e)))
       | TInterrupt \<Rightarrow> slift (rbind (runwrap (as_interrupt ob)) (\<lambda>i. Inr (triggered i)))
       | _ \<Rightarrow> sfail UnsupportedObjectType) (\<lambda>interesting. sreturn (poll_interest_status interesting)))
      (\<lambda>r k'. k' = k)) k" if "kind k r = Some t" for r t
  proof -
    obtain ob where "heap k r = Some ob" using \<open>kind k r = Some t\<close> by (auto simp: kind_def)
    then show ?thesis
      by (cases ob) (simp_all add: wp_get deref_def wp_simps wp_lift as_channel_def as_event_def as_interrupt_def)
  qed
  then show ?thesis
    by (auto simp: poll_interest_def wp_simps split: option.split intro!: wp_task_get [OF k])
qed

subsection \<open>Address spaces and tasks\<close>

lemma create_address_space_safe: "calling me k \<Longrightarrow> wp True (create_address_space p me) (\<lambda>r k'. calling me k') k"
proof -
  assume k: "calling me k"
  have "wp True (\<lambda>k. rbind (address_space_new p (id_counter k) (pmm_of k) owner) (\<lambda>(a, c, pm).
         new_object (AddressSpaceObj a) (k\<lparr>id_counter := c, pmm_of := pm\<rparr>))) (onward True (task_add me) (\<lambda>r k'. calling me k')) k" for owner
  proof (cases "address_space_new p (id_counter k) (pmm_of k) owner")
    case (Inr x)
    then obtain a c pm where a: "address_space_new p (id_counter k) (pmm_of k) owner = Inr (a, c, pm)" by (cases x) auto
    then have "as_state a = NotActive" "mappings a = []"
      by (auto simp: address_space_new_def rust_simps Let_def alloc_kernel_object_id_def)
    then have "wp True (new_object (AddressSpaceObj a)) (onward True (task_add me) (\<lambda>r k'. calling me k')) (k\<lparr>id_counter := c, pmm_of := pm\<rparr>)"
      using k by (auto intro!: wp_new_object wp_task_add)
    then show ?thesis using a by (simp add: wp_def)
  qed (simp add: wp_def)
  then show ?thesis by (auto simp: create_address_space_def wp_simps intro!: wp_task_id [OF k])
qed

lemma alloc_task_slot_result:
  assumes "alloc_task_slot p a n pm = Inr (slot, a', pm')"
  shows "as_state a' = as_state a" and "mappings a' = mappings a"
  using assms
  by (auto simp: alloc_task_slot_def rust_simps Let_def case_option_eq split_beta case_sum_eq split: option.splits sum.splits)

lemma queued_exists:
  assumes "kernel_inv k" and "kind k r = None"
  shows "r \<notin> set (ready_queue k)"
  using assms unfolding kernel_inv_def sched_ok_def by (auto simp: view_cases)

lemma task_new_result:
  assumes "task_new p k owner space nm ep hs = Inr (Inr r, k')" and "heap k space = Some (AddressSpaceObj a)"
  obtains s a' pm v pm' t where "alloc_task_slot p a 0x8000 (pmm_of k) = Inr (Some s, a', pm)"
    and "t_state t = Ready" and "t_address_space t = space" and "t_handles t = hs"
    and "alloc_object ((update_object (k\<lparr>id_counter := id_counter k + 1\<rparr>) space (AddressSpaceObj a'))\<lparr>vmm_of := v, pmm_of := pm'\<rparr>)
      (TaskObj t) = (r, k')"
proof -
  let ?k = "k\<lparr>id_counter := id_counter k + 1\<rparr>"
  have deref: "deref_address_space ?k space = Inr a"
    using assms(2) by (simp add: deref_address_space_def deref_def as_address_space_def)
  obtain s a' pm where s: "alloc_task_slot p a 0x8000 (pmm_of k) = Inr (Some s, a', pm)"
    using assms(1) by (auto simp: task_new_def alloc_kernel_object_id_def deref rust_simps Let_def case_option_eq)
  let ?k1 = "(update_object ?k space (AddressSpaceObj a'))\<lparr>pmm_of := pm\<rparr>"
  obtain kst v pm' where v: "alloc_kernel_stack p (vmm_of ?k1) pm 0x4000 = Inr (Some kst, v, pm')"
    using assms(1) by (auto simp: task_new_def alloc_kernel_object_id_def deref s rust_simps Let_def case_option_eq)
  let ?t = "\<lparr>t_id = id_counter k, t_owner = owner, t_name = nm, t_address_space = space, t_state = Ready,
      user_slot = s, kernel_stack = kst, context_of = new_task_context p kst (user_stack s) ep, t_handles = hs\<rparr>"
  have "alloc_object (?k1\<lparr>vmm_of := v, pmm_of := pm'\<rparr>) (TaskObj ?t) = (r, k')"
    using assms(1) v by (simp add: task_new_def alloc_kernel_object_id_def deref s Let_def split_beta prod_eq_iff)
  then show thesis by (intro that [OF s, where t = ?t and v = v and pm' = pm']) simp_all
qed

lemma wp_task_new:
  assumes k: "calling me k" and space: "kind k space = Some TAddressSpace"
    and hs: "\<And>r. r \<in> ran (table hs) \<Longrightarrow> \<exists>t. kind k r = Some t"
    and Q: "\<And>r k'. calling me k' \<Longrightarrow> kept k k' \<Longrightarrow> state_of k' r = Some Ready \<Longrightarrow> r \<notin> set (ready_queue k') \<Longrightarrow> Q (Inr r) k'"
  shows "wp True (sunwrap (\<lambda>k. task_new p k owner space nm ep hs)) Q k"
proof (cases "task_new p k owner space nm ep hs")
  case (Inr x)
  then obtain res k' where x: "task_new p k owner space nm ep hs = Inr (res, k')" by (cases x) auto
  show ?thesis
  proof (cases res)
    case (Inr r)
    let ?k1 = "k\<lparr>id_counter := id_counter k + 1\<rparr>"
    obtain a where a: "heap k space = Some (AddressSpaceObj a)" using space by (auto simp: kind_Some)
    obtain s a' pm v pm' t where
        s: "alloc_task_slot p a 0x8000 (pmm_of k) = Inr (Some s, a', pm)"
        and t: "t_state t = Ready" "t_address_space t = space" "t_handles t = hs"
        and al: "alloc_object ((update_object ?k1 space (AddressSpaceObj a'))\<lparr>vmm_of := v, pmm_of := pm'\<rparr>) (TaskObj t) = (r, k')"
      by (rule task_new_result [OF x [unfolded Inr] a])
    let ?k2 = "(update_object ?k1 space (AddressSpaceObj a'))\<lparr>vmm_of := v, pmm_of := pm'\<rparr>"
    note res = alloc_task_slot_result [OF s]
    have ok: "object_ok ?k1 (AddressSpaceObj a')"
      using calling_object [OF k a] by (simp add: res(2))
    have k1: "calling me ?k1" "heap ?k1 space = Some (AddressSpaceObj a)" using k a by simp_all
    note up = calling_update [OF k1 same_core_space [OF res(1)] ok]
    have k2: "calling me ?k2" "kind ?k2 = kind k" using up by simp_all
    have inv2: "kernel_inv ?k2" "kind ?k2 me = Some TTask" using k2(1) unfolding calling_def by blast+
    have none: "heap ?k2 (next_ref ?k2) = None" by (rule fresh_none) (use inv2(1) in \<open>simp add: kernel_inv_def\<close>)
    note av = views_alloc [OF none al]
    have kept2: "kept k k'" using av(11) k2(2) by (simp add: kept_def)
    have "object_ok k' (TaskObj t)" using t kept_kind [OF kept2] space hs by fastforce
    note inv' = kernel_inv_alloc [OF inv2(1) al _ this]
    have "calling me k'" using inv'(1) kept_kind [OF kept2] k t(1) by (simp add: calling_def)
    moreover have "state_of k' r = Some Ready" using t(1) by (simp add: state_of_def av(2))
    moreover have "r \<notin> set (ready_queue k')"
      using queued_exists [OF inv2(1), of r] none unfolding av(5) by (simp add: kind_def av(1))
    ultimately show ?thesis using Q [OF _ kept2] x Inr by (simp add: wp_def sunwrap_def)
  qed (use x in \<open>simp add: wp_def sunwrap_def\<close>)
qed (simp add: wp_def sunwrap_def)

lemma wp_copy_handles:
  assumes "calling me k" and "\<And>r. r \<in> ran (table hs) \<Longrightarrow> \<exists>t. kind k r = Some t"
    and "\<And>hs. (\<And>r. r \<in> ran (table hs) \<Longrightarrow> \<exists>t. kind k r = Some t) \<Longrightarrow> Q (Inr hs) k" and "\<And>e. Q (Inl e) k"
  shows "wp b (copy_handles me hs xs) Q k"
  using assms(2)
proof (induction xs arbitrary: hs)
  case (Cons x xs)
  have "wp b (copy_handles me (snd (handles_add hs r)) xs) Q k" if r: "kind k r = Some t" for r t
  proof (rule Cons.IH)
    show "\<exists>t. kind k y = Some t" if "y \<in> ran (table (snd (handles_add hs r)))" for y
      using that r Cons.prems by (auto simp: handles_add_def ran_def split: if_splits)
  qed
  then show ?case
    by (auto simp: wp_simps assms(4) split: option.split intro!: wp_task_get [OF assms(1)])
qed (simp add: wp_simps assms(3))

lemma wp_add_task:
  assumes "calling me k" and "state_of k r = Some Ready" and "r \<notin> set (ready_queue k)"
    and "\<And>k'. calling me k' \<Longrightarrow> kind k' = kind k \<Longrightarrow> Q (Inr ()) k'"
  shows "wp b (supdate (\<lambda>k. add_task k r)) Q k"
  using assms(1,4) add_task_ok [OF _ assms(2,3)] by (simp add: wp_update calling_def)

lemma spawn_task_safe:
  assumes k: "calling me k"
  shows "wp True (spawn_task p me a) (\<lambda>r k'. calling me k') k"
proof -
  have fin: "wp True (sbind (supdate (\<lambda>k. add_task k r)) (\<lambda>_. task_add me r)) (\<lambda>r k'. calling me k') k'"
    if "calling me k'" "state_of k' r = Some Ready" "r \<notin> set (ready_queue k')" for r k'
  proof -
    have "kind k' r = Some TTask" using that(2) by (auto simp: view_cases kind_Some)
    then show ?thesis unfolding wp_simps by (intro wp_add_task [OF that]) (auto intro!: wp_task_add)
  qed
  have "wp True (copy_handles me (snd (handles_add handles_new space)) xs) (onward True (\<lambda>hs.
     sbind (task_id me) (\<lambda>owner.
     sbind (sunwrap (\<lambda>k. task_new p k owner space nm ep hs)) (\<lambda>r.
     sbind (supdate (\<lambda>k. add_task k r)) (\<lambda>_. task_add me r)))) (\<lambda>r k'. calling me k')) k"
    if "kind k space = Some TAddressSpace" for space xs nm ep
  proof (rule wp_copy_handles [OF k])
    show "\<exists>t. kind k r = Some t" if "r \<in> ran (table (snd (handles_add handles_new space)))" for r
      using that \<open>kind k space = Some TAddressSpace\<close> by (auto simp: handles_add_def handles_new_def ran_def split: if_splits)
  qed (use that k in \<open>auto simp: wp_bind [of True "task_id me"] wp_bind [of True "sunwrap _"] intro!: wp_task_id wp_task_new [OF k] fin\<close>)
  then show ?thesis
    by (auto simp: spawn_task_def wp_simps k kind_heap split: option.split
        intro!: wp_pointer_read wp_string wp_object_of [OF k] wp_slice_read)
qed

subsection \<open>Dropping objects\<close>

lemma drop_keeps:
  assumes inv: "kernel_inv k" and r: "\<not> referenced k r"
  shows "kernel_inv (k\<lparr>heap := (heap k)(r := None)\<rparr>)" (is "kernel_inv ?k")
proof -
  have hp: "heap_ok k" and peers: "peers_ok k" and roots: "roots_ok k" and sched: "sched_ok k"
    using inv by (simp_all add: kernel_inv_def)
  have nr: "r \<notin> roots k" using r by (simp add: referenced_def)
  have nref: "r \<notin> refs_of ob" if "heap k x = Some ob" for x ob
  proof -
    have "x < next_ref k" using hp that unfolding heap_ok_def by blast
    then show ?thesis using r that by (auto simp: referenced_def dest: bspec [of _ _ x])
  qed
  have v: "kind ?k x = (if x = r then None else kind k x)" "state_of ?k x = (if x = r then None else state_of k x)"
    "space_of ?k x = (if x = r then None else space_of k x)" "active ?k x = (x \<noteq> r \<and> active k x)"
    "peer_of ?k x = (if x = r then None else peer_of k x)" for x
    by (simp_all add: kind_def state_of_def space_of_def active_def peer_of_def)
  have idle: "running_task k \<noteq> Some r" "r \<notin> set (ready_queue k)" "r \<notin> set (blocked_queue k)" "r \<notin> ran (in_call k)"
    using nr by (auto simp: roots_def)
  have "object_ok ?k ob" if x: "heap k x = Some ob" for x ob
  proof -
    have "object_ok k ob" using hp x by (rule heap_okD)
    then show ?thesis using nref [OF x]
      by (cases ob) (auto simp: v table_refs_def image_iff split: task_state.splits task_block.splits)
  qed
  then have "heap_ok ?k" using hp by (auto simp: heap_ok_def split: if_splits)
  moreover have "peers_ok ?k"
    unfolding peers_ok_def
  proof (intro allI impI, elim conjE)
    fix x p assume "peer_of ?k x = Some p" and "kind ?k p \<noteq> None"
    then have xp: "x \<noteq> r" "peer_of k x = Some p" "p \<noteq> r" "kind k p \<noteq> None" by (auto simp: v split: if_splits)
    show "p \<noteq> x \<and> peer_of ?k p = Some x" using peers_okD [OF peers xp(2,4)] xp(3) by (simp add: v)
  qed
  moreover have "roots_ok ?k"
  proof -
    have "r \<noteq> x" if "framebuffer k = Some (i, x)" for i x using nr that by (auto simp: roots_def)
    moreover have "r \<noteq> x" if "pci_info k = Some ds" "(a, d) \<in> set ds" "pci_interrupt d = Some x" for ds a d x
      using nr that by (fastforce simp: roots_def)
    ultimately show ?thesis using roots idle(4) unfolding roots_ok_def v by auto blast+
  qed
  moreover have "sched_ok ?k"
    unfolding sched_ok_def
  proof (intro conjI allI ballI)
    show "state_of ?k x = Some Running \<longleftrightarrow> running_task ?k = Some x" for x
      using sched idle(1) unfolding sched_ok_def v by auto
    show "active ?k x \<longleftrightarrow> (\<exists>t. running_task ?k = Some t \<and> space_of ?k t = Some x)" for x
    proof -
      have "x \<noteq> r" if "running_task k = Some t" "space_of k t = Some x" for t
        using that nref by (fastforce simp: view_cases)
      then show ?thesis using sched idle(1) unfolding sched_ok_def v by auto
    qed
    show "state_of ?k x = Some Ready" if "x \<in> set (ready_queue ?k)" for x
      using that sched idle(2) unfolding sched_ok_def v by auto
    show "\<exists>b. state_of ?k x = Some (Blocked b)" if "x \<in> set (blocked_queue ?k)" for x
      using that sched idle(3) unfolding sched_ok_def v by auto
    show "distinct (ready_queue ?k @ blocked_queue ?k)" using sched by (simp add: sched_ok_def)
  qed
  ultimately show ?thesis by (simp add: kernel_inv_def)
qed

lemma collect_inv: "kernel_inv k \<Longrightarrow> kernel_inv (collect k)"
proof (induction k rule: collect.induct)
  case (1 k)
  show ?case
  proof (cases "garbage k")
    case None
    then show ?thesis using 1 by (simp add: collect.simps [of k])
  next
    case (Some r)
    show ?thesis
      unfolding collect.simps [of k] Some option.case
      using 1(1) [OF Some] drop_keeps [OF 1(2) garbage_Some(3) [OF Some]] by blast
  qed
qed

subsection \<open>Dispatch\<close>

text \<open>The calls that allocate physical memory, for an object, for page tables or for stacks, and the one that
  is not written yet.\<close>

definition may_panic :: "usize \<Rightarrow> bool" where
  "may_panic n \<longleftrightarrow> n \<in> {SYSCALL_CREATE_MEMORY_OBJECT, SYSCALL_MAP_MEMORY_OBJECT, SYSCALL_WAIT_FOR_MESSAGE,
     SYSCALL_CREATE_ADDRESS_SPACE, SYSCALL_SPAWN_TASK, SYSCALL_RESIZE_MEMORY_OBJECT}"

definition leads :: "bool \<Rightarrow> ref \<Rightarrow> panic + ('r \<times> ('pt, 'ctx) kernel) \<Rightarrow> bool" where
  "leads b me m \<longleftrightarrow> (case m of Inl p \<Rightarrow> b | Inr (r, k') \<Rightarrow> calling me k')"

lemma leads_status: "wp b m (\<lambda>r k'. calling me k') k \<Longrightarrow> leads b me (run_status tbl m k)"
  by (auto simp: wp_def leads_def run_status_def rbind_def split: sum.splits)

lemma leads_wait: "wp b m (\<lambda>r k'. calling me k') k \<Longrightarrow> leads b me (run_wait tbl m k)"
  by (auto simp: wp_def leads_def run_wait_def rbind_def split: sum.splits progress.splits)

lemma leads_payload: "wp b m (\<lambda>r k'. calling me k') k \<Longrightarrow> b \<or> (\<forall>e p. into e \<noteq> Inl p) \<Longrightarrow> leads b me (run_payload into m k)"
  by (auto simp: wp_def leads_def run_payload_def status_with_payload_to_syscall_repr_def rbind_def split: sum.splits)

lemma leads_handle: "wp b m (\<lambda>r k'. calling me k') k \<Longrightarrow> b \<or> (\<forall>r p. handle_to_syscall_repr ops tbl r \<noteq> Inl p) \<Longrightarrow>
   leads b me (run_handle ops tbl m k)"
  by (auto simp: wp_def leads_def run_handle_def rbind_def split: sum.splits)

lemma handle_repr_total:
  assumes "usize_bits ops" and "error_table tbl"
  shows "handle_to_syscall_repr ops tbl r \<noteq> Inl p"
  using error_table.handle_roundtrip [OF assms(2,1), of r] by auto

definition pci_calls :: "('pt, 'ctx) platform \<Rightarrow> usize \<Rightarrow> ('pt, 'ctx) kernel \<Rightarrow> bool" where
  "pci_calls p n k \<longleftrightarrow> (n = SYSCALL_PCI_GET_INFO \<longrightarrow> (\<forall>ds. pci_info k = Some ds \<longrightarrow> pci_fits (tgt p) ds))"

lemma syscall_body_safe:
  assumes ops: "usize_bits (bits p)" and k: "calling me k" and run: "running_task k = Some me"
  shows "leads (may_panic n \<or> \<not> pci_calls p n k) me (syscall_body p me n a b c d e k)"
proof -
  have "leads True me (syscall_body p me n a b c d e k)" if "may_panic n"
    using that unfolding may_panic_def
    by (auto simp: syscall_body_def syscall_numbers leads_def [of True me "Inl _"]
        intro!: leads_status leads_handle create_memory_object_safe map_memory_object_safe
          create_address_space_safe spawn_task_safe resize_memory_object_safe k)
  moreover have "leads b' me (syscall_body p me n a b c d e k)" if "\<not> may_panic n" "b' \<or> pci_calls p n k" for b'
  proof -
    have frame: "leads b' me (run_handle (bits p) GetFramebufferError (get_framebuffer me a) k)"
      "leads b' me (run_handle (bits p) CreateChannelError (create_channel me a) k)"
      using get_framebuffer_safe [OF k] create_channel_safe [OF k]
        handle_repr_total [OF ops get_framebuffer.error_table_axioms] handle_repr_total [OF ops create_channel.error_table_axioms]
      by (auto intro!: leads_handle)
    have pay: "leads b' me (run_payload Inr yield_syscall k)"
      "leads b' me (run_payload (\<lambda>err. Inr (error_into GetMessageError err)) (get_message p me a b c d e) k)"
      "leads b' me (run_payload (\<lambda>err. Inr (error_into PollInterestError err)) (poll_interest me a) k)"
      using yield_safe [OF k run] get_message_safe [OF ops k] wp_mono [OF poll_interest_safe [OF k], of "\<lambda>r k'. calling me k'"] k
      by (auto intro!: leads_payload)
    have pci: "leads b' me (run_payload (pci_error_into (bits p)) (pci_get_info p me a b) k)" if "n = SYSCALL_PCI_GET_INFO"
      using that \<open>b' \<or> pci_calls p n k\<close> pci_error_total [OF ops]
      by (intro leads_payload pci_get_info_safe [OF k ops]) (auto simp: pci_calls_def)
    show ?thesis
      using that(1) frame pay pci early_log_safe [OF k] send_message_safe [OF k] wait_for_event_safe [OF k run]
        wait_for_interrupt_safe [OF k run] ack_interrupt_safe [OF k] k
      by (auto simp: syscall_body_def may_panic_def leads_def [of b' me "Inr _"] intro!: leads_status leads_wait)
  qed
  ultimately show ?thesis by (cases "may_panic n"; cases "pci_calls p n k") auto
qed

lemma handle_syscall_safe:
  assumes "usize_bits (bits p)" and "kernel_inv k" and "running_task k = Some me"
  shows "\<not> may_panic n \<Longrightarrow> pci_calls p n k \<Longrightarrow> \<exists>r k'. handle_syscall p n a b c d e k = Inr (r, k') \<and> kernel_inv k'"
    and "handle_syscall p n a b c d e k = Inr (r, k') \<Longrightarrow> kernel_inv k'"
proof -
  have "state_of k me = Some Running" using assms(2,3) by (simp add: kernel_inv_def sched_ok_def)
  then have "kind k me = Some TTask" by (auto simp: view_cases kind_Some)
  then have k: "calling me k" using assms(2) by (simp add: calling_def)
  note l = syscall_body_safe [OF assms(1) k assms(3), of n a b c d e]
  show "\<exists>r k'. handle_syscall p n a b c d e k = Inr (r, k') \<and> kernel_inv k'" if "\<not> may_panic n" "pci_calls p n k"
    using l that assms(3) by (auto simp: leads_def handle_syscall_def calling_def collect_inv split: sum.splits)
  show "handle_syscall p n a b c d e k = Inr (r, k') \<Longrightarrow> kernel_inv k'"
    using l assms(3) by (auto simp: leads_def handle_syscall_def calling_def collect_inv rust_simps)
qed

subsection \<open>Runs of the kernel\<close>

text \<open>What can happen next: the running task makes a system call or goes on with one that it waits in, it
  writes to its memory, it is preempted, or hardware signals an event or an interrupt.\<close>

inductive kernel_step :: "('pt, 'ctx) platform \<Rightarrow> ('pt, 'ctx) kernel \<Rightarrow> ('pt, 'ctx) kernel \<Rightarrow> bool"
  for p :: "('pt, 'ctx) platform" where
  call: "running_task k = Some me \<Longrightarrow> in_call k me = None \<Longrightarrow> handle_syscall p n a b c d e k = Inr (r, k') \<Longrightarrow> kernel_step p k k'"
| resume_event: "running_task k = Some me \<Longrightarrow> in_call k me = Some r \<Longrightarrow> kind k r = Some TEvent \<Longrightarrow>
    event_wait_loop me r k = Inr (res :: unit + unit progress, k') \<Longrightarrow> kernel_step p k (collect k')"
| resume_interrupt: "running_task k = Some me \<Longrightarrow> in_call k me = Some r \<Longrightarrow> kind k r = Some TInterrupt \<Longrightarrow>
    interrupt_wait_loop me r k = Inr (res :: unit + unit progress, k') \<Longrightarrow> kernel_step p k (collect k')"
| user: "kernel_step p k (k\<lparr>user_memory := m\<rparr>)"
| preempt: "running_task k = Some me \<Longrightarrow> schedule k Ready = Inr k' \<Longrightarrow> kernel_step p k k'"
| signal: "heap k r = Some (EventObj ev) \<Longrightarrow> kernel_step p k (update_object k r (EventObj (event_signal ev)))"
| trigger: "heap k r = Some (InterruptObj i) \<Longrightarrow> kernel_step p k (update_object k r (InterruptObj (interrupt_trigger i)))"

inductive kernel_run :: "('pt, 'ctx) platform \<Rightarrow> ('pt, 'ctx) kernel \<Rightarrow> ('pt, 'ctx) kernel \<Rightarrow> bool"
  for p :: "('pt, 'ctx) platform" and k0 :: "('pt, 'ctx) kernel" where
  start: "kernel_run p k0 k0"
| step: "kernel_run p k0 k \<Longrightarrow> kernel_step p k k' \<Longrightarrow> kernel_run p k0 k'"

lemma running_calling: "kernel_inv k \<Longrightarrow> running_task k = Some me \<Longrightarrow> calling me k"
  by (auto simp: calling_def kernel_inv_def sched_ok_def view_cases kind_Some)

lemma kernel_step_inv:
  assumes "usize_bits (bits p)" and "kernel_step p k k'" and inv: "kernel_inv k"
  shows "kernel_inv k'"
  using assms(2)
proof cases
  case (call me n a b c d e r)
  then show ?thesis using handle_syscall_safe(2) [OF assms(1) inv] by blast
next
  case (resume_event me r res k1)
  have "calling me k1" using wp_partial [OF event_wait_safe [OF running_calling [OF inv]]] resume_event by blast
  then show ?thesis using resume_event by (simp add: calling_def collect_inv)
next
  case (resume_interrupt me r res k1)
  have "calling me k1" using wp_partial [OF interrupt_wait_safe [OF running_calling [OF inv]]] resume_interrupt by blast
  then show ?thesis using resume_interrupt by (simp add: calling_def collect_inv)
next
  case (user m)
  have "kernel_inv (k\<lparr>user_memory := m\<rparr>) = kernel_inv k" by (rule kernel_inv_frame) simp_all
  then show ?thesis using inv user by simp
next
  case (preempt me)
  have "parked k Ready" by (simp add: parked_def)
  then obtain k1 where "schedule k Ready = Inr k1" "kernel_inv k1" by (rule schedule_ok [OF inv preempt(1)])
  then show ?thesis using preempt(2) by simp
next
  case (signal r ev)
  then show ?thesis using kernel_inv_update [OF inv signal(2)] by (simp add: same_core_def)
next
  case (trigger r i)
  then show ?thesis using kernel_inv_update [OF inv trigger(2)] by (simp add: same_core_def)
qed

lemma kernel_run_inv: "kernel_run p k0 k \<Longrightarrow> usize_bits (bits p) \<Longrightarrow> kernel_inv k0 \<Longrightarrow> kernel_inv k"
  by (induction rule: kernel_run.induct) (auto intro: kernel_step_inv)

definition sample_platform :: "(unit, unit) platform" where
  "sample_platform = \<lparr>tgt = X86_64, new_task_page_tables = (\<lambda>pm. Inr ((), pm)),
     map_area = (\<lambda>pt v a n f pm. Inr (Inr (), pt, pm)), new_task_context = (\<lambda>ks us e. ()),
     bits = word_bit_ops, flags_contain = (\<lambda>bs f. bs AND f = f)\<rparr>"

lemma sample_bits: "usize_bits (bits sample_platform)"
  using usize_word_bits by (simp add: sample_platform_def)

subsection \<open>Properties\<close>

text \<open>C5: whatever the tasks and the hardware do, the kernel keeps its invariant: no table, message, queue or
  mapping refers to an object that was dropped, references have objects of the right type behind
  them, exactly the running task is in the state \<open>Running\<close> and exactly its address space is active, and
  the queues of the scheduler hold each task at most once and in the right state.\<close>

theorem kernel_inv_reachable:
  assumes "bit_field (bits p) (\<lambda>_. 64) (bit :: usize \<Rightarrow> nat \<Rightarrow> bool)" and "kernel_inv k0" and "kernel_run p k0 k"
  shows "kernel_inv k"
  using kernel_run_inv [OF assms(3) assms(1,2)] .

theorem kernel_inv_reachable_witness:
  "kernel_inv (sample_kernel\<lparr>user_memory := (\<lambda>_. 1)\<rparr>)"
  using kernel_inv_reachable [OF sample_bits sample_inv kernel_run.step [OF kernel_run.start kernel_step.user]] .

text \<open>C15: no argument of a system call makes the kernel panic in its own code, unless the call is one of the five that
  allocate physical memory or the one that is not written yet: the task gets a result or waits, and the
  invariant holds again.  For \<open>pci_get_info\<close> the regions of the devices must have physical addresses, and there
  must be less than \<open>2 ^ 32\<close> devices.  The memory of the task is total in this model: what happens in the
  processor when an address that a task passes is not mapped is not part of the statement.\<close>

theorem syscall_no_panic:
  assumes "bit_field (bits p) (\<lambda>_. 64) (bit :: usize \<Rightarrow> nat \<Rightarrow> bool)" and "kernel_inv k" and "running_task k = Some me"
    and "n \<notin> {SYSCALL_CREATE_MEMORY_OBJECT, SYSCALL_MAP_MEMORY_OBJECT, SYSCALL_RESIZE_MEMORY_OBJECT,
      SYSCALL_CREATE_ADDRESS_SPACE, SYSCALL_SPAWN_TASK, SYSCALL_WAIT_FOR_MESSAGE}"
    and "\<And>ds. n = SYSCALL_PCI_GET_INFO \<Longrightarrow> pci_info k = Some ds \<Longrightarrow> pci_fits (tgt p) ds"
  shows "\<exists>r k'. handle_syscall p n a b c d e k = Inr (r, k') \<and> kernel_inv k'"
  using assms(4,5) by (intro handle_syscall_safe(1) [OF assms(1-3)]) (auto simp: may_panic_def pci_calls_def)

theorem syscall_no_panic_witness:
  "\<exists>r k'. handle_syscall sample_platform SYSCALL_SEND_MESSAGE 1 0 0 0 0 sample_kernel = Inr (r, k') \<and> kernel_inv k'"
  by (rule syscall_no_panic [OF sample_bits sample_inv, of 1])
    (simp_all add: sample_kernel_def syscall_numbers)

end
