(* ===== verification/Kernel_Messages.thy ===== *)
theory Kernel_Messages
  imports Kernel_Invariant
begin

text \<open>
  Messages between tasks (\<open>send_message\<close> and \<open>get_message\<close> of \<open>kernel/src/syscall/mod.rs\<close> over
  \<open>kernel/src/object/channel.rs\<close>).  Abstractly a channel end is a queue of messages, and the two system
  calls append to one queue and take from the front of one, or leave all queues alone.  The system calls
  refine this, with the bytes read from the memory of the sender and written to that of the receiver,
  and the handles that move from one table to the other.
\<close>

subsection \<open>The abstract view\<close>

definition queues :: "('pt, 'ctx) kernel \<Rightarrow> ref \<Rightarrow> message list option" where
  "queues k r = (case heap k r of Some (ChannelObj c) \<Rightarrow> Some (messages c) | _ \<Rightarrow> None)"

datatype channel_event = Sent ref message | Received ref message | Quiet

primrec channel_step :: "channel_event \<Rightarrow> (ref \<Rightarrow> message list option) \<Rightarrow> (ref \<Rightarrow> message list option) \<Rightarrow> bool" where
  "channel_step (Sent r m) q q' \<longleftrightarrow> (\<exists>ms. q r = Some ms \<and> q' = q(r \<mapsto> ms @ [m]))"
| "channel_step (Received r m) q q' \<longleftrightarrow> (\<exists>ms. q r = Some (m # ms) \<and> q' = q(r \<mapsto> ms))"
| "channel_step Quiet q q' \<longleftrightarrow> q' = q"

lemma queues_memory [simp]: "queues (k\<lparr>user_memory := m\<rparr>) = queues k"
  by (simp add: queues_def fun_eq_iff)

lemma queues_task [simp]: "heap k me = Some (TaskObj t) \<Longrightarrow> queues (update_object k me (TaskObj t')) = queues k"
  by (auto simp: queues_def update_object_def fun_eq_iff)

lemma queues_channel [simp]: "queues (update_object k r (ChannelObj c)) = (queues k)(r \<mapsto> messages c)"
  by (auto simp: queues_def update_object_def fun_eq_iff)

lemma queues_Some: "heap k r = Some (ChannelObj c) \<Longrightarrow> queues k r = Some (messages c)"
  by (simp add: queues_def)

subsection \<open>Running the parts\<close>

lemma sbind_run: "m k = Inr (Inr x, k') \<Longrightarrow> sbind m f k = f x k'"
  and sbind_error: "m k = Inr (Inl e, k') \<Longrightarrow> sbind m f k = Inr (Inl e, k')"
  and return_run: "sreturn x k = Inr (Inr x, k)"
  by (simp_all add: sbind_def sreturn_def)

lemma read_task: "heap k me = Some (TaskObj t) \<Longrightarrow> read_object as_task me k = Inr (Inr t, k)"
  by (simp add: read_object_def sget_def deref_def as_task_def runwrap_def)

lemma task_get_run: "heap k me = Some (TaskObj t) \<Longrightarrow> task_get me h k = Inr (Inr (handles_get (t_handles t) h), k)"
  by (simp add: task_get_def sbind_def read_task sreturn_def)

lemma task_remove_run: "heap k me = Some (TaskObj t) \<Longrightarrow>
    task_remove me h k = Inr (Inr (), update_object k me (TaskObj (t\<lparr>t_handles := handles_remove (t_handles t) h\<rparr>)))"
  by (simp add: task_remove_def sbind_def read_task write_object_def smodify_def)

lemma task_add_run: "heap k me = Some (TaskObj t) \<Longrightarrow> handles_add (t_handles t) r = (h, hs) \<Longrightarrow>
    task_add me r k = Inr (Inr h, update_object k me (TaskObj (t\<lparr>t_handles := hs\<rparr>)))"
  by (simp add: task_add_def sbind_def read_task write_object_def smodify_def sreturn_def)

lemma update_twice [simp]: "update_object (update_object k r a) r b = update_object k r b"
  by (simp add: update_object_def)

lemma update_same: "heap k r = Some a \<Longrightarrow> update_object k r a = k"
  by (simp add: update_object_def fun_upd_idem)

lemma heap_update [simp]: "heap (update_object k r a) = (heap k)(r \<mapsto> a)"
  by (simp add: update_object_def)

text \<open>Taking handles out of a table in order, until one is not there.\<close>

primrec take_all :: "handles \<Rightarrow> handle list \<Rightarrow> ref list option \<times> handles" where
  "take_all T [] = (Some [], T)"
| "take_all T (h # hs) =
     (case handles_get T h of
        None \<Rightarrow> (None, T)
      | Some r \<Rightarrow> let (x, T') = take_all (handles_remove T h) hs in (map_option ((#) r) x, T'))"

lemma take_objects_run:
  assumes "heap k me = Some (TaskObj t)"
  shows "sfor hs (take_object me) k = Inr (
    (case fst (take_all (t_handles t) hs) of None \<Rightarrow> Inl InvalidTransferredHandle | Some rs \<Rightarrow> Inr rs),
    update_object k me (TaskObj (t\<lparr>t_handles := snd (take_all (t_handles t) hs)\<rparr>)))"
  using assms
proof (induction hs arbitrary: k t)
  case Nil
  then show ?case by (simp add: sreturn_def update_same)
next
  case (Cons h hs)
  show ?case
  proof (cases "handles_get (t_handles t) h")
    case None
    then show ?thesis
      using Cons.prems by (simp add: take_object_def sbind_def task_get_run ok_or_def sfail_def update_same)
  next
    case (Some r)
    let ?t = "t\<lparr>t_handles := handles_remove (t_handles t) h\<rparr>"
    have "heap (update_object k me (TaskObj ?t)) me = Some (TaskObj ?t)" by simp
    from Cons.IH [OF this] show ?thesis
      using Cons.prems Some
      by (simp add: take_object_def sbind_def task_get_run task_remove_run ok_or_def sreturn_def split_beta split: option.splits)
  qed
qed

lemma take_all_ok:
  assumes "take_all T hs = (Some rs, T')"
  shows "distinct hs \<and> map (handles_get T) hs = map Some rs \<and> handles_get T' = (\<lambda>h. if h \<in> set hs then None else handles_get T h)"
  using assms
proof (induction hs arbitrary: T rs)
  case (Cons h hs)
  then obtain r where r: "handles_get T h = Some r" by (cases "handles_get T h") auto
  obtain rs' where t: "take_all (handles_remove T h) hs = (Some rs', T')" "rs = r # rs'"
    using Cons.prems r by (auto simp: split_beta prod_eq_iff)
  have g: "handles_get (handles_remove T h) = (handles_get T)(h := None)" by (rule task_handles.get_remove)
  have IH: "distinct hs" "map (handles_get (handles_remove T h)) hs = map Some rs'"
      "handles_get T' = (\<lambda>x. if x \<in> set hs then None else handles_get (handles_remove T h) x)"
    using Cons.IH [OF t(1)] by simp_all
  have "h \<notin> set hs"
  proof
    assume "h \<in> set hs"
    then have "handles_get (handles_remove T h) h \<in> set (map Some rs')" unfolding IH(2) [symmetric] by simp
    then show False by (simp add: g)
  qed
  moreover from this have "map (handles_get T) hs = map Some rs'" unfolding IH(2) [symmetric] by (auto simp: g)
  ultimately show ?case using IH(1,3) r t(2) by (auto simp: g fun_eq_iff)
qed (simp add: fun_eq_iff)

subsection \<open>Sending\<close>

definition user_words :: "('pt, 'ctx) kernel \<Rightarrow> nat \<Rightarrow> usize \<Rightarrow> usize \<Rightarrow> 'w::len word list" where
  "user_words k width a n = map (\<lambda>i. le_value (read_bytes (user_memory k) (a + of_nat (width * i)) width)) [0 ..< unat n]"

lemma user_words_zero [simp]: "user_words k width a 0 = []"
  by (simp add: user_words_def)

lemma read_slice_run:
  "smap_err g (slice_validate_read width (user_slice_new a n)) k = Inr (Inr (user_words k width a n), k)"
  by (simp add: smap_err_def slice_validate_read_def user_slice_new_def sget_def user_words_def)

lemma slice_or_empty:
  "(if n = 0 then sreturn [] else smap_err g (slice_validate_read width (user_slice_new a n))) k = Inr (Inr (user_words k width a n), k)"
  by (simp add: read_slice_run sreturn_def)

lemma user_bytes: "(user_words k 1 a n :: u8 list) = read_bytes (user_memory k) a (unat n)"
  by (simp add: user_words_def read_bytes_def)

lemma send_message_run:
  fixes nb nh :: usize
  assumes "heap k me = Some (TaskObj t)" and "nb \<le> CHANNEL_MAX_NUM_BYTES" and "nh \<le> of_nat CHANNEL_MAX_NUM_HANDLES"
    and "handle_try_from h = Some ch" and "take_all (t_handles t) (user_words k 4 ha nh) = (x, T')"
  shows "send_message me h ba nb ha nh k =
    (let k' = update_object k me (TaskObj (t\<lparr>t_handles := T'\<rparr>)) in
     case x of
       None \<Rightarrow> Inr (Inl InvalidTransferredHandle, k')
     | Some rs \<Rightarrow>
         sbind (object_of me ch SendInvalidChannelHandle as_channel SendNotAChannel) (\<lambda>(r, c).
           channel_send c \<lparr>msg_bytes = user_words k 1 ba nb, handle_objects = objects_array rs\<rparr>) k')"
proof -
  have lt: "\<not> CHANNEL_MAX_NUM_BYTES < nb" "\<not> of_nat CHANNEL_MAX_NUM_HANDLES < nh" using assms(2,3) by simp_all
  have "send_message me h ba nb ha nh k =
    sbind (sfor (user_words k 4 ha nh) (take_object me)) (\<lambda>rs.
      sbind (object_of me ch SendInvalidChannelHandle as_channel SendNotAChannel) (\<lambda>(r, c).
        channel_send c \<lparr>msg_bytes = user_words k 1 ba nb, handle_objects = objects_array rs\<rparr>)) k"
    unfolding send_message_def if_not_P [OF lt(1)] if_not_P [OF lt(2)] assms(4) ok_or_def option.case
    sbind_run [OF return_run] sbind_run [OF slice_or_empty] ..
  then show ?thesis
    unfolding sbind_def [of "sfor _ _"] take_objects_run [OF assms(1)] assms(5) by (simp add: Let_def split: option.splits)
qed

lemma object_of_run:
  assumes "heap k me = Some (TaskObj t)"
  shows "object_of me h missing as wrong k =
    (case handles_get (t_handles t) h of
       None \<Rightarrow> Inr (Inl missing, k)
     | Some r \<Rightarrow> (case heap k r of
         None \<Rightarrow> Inl UnwrapFailed
       | Some ob \<Rightarrow> (case as ob of None \<Rightarrow> Inr (Inl wrong, k) | Some v \<Rightarrow> Inr (Inr (r, v), k))))"
  by (simp add: object_of_def sbind_def task_get_run [OF assms] ok_or_def sfail_def sreturn_def sget_def deref_def runwrap_def
      split: option.splits)

lemma as_channel_Some [simp]: "as_channel ob = Some c \<longleftrightarrow> ob = ChannelObj c"
  by (cases ob) (auto simp: as_channel_def)

lemma channel_send_cases:
  assumes "channel_send c m k = Inr (res, k')"
  obtains (kernel_end) "other_end c = None" "res = Inr ()" "k' = k"
  | (gone) e where "res = Inl e" "k' = k"
  | (sent) peer c' where "other_end c = Some peer" "heap k peer = Some (ChannelObj c')" "res = Inr ()"
      "k' = update_object k peer (ChannelObj (add_message c' m))"
proof (cases "other_end c")
  case None
  then show thesis using assms that(1) by (simp add: channel_send_def sreturn_def)
next
  case (Some peer)
  show thesis
  proof (cases "heap k peer")
    case None
    then have "channel_send c m k = Inr (Inl OtherEndDisconnected, k)"
      using Some by (simp add: channel_send_def sbind_def sget_def upgrade_def ok_or_def sfail_def)
    then show thesis using assms that(2) by simp
  next
    case ob: (Some ob)
    have "channel_send c m k = rbind (runwrap (as_channel ob)) (\<lambda>c'. Inr (Inr (), update_object k peer (ChannelObj (add_message c' m))))"
      using Some ob by (simp add: channel_send_def sbind_def sget_def upgrade_def ok_or_def sreturn_def read_object_def deref_def
        write_object_def smodify_def runwrap_def split: option.splits)
    then show thesis using assms that(3) Some ob by (auto simp: rust_simps runwrap_def split: option.splits)
  qed
qed

lemma queues_add: "heap k r = Some (ChannelObj c) \<Longrightarrow>
    channel_step (Sent r m) (queues k) (queues (update_object k r (ChannelObj (add_message c m))))"
  by (auto simp: queues_Some add_message_def)

text \<open>A send fails and changes no queue, or it takes the handles of the sender and appends to the queue of the other end.\<close>

lemma send_message_cases:
  assumes "heap k me = Some (TaskObj t)" and run: "send_message me h ba nb ha nh k = Inr (res, k')"
  obtains (failed) e where "res = Inl e" "queues k' = queues k"
  | (sent) ch r c rs T' ev where "res = Inr ()" "handle_try_from h = Some ch" "handles_get (t_handles t) ch = Some r"
      "heap k r = Some (ChannelObj c)" "distinct (ch # user_words k 4 ha nh)"
      "map (handles_get (t_handles t)) (user_words k 4 ha nh) = map Some rs" "heap k' me = Some (TaskObj (t\<lparr>t_handles := T'\<rparr>))"
      "handles_get T' = (\<lambda>x. if x \<in> set (user_words k 4 ha nh) then None else handles_get (t_handles t) x)"
      "channel_step ev (queues k) (queues k')"
      "case other_end c of
         None \<Rightarrow> ev = Quiet
       | Some peer \<Rightarrow> ev = Sent peer \<lparr>msg_bytes = read_bytes (user_memory k) ba (unat nb), handle_objects = objects_array rs\<rparr>"
proof (cases "nb \<le> CHANNEL_MAX_NUM_BYTES \<and> nh \<le> of_nat CHANNEL_MAX_NUM_HANDLES \<and> handle_try_from h \<noteq> None")
  case False
  then show thesis
    using run failed by (auto simp: send_message_def sfail_def ok_or_def sbind_def not_le split: if_splits)
next
  case True
  let ?hs = "user_words k 4 ha nh :: handle list" and ?bs = "read_bytes (user_memory k) ba (unat nb)"
  obtain ch where ch: "handle_try_from h = Some ch" using True by blast
  obtain x T' where x: "take_all (t_handles t) ?hs = (x, T')" by fastforce
  let ?t = "t\<lparr>t_handles := T'\<rparr>" and ?k = "update_object k me (TaskObj (t\<lparr>t_handles := T'\<rparr>))"
  note run' = run [unfolded send_message_run [OF assms(1) conjunct1 [OF True] conjunct1 [OF conjunct2 [OF True]] ch x] user_bytes]
  have q: "queues ?k = queues k" and me: "heap ?k me = Some (TaskObj ?t)" using assms(1) by simp_all
  show thesis
  proof (cases x)
    case None
    then show thesis using run' q failed by auto
  next
    case (Some rs)
    let ?m = "\<lparr>msg_bytes = ?bs, handle_objects = objects_array rs\<rparr>"
    note tk = take_all_ok [OF x [unfolded Some]]
    consider e where "res = Inl e" "k' = ?k"
      | r c where "handles_get T' ch = Some r" "heap ?k r = Some (ChannelObj c)" "channel_send c ?m ?k = Inr (res, k')"
      using run' unfolding Some by (auto simp: sbind_def object_of_run [OF me] split: option.splits)
    then show thesis
    proof cases
      case 1
      then show thesis using q failed by auto
    next
      case (2 r c)
      then have r: "heap k r = Some (ChannelObj c)" "handles_get (t_handles t) ch = Some r" "ch \<notin> set ?hs"
        using tk by (auto split: if_splits)
      note fine = sent [OF _ ch r(2,1)]
      from 2(3) show thesis
      proof (cases rule: channel_send_cases)
        case kernel_end
        then show thesis using q me r tk by (intro fine [where rs = rs and ev = Quiet]) auto
      next
        case (gone e)
        then show thesis using q failed by auto
      next
        case (sent peer c')
        then have "channel_step (Sent peer ?m) (queues k) (queues k')" using queues_add q by metis
        then show thesis using sent me r tk by (intro fine [where rs = rs and ev = "Sent peer ?m"]) auto
      qed
    qed
  qed
qed

text \<open>C6: sending refines the abstract channels and never panics.  An error leaves every queue as it is.  After
  a success the objects whose handles the sender named, all different, are no longer in its table, and
  the message with the bytes of the sender and these objects is the last one in the queue of the other
  end; no other queue changes.  Only what is sent to a channel of the kernel is dropped.\<close>

theorem send_message_refines:
  assumes "kernel_inv k" and "heap k me = Some (TaskObj t)"
  shows "\<exists>res k' ev. send_message me h ba nb ha nh k = Inr (res, k') \<and> channel_step ev (queues k) (queues k') \<and>
    (case res of
       Inl e \<Rightarrow> ev = Quiet
     | Inr _ \<Rightarrow> \<exists>ch r c rs T'. handle_try_from h = Some ch \<and> handles_get (t_handles t) ch = Some r \<and> heap k r = Some (ChannelObj c) \<and>
         distinct (ch # user_words k 4 ha nh) \<and> map (handles_get (t_handles t)) (user_words k 4 ha nh) = map Some rs \<and>
         heap k' me = Some (TaskObj (t\<lparr>t_handles := T'\<rparr>)) \<and>
         handles_get T' = (\<lambda>x. if x \<in> set (user_words k 4 ha nh) then None else handles_get (t_handles t) x) \<and>
         (case other_end c of
            None \<Rightarrow> ev = Quiet
          | Some peer \<Rightarrow> ev = Sent peer \<lparr>msg_bytes = read_bytes (user_memory k) ba (unat nb), handle_objects = objects_array rs\<rparr>))"
proof -
  have "calling me k" using assms by (simp add: calling_def kind_Some)
  then obtain res k' where run: "send_message me h ba nb ha nh k = Inr (res, k')"
    using wp_total [OF send_message_safe] by blast
  from assms(2) run show ?thesis
  proof (cases rule: send_message_cases)
    case (failed e)
    then show ?thesis using run by (intro exI [of _ res] exI [of _ k'] exI [of _ Quiet]) auto
  next
    case (sent ch r c rs T' ev)
    then show ?thesis using run by (intro exI [of _ res] exI [of _ k'] exI [of _ ev] conjI) auto
  qed
qed

lemma sample_task_one:
  "heap sample_kernel 1 = Some (TaskObj (sample_task 2 0 Running \<lparr>table = [1 \<mapsto> 4, 2 \<mapsto> 5, 3 \<mapsto> 6, 4 \<mapsto> 7, 5 \<mapsto> 8], next_handle = 6\<rparr>))"
  by (simp add: sample_kernel_def sample_heap_def)

lemma no_objects: "objects_array [] = [None, None, None, None]"
  by (simp add: objects_array_def CHANNEL_MAX_NUM_HANDLES_def numeral_eq_Suc)

lemma sample_send:
  "send_message 1 1 0x1000 3 0 0 sample_kernel = Inr (Inr (), update_object sample_kernel 5
     (ChannelObj \<lparr>ch_id = 6, ch_owner = 2, messages = [\<lparr>msg_bytes = [0, 0, 0], handle_objects = [None, None, None, None]\<rparr>],
        other_end = Some 4\<rparr>))"
proof -
  let ?T = "\<lparr>table = [1 \<mapsto> 4, 2 \<mapsto> 5, 3 \<mapsto> 6, 4 \<mapsto> 7, 5 \<mapsto> 8], next_handle = 6\<rparr> :: handles"
  let ?m = "\<lparr>msg_bytes = user_words sample_kernel 1 0x1000 3, handle_objects = objects_array []\<rparr>"
  have t: "update_object sample_kernel 1 (TaskObj (sample_task 2 0 Running ?T\<lparr>t_handles := ?T\<rparr>)) = sample_kernel"
    using update_same [OF sample_task_one] by (simp add: sample_task_def)
  have take: "take_all (t_handles (sample_task 2 0 Running ?T)) (user_words sample_kernel 4 0 0) = (Some [], ?T)"
    by (simp add: sample_task_def)
  have small: "(3 :: usize) \<le> CHANNEL_MAX_NUM_BYTES" "(0 :: usize) \<le> of_nat CHANNEL_MAX_NUM_HANDLES" "handle_try_from 1 = Some 1"
    by (simp_all add: CHANNEL_MAX_NUM_BYTES_def handle_try_from_def)
  have get: "object_of 1 1 SendInvalidChannelHandle as_channel SendNotAChannel sample_kernel =
      Inr (Inr (4, \<lparr>ch_id = 5, ch_owner = 2, messages = [], other_end = Some 5\<rparr>), sample_kernel)"
    by (simp only: object_of_run [OF sample_task_one]) (simp add: handles_get_def sample_task_def sample_kernel_def sample_heap_def as_channel_def)
  have "channel_send \<lparr>ch_id = 5, ch_owner = 2, messages = [], other_end = Some 5\<rparr> ?m sample_kernel =
      Inr (Inr (), update_object sample_kernel 5 (ChannelObj \<lparr>ch_id = 6, ch_owner = 2, messages = [?m], other_end = Some 4\<rparr>))"
    by (simp add: channel_send_def sbind_def sget_def upgrade_def ok_or_def sreturn_def read_object_def deref_def runwrap_def
        write_object_def smodify_def sample_kernel_def sample_heap_def as_channel_def add_message_def)
  moreover have "?m = \<lparr>msg_bytes = [0, 0, 0], handle_objects = [None, None, None, None]\<rparr>"
  proof -
    have "read_bytes (user_memory sample_kernel) 0x1000 (unat (3 :: usize)) = [0, 0, 0]"
      by (simp add: read_bytes_def upt_rec sample_kernel_def)
    then show ?thesis by (simp only: user_bytes no_objects)
  qed
  ultimately show ?thesis
    unfolding send_message_run [OF sample_task_one small take] Let_def t option.case
      sbind_run [of "object_of 1 1 SendInvalidChannelHandle as_channel SendNotAChannel", OF get] prod.case by simp
qed

theorem send_message_refines_witness:
  "\<exists>k'. send_message 1 1 0x1000 3 0 0 sample_kernel = Inr (Inr (), k') \<and>
     channel_step (Sent 5 \<lparr>msg_bytes = read_bytes (user_memory sample_kernel) 0x1000 3, handle_objects = objects_array []\<rparr>)
       (queues sample_kernel) (queues k')"
proof -
  have "heap sample_kernel 4 = Some (ChannelObj \<lparr>ch_id = 5, ch_owner = 2, messages = [], other_end = Some 5\<rparr>)"
    by (simp add: sample_kernel_def sample_heap_def)
  then show ?thesis
    using send_message_refines [OF sample_inv sample_task_one, of 1 "0x1000" 3 0 0] sample_send
    by (auto simp: handle_try_from_def handles_get_def sample_task_def)
qed

subsection \<open>Receiving\<close>

lemma write_bytes_append: "write_bytes mem a (bs @ cs) = write_bytes (write_bytes mem a bs) (a + of_nat (length bs)) cs"
  by (induction bs arbitrary: mem a) (simp_all add: algebra_simps)

lemma give_objects_run:
  assumes "heap k me = Some (TaskObj t)" and "\<And>j. j < length rs \<Longrightarrow> rindex (handle_objects m) (i + j) = Inr (Some (rs ! j))"
    and "add_all handles_add (t_handles t) rs = (ks, T')"
  shows "\<exists>us. sfor [i ..< i + length rs] (give_object me m buf) k = Inr (Inr us,
    (update_object k me (TaskObj (t\<lparr>t_handles := T'\<rparr>)))
      \<lparr>user_memory := write_bytes (user_memory k) (buf + of_nat (4 * i)) (concat (map (le_bytes 4) ks))\<rparr>)"
  using assms
proof (induction rs arbitrary: i k t ks)
  case Nil
  then show ?case by (simp add: sreturn_def update_same)
next
  case (Cons r rs)
  obtain h T1 where a: "handles_add (t_handles t) r = (h, T1)" by fastforce
  obtain ks1 where b: "add_all handles_add T1 rs = (ks1, T')" "ks = h # ks1"
    using Cons.prems(3) a by (auto simp: split_beta prod_eq_iff)
  let ?t = "t\<lparr>t_handles := T1\<rparr>"
  let ?k = "(update_object k me (TaskObj ?t))\<lparr>user_memory := write_bytes (user_memory k) (buf + of_nat (4 * i)) (le_bytes 4 h)\<rparr>"
  have r0: "rindex (handle_objects m) i = Inr (Some r)" using Cons.prems(2) [of 0] by simp
  have give: "give_object me m buf i k = Inr (Inr (), ?k)"
    using r0 Cons.prems(1) a by (simp add: give_object_def sbind_def slift_def runwrap_def task_add_run smodify_def update_object_def)
  have rest: "rindex (handle_objects m) (Suc i + j) = Inr (Some (rs ! j))" if "j < length rs" for j
    using Cons.prems(2) [of "Suc j"] that by simp
  obtain us where us: "sfor [Suc i ..< Suc i + length rs] (give_object me m buf) ?k = Inr (Inr us,
    (update_object ?k me (TaskObj (?t\<lparr>t_handles := T'\<rparr>)))
      \<lparr>user_memory := write_bytes (user_memory ?k) (buf + of_nat (4 * Suc i)) (concat (map (le_bytes 4) ks1))\<rparr>)"
    using Cons.IH [of ?k ?t "Suc i" ks1] rest b(1) by auto
  have u: "[i ..< i + length (r # rs)] = i # [Suc i ..< Suc i + length rs]" by (subst upt_conv_Cons) simp_all
  have w: "write_bytes (user_memory k) (buf + of_nat (4 * i)) (concat (map (le_bytes 4) ks)) =
      write_bytes (user_memory ?k) (buf + of_nat (4 * Suc i)) (concat (map (le_bytes 4) ks1))"
    by (simp add: b(2) write_bytes_append algebra_simps)
  show ?case
    unfolding w u sfor.simps sbind_run [of "give_object me m buf i", OF give] sbind_run [of "sfor [Suc i ..< Suc i + length rs] (give_object me m buf)", OF us] return_run
    by (intro exI [of _ "() # us"]) (simp add: update_object_def)
qed

text \<open>What a received message does to the table and the memory of the receiver; a null address means that the
  bytes or the handles are not wanted.\<close>

definition wanted :: "usize \<Rightarrow> usize \<Rightarrow> bool" where
  "wanted address len \<longleftrightarrow> len > 0 \<and> address \<noteq> 0"

definition received_handles :: "handles \<Rightarrow> usize \<Rightarrow> usize \<Rightarrow> message \<Rightarrow> handle list \<times> handles" where
  "received_handles T ha hl m = (if wanted ha hl then add_all handles_add T (message_refs m) else ([], T))"

definition received_memory :: "(usize \<Rightarrow> u8) \<Rightarrow> usize \<Rightarrow> usize \<Rightarrow> usize \<Rightarrow> message \<Rightarrow> handle list \<Rightarrow> usize \<Rightarrow> u8" where
  "received_memory mem ba bl ha m ks =
     write_bytes (if wanted ba bl then write_bytes mem ba (msg_bytes m) else mem) ha (concat (map (le_bytes 4) ks))"

lemma message_objects:
  assumes "message_ok m"
  shows "num_handles m = length (message_refs m)"
    and "j < length (message_refs m) \<Longrightarrow> rindex (handle_objects m) j = Inr (Some (message_refs m ! j))"
proof -
  obtain rs where rs: "length rs \<le> 4" "handle_objects m = map Some rs @ replicate (4 - length rs) None"
    using assms by (auto simp: message_ok_def CHANNEL_MAX_NUM_HANDLES_def)
  have "message_refs m = rs" unfolding message_refs_def rs(2) by (simp add: List.map_filter_def comp_def)
  then show "num_handles m = length (message_refs m)"
    and "j < length (message_refs m) \<Longrightarrow> rindex (handle_objects m) j = Inr (Some (message_refs m ! j))"
    unfolding num_handles_def rs(2) count_objects by (simp_all add: nth_append)
qed

lemma deliver_run:
  assumes "message_ok m" and "heap k me = Some (TaskObj t)" and "received_handles (t_handles t) ha hl m = (ks, T')"
    and "length (msg_bytes m) \<le> unat bl" and "num_handles m \<le> unat hl"
  shows "deliver p me ba bl ha hl m k =
    slift (get_message_status (bits p) (of_nat (length (msg_bytes m))) (of_nat (num_handles m)))
      ((update_object k me (TaskObj (t\<lparr>t_handles := T'\<rparr>)))\<lparr>user_memory := received_memory (user_memory k) ba bl ha m ks\<rparr>)"
proof -
  let ?k1 = "k\<lparr>user_memory := (if wanted ba bl then write_bytes (user_memory k) ba (msg_bytes m) else user_memory k)\<rparr>"
  let ?k2 = "(update_object k me (TaskObj (t\<lparr>t_handles := T'\<rparr>)))\<lparr>user_memory := received_memory (user_memory k) ba bl ha m ks\<rparr>"
  have me: "heap ?k1 me = Some (TaskObj t)" using assms(2) by simp
  let ?B = "if bl > 0 \<and> ba \<noteq> 0
      then sbind (smap_err (\<lambda>_. (m, GetBytesAddressInvalid)) (slice_validate_write (user_slice_new ba (of_nat (length (msg_bytes m))))))
        (\<lambda>buffer. smodify (\<lambda>k. k\<lparr>user_memory := write_bytes (user_memory k) buffer (msg_bytes m)\<rparr>))
      else sreturn ()"
  have b: "?B k = Inr (Inr (), ?k1)"
    by (simp add: wanted_def sbind_def smap_err_def slice_validate_write_def user_slice_new_def sreturn_def smodify_def)
  let ?H = "if hl > 0 \<and> ha \<noteq> 0
      then sbind (smap_err (\<lambda>_. (m, GetHandlesAddressInvalid)) (slice_validate_write (user_slice_new ha (of_nat (num_handles m)))))
        (\<lambda>buffer. sbind (sfor [0 ..< num_handles m] (give_object me m buffer)) (\<lambda>_. sreturn ()))
      else sreturn ()"
  have h: "?H ?k1 = Inr (Inr (), ?k2)"
  proof (cases "wanted ha hl")
    case True
    then have "add_all handles_add (t_handles t) (message_refs m) = (ks, T')" using assms(3) by (simp add: received_handles_def)
    from give_objects_run [OF me _ this, of m 0 ha] obtain us where "sfor [0 ..< num_handles m] (give_object me m ha) ?k1 = Inr (Inr us, ?k2)"
      using message_objects [OF assms(1)] by (auto simp: received_memory_def update_object_def)
    then show ?thesis using True by (simp add: wanted_def sbind_def smap_err_def slice_validate_write_def user_slice_new_def sreturn_def)
  next
    case False
    then have no: "\<not> (hl > 0 \<and> ha \<noteq> 0)" and e: "ks = []" "T' = t_handles t" using assms(3) by (auto simp: wanted_def received_handles_def)
    show ?thesis
      unfolding if_not_P [OF no] return_run using assms(2) e by (simp add: received_memory_def update_object_def fun_upd_idem)
  qed
  have no: "\<not> length (msg_bytes m) > unat bl" "\<not> num_handles m > unat hl" using assms(4,5) by simp_all
  show ?thesis
    unfolding deliver_def Let_def if_not_P [OF no(1)] if_not_P [OF no(2)] sbind_run [of ?B, OF b] sbind_run [of ?H, OF h] ..
qed

lemma deliver_cases:
  assumes "message_ok m" and "heap k me = Some (TaskObj t)" and "deliver p me ba bl ha hl m k = Inr (res, k')"
  obtains (small) e where "res = Inl (m, e)" "k' = k" "unat bl < length (msg_bytes m) \<or> unat hl < num_handles m"
  | (taken) ks T' w where "res = Inr w" "received_handles (t_handles t) ha hl m = (ks, T')"
      "k' = (update_object k me (TaskObj (t\<lparr>t_handles := T'\<rparr>)))\<lparr>user_memory := received_memory (user_memory k) ba bl ha m ks\<rparr>"
      "length (msg_bytes m) \<le> unat bl" "num_handles m \<le> unat hl"
      "get_message_status (bits p) (of_nat (length (msg_bytes m))) (of_nat (num_handles m)) = Inr w"
proof (cases "unat bl < length (msg_bytes m) \<or> unat hl < num_handles m")
  case True
  then show thesis using assms(3) small by (auto simp: deliver_def Let_def sfail_def split: if_splits)
next
  case False
  obtain ks T' where ks: "received_handles (t_handles t) ha hl m = (ks, T')" by fastforce
  let ?k2 = "(update_object k me (TaskObj (t\<lparr>t_handles := T'\<rparr>)))\<lparr>user_memory := received_memory (user_memory k) ba bl ha m ks\<rparr>"
  have "length (msg_bytes m) \<le> unat bl" "num_handles m \<le> unat hl" using False by simp_all
  from deliver_run [OF assms(1,2) ks this, of p ba]
  have "slift (get_message_status (bits p) (of_nat (length (msg_bytes m))) (of_nat (num_handles m))) ?k2 = Inr (res, k')"
    using assms(3) by simp
  then obtain w where "get_message_status (bits p) (of_nat (length (msg_bytes m))) (of_nat (num_handles m)) = Inr w" "res = Inr w" "k' = ?k2"
    by (auto simp: slift_def rust_simps)
  then show thesis using False by (intro taken [OF _ ks]) simp_all
qed

text \<open>A receive fails and changes no queue, or it takes the first message of the queue.\<close>

lemma get_message_cases:
  assumes "kernel_inv k" and "heap k me = Some (TaskObj t)" and run: "get_message p me h ba bl ha hl k = Inr (res, k')"
  obtains (failed) e where "res = Inl e" "queues k' = queues k"
  | (received) ch r m ks T' w where "res = Inr w" "handle_try_from h = Some ch" "handles_get (t_handles t) ch = Some r"
      "channel_step (Received r m) (queues k) (queues k')" "length (msg_bytes m) \<le> unat bl" "num_handles m \<le> unat hl"
      "received_handles (t_handles t) ha hl m = (ks, T')" "heap k' me = Some (TaskObj (t\<lparr>t_handles := T'\<rparr>))"
      "user_memory k' = received_memory (user_memory k) ba bl ha m ks"
      "get_message_status (bits p) (of_nat (length (msg_bytes m))) (of_nat (num_handles m)) = Inr w"
proof -
  have k: "calling me k" using assms by (simp add: calling_def kind_Some)
  consider "\<exists>e. res = Inl e" "k' = k"
    | ch r c where "handle_try_from h = Some ch" "handles_get (t_handles t) ch = Some r" "heap k r = Some (ChannelObj c)"
        "receive_from r c (deliver p me ba bl ha hl) k = Inr (res, k')"
    using run by (auto simp: get_message_def sbind_def ok_or_def sfail_def sreturn_def object_of_run [OF assms(2)] split: option.splits)
  then show thesis
  proof cases
    case 1
    then show thesis using failed by auto
  next
    case (2 ch r c)
    have neq: "r \<noteq> me" using 2(3) assms(2) by auto
    show thesis
    proof (cases "messages c")
      case Nil
      then show thesis
        using 2(4) queues_Some [OF 2(3)] by (intro failed) (auto simp: receive_from_def receive_def fun_upd_idem)
    next
      case (Cons m ms)
      have "object_ok k (ChannelObj c)" using k 2(3) by (rule calling_object)
      then have ok: "message_ok m" using Cons by simp
      obtain dres k1 where d: "deliver p me ba bl ha hl m k = Inr (dres, k1)"
        using 2(4) Cons by (cases "deliver p me ba bl ha hl m k") (auto simp: receive_from_def receive_def)
      from ok assms(2) d show thesis
      proof (cases rule: deliver_cases)
        case (small e)
        then show thesis
          using 2(4) d Cons queues_Some [OF 2(3)] by (intro failed) (auto simp: receive_from_def receive_def fun_upd_idem)
      next
        case (taken ks T' w)
        then have e: "res = Inr w" "k' = update_object k1 r (ChannelObj (c\<lparr>messages := ms\<rparr>))"
          using 2(4) d Cons by (auto simp: receive_from_def receive_def)
        have "queues k1 = queues k" using taken(3) assms(2) by simp
        then have "channel_step (Received r m) (queues k) (queues k')" using e(2) queues_Some [OF 2(3)] Cons by simp
        then show thesis
          by (rule received [OF e(1) 2(1,2) _ taken(4,5,2) _ _ taken(6)])
            (use e(2) taken(3) neq in \<open>simp_all add: update_object_def\<close>)
      qed
    qed
  qed
qed

text \<open>C7: receiving refines the abstract channels and never panics.  An error leaves every queue as it is.  After a
  success the first message of the queue of the channel end is gone from it, and no other queue changes;
  the message was not longer than the buffers, its bytes are in the buffer for bytes, its objects have
  got new handles, which are in the buffer for handles in the order of the objects, and the result tells how many there are
  of both.\<close>

theorem get_message_refines:
  assumes "bit_field (bits p) (\<lambda>_. 64) (bit :: usize \<Rightarrow> nat \<Rightarrow> bool)" and "kernel_inv k" and "heap k me = Some (TaskObj t)"
  shows "\<exists>res k' ev. get_message p me h ba bl ha hl k = Inr (res, k') \<and> channel_step ev (queues k) (queues k') \<and>
    (case res of
       Inl e \<Rightarrow> ev = Quiet
     | Inr w \<Rightarrow> \<exists>ch r m ks T'. handle_try_from h = Some ch \<and> handles_get (t_handles t) ch = Some r \<and> ev = Received r m \<and>
         length (msg_bytes m) \<le> unat bl \<and> num_handles m \<le> unat hl \<and>
         received_handles (t_handles t) ha hl m = (ks, T') \<and> heap k' me = Some (TaskObj (t\<lparr>t_handles := T'\<rparr>)) \<and>
         user_memory k' = received_memory (user_memory k) ba bl ha m ks \<and>
         get_message_status (bits p) (of_nat (length (msg_bytes m))) (of_nat (num_handles m)) = Inr w)"
proof -
  have "calling me k" using assms by (simp add: calling_def kind_Some)
  then obtain res k' where run: "get_message p me h ba bl ha hl k = Inr (res, k')"
    using wp_total [OF get_message_safe [OF assms(1)]] by blast
  from assms(2,3) run show ?thesis
  proof (cases rule: get_message_cases)
    case (failed e)
    then show ?thesis using run by (intro exI [of _ res] exI [of _ k'] exI [of _ Quiet]) auto
  next
    case (received ch r m ks T' w)
    then show ?thesis using run by (intro exI [of _ res] exI [of _ k'] exI [of _ "Received r m"] conjI) auto
  qed
qed

lemma sample_get:
  defines "c \<equiv> \<lparr>ch_id = 6, ch_owner = 2, messages = [\<lparr>msg_bytes = [0, 0, 0], handle_objects = [None, None, None, None]\<rparr>], other_end = Some 4\<rparr>"
  shows "kernel_inv (update_object sample_kernel 5 (ChannelObj c))"
    and "\<exists>w k'. get_message sample_platform 1 2 0x2000 16 0 0 (update_object sample_kernel 5 (ChannelObj c)) = Inr (Inr w, k')"
proof -
  let ?k = "update_object sample_kernel 5 (ChannelObj c)" and ?m = "\<lparr>msg_bytes = [0, 0, 0], handle_objects = [None, None, None, None]\<rparr>"
  have "calling 1 sample_kernel" using sample_inv sample_task_one by (simp add: calling_def kind_Some)
  from wp_partial [OF send_message_safe [OF this, where b = False] sample_send] have k: "calling 1 ?k" by (simp add: c_def)
  then show "kernel_inv ?k" by (simp add: calling_def)
  have me: "heap ?k 1 = Some (TaskObj (sample_task 2 0 Running \<lparr>table = [1 \<mapsto> 4, 2 \<mapsto> 5, 3 \<mapsto> 6, 4 \<mapsto> 7, 5 \<mapsto> 8], next_handle = 6\<rparr>))"
    using sample_task_one by simp
  have ok: "message_ok ?m" unfolding no_objects [symmetric] by (rule objects_array_ok) (simp_all add: CHANNEL_MAX_NUM_BYTES_def)
  have "message_refs ?m = []" "num_handles ?m = 0" by (simp_all add: message_refs_def num_handles_def List.map_filter_def)
  then have "wp False (deliver sample_platform 1 0x2000 16 0 0 ?m) (\<lambda>r k'. True) ?k"
    by (intro wp_deliver [OF sample_bits k ok]) simp_all
  from wp_total [OF this] obtain res k' where d: "deliver sample_platform 1 0x2000 16 0 0 ?m ?k = Inr (res, k')"
    by (elim exE conjE)
  have "\<exists>w. res = Inr w"
    using ok me d by (cases rule: deliver_cases) (simp_all add: \<open>num_handles ?m = 0\<close>)
  then obtain w where w: "res = Inr w" by (rule exE)
  have "messages c = [?m]" by (simp add: c_def)
  then have r: "receive_from 5 c (deliver sample_platform 1 0x2000 16 0 0) ?k = Inr (Inr w, update_object k' 5 (ChannelObj (c\<lparr>messages := []\<rparr>)))"
    using d w by (simp add: receive_from_def receive_def)
  have "object_of 1 2 GetInvalidChannelHandle as_channel GetNotAChannel ?k = Inr (Inr (5, c), ?k)"
    by (simp only: object_of_run [OF me]) (simp add: handles_get_def sample_task_def as_channel_def)
  then have "get_message sample_platform 1 2 0x2000 16 0 0 ?k = receive_from 5 c (deliver sample_platform 1 0x2000 16 0 0) ?k"
    by (simp add: get_message_def sbind_def ok_or_def handle_try_from_def sreturn_def)
  then show "\<exists>w k'. get_message sample_platform 1 2 0x2000 16 0 0 ?k = Inr (Inr w, k')" unfolding r by (intro exI)
qed

theorem get_message_refines_witness:
  "\<exists>k1 w k2 m. send_message 1 1 0x1000 3 0 0 sample_kernel = Inr (Inr (), k1) \<and>
     get_message sample_platform 1 2 0x2000 16 0 0 k1 = Inr (Inr w, k2) \<and> channel_step (Received 5 m) (queues k1) (queues k2)"
proof -
  let ?T = "\<lparr>table = [1 \<mapsto> 4, 2 \<mapsto> 5, 3 \<mapsto> 6, 4 \<mapsto> 7, 5 \<mapsto> 8], next_handle = 6\<rparr> :: handles"
  let ?k = "update_object sample_kernel 5 (ChannelObj \<lparr>ch_id = 6, ch_owner = 2,
    messages = [\<lparr>msg_bytes = [0, 0, 0], handle_objects = [None, None, None, None]\<rparr>], other_end = Some 4\<rparr>)"
  obtain w k2 where g: "get_message sample_platform 1 2 0x2000 16 0 0 ?k = Inr (Inr w, k2)" using sample_get(2) by blast
  have me: "heap ?k 1 = Some (TaskObj (sample_task 2 0 Running ?T))" using sample_task_one by simp
  obtain ev ch r m where ev: "channel_step ev (queues ?k) (queues k2)" "handle_try_from 2 = Some ch"
      "handles_get (t_handles (sample_task 2 0 Running ?T)) ch = Some r" "ev = Received r m"
    using get_message_refines [OF sample_bits sample_get(1) me, of 2 "0x2000" 16 0 0] unfolding g by auto
  then have "ev = Received 5 m" by (auto simp: handle_try_from_def handles_get_def sample_task_def)
  then show ?thesis using ev(1) g sample_send by blast
qed

subsection \<open>Handles lost on an error\<close>

lemma take_all_there:
  assumes "distinct hs" and "set hs \<subseteq> dom (handles_get T)"
  shows "\<exists>rs. fst (take_all T hs) = Some rs"
  using assms
proof (induction hs arbitrary: T)
  case (Cons h hs)
  then obtain r where r: "handles_get T h = Some r" by auto
  have d: "set hs \<subseteq> dom (handles_get (handles_remove T h))" using Cons.prems by (auto simp: task_handles.get_remove)
  obtain rs where "fst (take_all (handles_remove T h) hs) = Some rs"
    using Cons.IH [OF _ d] Cons.prems(1) by auto
  then show ?case using r by (auto simp: split_beta)
qed simp

text \<open>C36: a send on a handle that is not in the table fails with \<open>InvalidChannelHandle\<close>, but only after the
  handles of the message were taken from the sender: all of them are gone from its table although no
  queue received them.\<close>

theorem send_message_loses_handles:
  fixes nb nh :: usize
  assumes "heap k me = Some (TaskObj t)" and "nb \<le> CHANNEL_MAX_NUM_BYTES" and "nh \<le> of_nat CHANNEL_MAX_NUM_HANDLES"
    and "handle_try_from h = Some ch" and "handles_get (t_handles t) ch = None"
    and "distinct (user_words k 4 ha nh :: handle list)" and "set (user_words k 4 ha nh) \<subseteq> dom (handles_get (t_handles t))"
  shows "\<exists>k' T'. send_message me h ba nb ha nh k = Inr (Inl SendInvalidChannelHandle, k') \<and> queues k' = queues k \<and>
    heap k' me = Some (TaskObj (t\<lparr>t_handles := T'\<rparr>)) \<and>
    handles_get T' = (\<lambda>x. if x \<in> set (user_words k 4 ha nh) then None else handles_get (t_handles t) x)"
proof -
  obtain rs where "fst (take_all (t_handles t) (user_words k 4 ha nh)) = Some rs" using take_all_there [OF assms(6,7)] by blast
  then obtain T' where x: "take_all (t_handles t) (user_words k 4 ha nh) = (Some rs, T')" by (metis prod.collapse)
  let ?k = "update_object k me (TaskObj (t\<lparr>t_handles := T'\<rparr>))"
  note tk = take_all_ok [OF x]
  have me: "heap ?k me = Some (TaskObj (t\<lparr>t_handles := T'\<rparr>))" by simp
  have "handles_get T' ch = None" using tk assms(5) by simp
  then have "object_of me ch SendInvalidChannelHandle as_channel SendNotAChannel ?k = Inr (Inl SendInvalidChannelHandle, ?k)"
    by (simp add: object_of_run [OF me])
  then have "send_message me h ba nb ha nh k = Inr (Inl SendInvalidChannelHandle, ?k)"
    unfolding send_message_run [OF assms(1-4) x] by (simp add: sbind_def)
  then show ?thesis using me tk assms(1) by (intro exI [of _ ?k] exI [of _ T']) simp
qed

text \<open>A task with five handles sends handle 3 on handle 9, which it does not have, and handle 3 is gone.\<close>

theorem send_message_loses_handles_witness:
  "let k = sample_kernel\<lparr>user_memory := (\<lambda>a. if a = 0x1000 then 3 else 0)\<rparr> in
   handles_get \<lparr>table = [1 \<mapsto> 4, 2 \<mapsto> 5, 3 \<mapsto> 6, 4 \<mapsto> 7, 5 \<mapsto> 8], next_handle = 6\<rparr> 3 = Some 6 \<and>
   (\<exists>k' T'. send_message 1 9 0x2000 0 0x1000 1 k = Inr (Inl SendInvalidChannelHandle, k') \<and>
     heap k' 1 = Some (TaskObj (sample_task 2 0 Running T')) \<and> handles_get T' 3 = None)"
proof -
  let ?T = "\<lparr>table = [1 \<mapsto> 4, 2 \<mapsto> 5, 3 \<mapsto> 6, 4 \<mapsto> 7, 5 \<mapsto> 8], next_handle = 6\<rparr> :: handles"
  let ?k = "sample_kernel\<lparr>user_memory := (\<lambda>a. if a = 0x1000 then 3 else 0)\<rparr>"
  have me: "heap ?k 1 = Some (TaskObj (sample_task 2 0 Running ?T))" using sample_task_one by simp
  have hs: "(user_words ?k 4 0x1000 1 :: handle list) = [3]"
    by (simp add: user_words_def le_value_def read_bytes_def upt_rec)
  have there: "3 \<in> dom (handles_get ?T)" by (simp add: handles_get_def dom_def)
  have T: "t_handles (sample_task 2 0 Running ?T) = ?T" "sample_task 2 0 Running ?T\<lparr>t_handles := T'\<rparr> = sample_task 2 0 Running T'" for T'
    by (simp_all add: sample_task_def)
  obtain k' T' where "send_message 1 9 0x2000 0 0x1000 1 ?k = Inr (Inl SendInvalidChannelHandle, k')"
      "heap k' 1 = Some (TaskObj (sample_task 2 0 Running T'))" "handles_get T' = (\<lambda>x. if x \<in> {3} then None else handles_get ?T x)"
    using send_message_loses_handles [OF me, of 0 1 9 9 "0x1000" "0x2000"] there unfolding T hs
    by (auto simp: CHANNEL_MAX_NUM_BYTES_def CHANNEL_MAX_NUM_HANDLES_def handle_try_from_def handles_get_def)
  moreover from this(3) have "handles_get T' 3 = None" by simp
  moreover have "handles_get ?T 3 = Some 6" by (simp add: handles_get_def)
  ultimately show ?thesis unfolding Let_def by blast
qed

end
