(* ===== verification/Ptah_Wire.thy ===== *)
theory Ptah_Wire
  imports Kernel_Validation
begin

text \<open>
  \<open>lib/ptah/src\<close>: the serialization that messages between tasks use.  A \<open>Writer\<close> is the record of its
  methods over its state, and a \<open>Serializer\<close> is the state of its writer.  An implementation of
  \<open>Serialize\<close> is a function of the writer and the value, one of \<open>Deserialize\<close> a computation on the
  bytes and handles that are left.  Signed integers and floats are the words of their bits.  A string
  is the list of its bytes, a \<open>BTreeMap\<close> its entries in the order of the keys.  Tuples of any size are
  nested pairs in HOL, so that the macro for tuples is one definition.
\<close>

lemma sfor_cong [fundef_cong]: "xs = ys \<Longrightarrow> (\<And>x. x \<in> set ys \<Longrightarrow> f x = g x) \<Longrightarrow> sfor xs f = sfor ys g"
  by (induction ys arbitrary: xs) auto

type_synonym handle_slot = u8
type_synonym u128 = "128 word"
type_synonym i8 = "8 word"
type_synonym i16 = "16 word"
type_synonym i32 = "32 word"
type_synonym i64 = "64 word"
type_synonym i128 = "128 word"
type_synonym f32 = "32 word"
type_synonym f64 = "64 word"

datatype ser_error = WriterFullOfBytes | WriterFullOfHandles

datatype de_error =
    EndOfStream
  | TrailingBytes
  | InvalidHandleSlot handle_slot
  | InvalidChar
  | InvalidUtf8
  | InvalidBoolMarker u8
  | InvalidOptionMarker u8
  | InvalidEnumTag u32

definition MARKER_FALSE :: u8 where "MARKER_FALSE = 0x0"
definition MARKER_TRUE :: u8 where "MARKER_TRUE = 0x1"
definition MARKER_NONE :: u8 where "MARKER_NONE = 0x0"
definition MARKER_SOME :: u8 where "MARKER_SOME = 0x1"
definition HANDLE_SLOT_0 :: u8 where "HANDLE_SLOT_0 = 0xf0"
definition HANDLE_SLOT_1 :: u8 where "HANDLE_SLOT_1 = 0xf1"
definition HANDLE_SLOT_2 :: u8 where "HANDLE_SLOT_2 = 0xf2"
definition HANDLE_SLOT_3 :: u8 where "HANDLE_SLOT_3 = 0xf3"

lemmas ptah_consts = MARKER_FALSE_def MARKER_TRUE_def MARKER_NONE_def MARKER_SOME_def
  HANDLE_SLOT_0_def HANDLE_SLOT_1_def HANDLE_SLOT_2_def HANDLE_SLOT_3_def

definition make_handle_slot :: "u8 \<Rightarrow> panic + handle_slot" where
  "make_handle_slot index =
     (if index = 0 then Inr HANDLE_SLOT_0
      else if index = 1 then Inr HANDLE_SLOT_1
      else if index = 2 then Inr HANDLE_SLOT_2
      else if index = 3 then Inr HANDLE_SLOT_3
      else Inl ExplicitPanic)"

definition index_from_handle_slot :: "handle_slot \<Rightarrow> panic + u8" where
  "index_from_handle_slot slot =
     (if slot = HANDLE_SLOT_0 then Inr 0
      else if slot = HANDLE_SLOT_1 then Inr 1
      else if slot = HANDLE_SLOT_2 then Inr 2
      else if slot = HANDLE_SLOT_3 then Inr 3
      else Inl ExplicitPanic)"

subsection \<open>Writers\<close>

record 'w writer =
  writer_write :: "u8 list \<Rightarrow> ('w, ser_error, unit) sys"
  writer_push_handle :: "handle \<Rightarrow> ('w, ser_error, handle_slot) sys"
  writer_bytes_written :: "'w \<Rightarrow> usize"

text \<open>Slices have at most \<open>isize::MAX\<close> bytes, so that the sum of the cursor and a length does not overflow.\<close>

record cursor_state =
  cw_buffer :: "u8 list"
  cw_cursor :: nat

definition cursor_new :: "u8 list \<Rightarrow> cursor_state" where
  "cursor_new buffer = \<lparr>cw_buffer = buffer, cw_cursor = 0\<rparr>"

definition cursor_write :: "u8 list \<Rightarrow> (cursor_state, ser_error, unit) sys" where
  "cursor_write buf = (\<lambda>w.
     if cw_cursor w + length buf > length (cw_buffer w) then Inr (Inl WriterFullOfBytes, w)
     else Inr (Inr (), \<lparr>
       cw_buffer = take (cw_cursor w) (cw_buffer w) @ buf @ drop (cw_cursor w + length buf) (cw_buffer w),
       cw_cursor = cw_cursor w + length buf\<rparr>))"

definition cursor_writer :: "cursor_state writer" where
  "cursor_writer = \<lparr>writer_write = cursor_write, writer_push_handle = (\<lambda>_ _. Inl Unimplemented),
     writer_bytes_written = (\<lambda>w. of_nat (cw_cursor w))\<rparr>"

definition vec_writer :: "u8 list writer" where
  "vec_writer = \<lparr>writer_write = (\<lambda>buf. smodify (\<lambda>w. w @ buf)), writer_push_handle = (\<lambda>_ _. Inl Unimplemented),
     writer_bytes_written = (\<lambda>w. of_nat (length w))\<rparr>"

definition size_calculator :: "usize writer" where
  "size_calculator = \<lparr>writer_write = (\<lambda>buf. supdate (\<lambda>n. uadd n (of_nat (length buf)))),
     writer_push_handle = (\<lambda>_. sreturn HANDLE_SLOT_0), writer_bytes_written = (\<lambda>n. n)\<rparr>"

subsection \<open>Serializer\<close>

type_synonym ('w, 't) serialize = "'w writer \<Rightarrow> 't \<Rightarrow> ('w, ser_error, unit) sys"

definition serialize_bool :: "('w, bool) serialize" where
  "serialize_bool W value = writer_write W [if value then 0x01 else 0x00]"

definition serialize_u8 :: "('w, u8) serialize" where
  "serialize_u8 W value = writer_write W (le_bytes 1 value)"

definition serialize_u16 :: "('w, u16) serialize" where
  "serialize_u16 W value = writer_write W (le_bytes 2 value)"

definition serialize_u32 :: "('w, u32) serialize" where
  "serialize_u32 W value = writer_write W (le_bytes 4 value)"

definition serialize_u64 :: "('w, u64) serialize" where
  "serialize_u64 W value = writer_write W (le_bytes 8 value)"

definition serialize_u128 :: "('w, u128) serialize" where
  "serialize_u128 W value = writer_write W (le_bytes 16 value)"

definition serialize_i8 :: "('w, i8) serialize" where
  "serialize_i8 W value = writer_write W (le_bytes 1 value)"

definition serialize_i16 :: "('w, i16) serialize" where
  "serialize_i16 W value = writer_write W (le_bytes 2 value)"

definition serialize_i32 :: "('w, i32) serialize" where
  "serialize_i32 W value = writer_write W (le_bytes 4 value)"

definition serialize_i64 :: "('w, i64) serialize" where
  "serialize_i64 W value = writer_write W (le_bytes 8 value)"

definition serialize_i128 :: "('w, i128) serialize" where
  "serialize_i128 W value = writer_write W (le_bytes 16 value)"

definition serialize_f32 :: "('w, f32) serialize" where
  "serialize_f32 W value = writer_write W (le_bytes 4 value)"

definition serialize_f64 :: "('w, f64) serialize" where
  "serialize_f64 W value = writer_write W (le_bytes 8 value)"

text \<open>A \<open>char\<close> is the number of a Unicode scalar value.\<close>

definition char_from_u32 :: "u32 \<Rightarrow> u32 option" where
  "char_from_u32 x = (if x < 0xD800 \<or> 0xDFFF < x \<and> x < 0x110000 then Some x else None)"

definition serialize_char :: "('w, u32) serialize" where
  "serialize_char W value = writer_write W (le_bytes 4 value)"

definition serialize_seq :: "('w, u32) serialize" where
  "serialize_seq W len = serialize_u32 W len"

definition serialize_map :: "('w, u32) serialize" where
  "serialize_map W len = serialize_u32 W len"

definition serialize_str :: "('w, u8 list) serialize" where
  "serialize_str W value =
     sbind (serialize_seq W (of_nat (length value))) (\<lambda>_.
     sbind (sfor value (serialize_u8 W)) (\<lambda>_. sreturn ()))"

definition serialize_none :: "'w writer \<Rightarrow> ('w, ser_error, unit) sys" where
  "serialize_none W = writer_write W [MARKER_NONE]"

definition serialize_some :: "('w, 't) serialize \<Rightarrow> ('w, 't) serialize" where
  "serialize_some s W value = sbind (writer_write W [MARKER_SOME]) (\<lambda>_. s W value)"

definition serialize_enum_variant :: "('w, u32) serialize" where
  "serialize_enum_variant W variant_index = serialize_u32 W variant_index"

definition serialize_handle :: "('w, handle) serialize" where
  "serialize_handle W h = sbind (writer_push_handle W h) (\<lambda>slot. serialize_u8 W slot)"

subsection \<open>Implementations of \<open>Serialize\<close>\<close>

definition serialize_usize :: "('w, usize) serialize" where
  "serialize_usize W value = serialize_u64 W value"

definition serialize_isize :: "('w, i64) serialize" where
  "serialize_isize W value = serialize_i64 W value"

definition serialize_option :: "('w, 't) serialize \<Rightarrow> ('w, 't option) serialize" where
  "serialize_option s W value = (case value of Some v \<Rightarrow> serialize_some s W v | None \<Rightarrow> serialize_none W)"

definition serialize_array :: "('w, 't) serialize \<Rightarrow> ('w, 't list) serialize" where
  "serialize_array s W elements = sbind (sfor elements (s W)) (\<lambda>_. sreturn ())"

definition serialize_slice :: "('w, 't) serialize \<Rightarrow> ('w, 't list) serialize" where
  "serialize_slice s W elements =
     sbind (serialize_seq W (of_nat (length elements))) (\<lambda>_.
     sbind (sfor elements (s W)) (\<lambda>_. sreturn ()))"

definition serialize_unit :: "('w, unit) serialize" where
  "serialize_unit W value = sreturn ()"

definition serialize_vec :: "('w, 't) serialize \<Rightarrow> ('w, 't list) serialize" where
  "serialize_vec s W elements =
     sbind (serialize_seq W (of_nat (length elements))) (\<lambda>_.
     sbind (sfor elements (s W)) (\<lambda>_. sreturn ()))"

definition serialize_tuple :: "('w, 'a) serialize \<Rightarrow> ('w, 'b) serialize \<Rightarrow> ('w, 'a \<times> 'b) serialize" where
  "serialize_tuple s0 s1 W value =
     sbind (s0 W (fst value)) (\<lambda>_. sbind (s1 W (snd value)) (\<lambda>_. sreturn ()))"

definition serialize_btree_map :: "('w, 'k) serialize \<Rightarrow> ('w, 'v) serialize \<Rightarrow> ('w, ('k \<times> 'v) list) serialize" where
  "serialize_btree_map sk sv W m =
     sbind (serialize_map W (of_nat (length m))) (\<lambda>_.
     sbind (sfor m (\<lambda>(k, v). sbind (sk W k) (\<lambda>_. sv W v))) (\<lambda>_. sreturn ()))"

subsection \<open>Deserializer\<close>

record deserializer =
  de_bytes :: "u8 list"
  de_handles :: "handle list"

type_synonym 't deserialize = "(deserializer, de_error, 't) sys"

definition take_byte :: "u8 deserialize" where
  "take_byte = (\<lambda>d.
     case de_bytes d of
       [] \<Rightarrow> Inr (Inl EndOfStream, d)
     | byte # rest \<Rightarrow> Inr (Inr byte, d\<lparr>de_bytes := rest\<rparr>))"

definition take_n :: "nat \<Rightarrow> u8 list deserialize" where
  "take_n n = (\<lambda>d.
     if length (de_bytes d) < n then Inr (Inl EndOfStream, d)
     else Inr (Inr (take n (de_bytes d)), d\<lparr>de_bytes := drop n (de_bytes d)\<rparr>))"

definition deserialize_bool :: "bool deserialize" where
  "deserialize_bool =
     sbind take_byte (\<lambda>tag.
       if tag = MARKER_TRUE then sreturn True
       else if tag = MARKER_FALSE then sreturn False
       else sfail (InvalidBoolMarker tag))"

definition deserialize_u8 :: "u8 deserialize" where
  "deserialize_u8 = take_byte"

definition deserialize_u16 :: "u16 deserialize" where
  "deserialize_u16 = sbind (take_n 2) (\<lambda>bs. sreturn (le_value bs))"

definition deserialize_u32 :: "u32 deserialize" where
  "deserialize_u32 = sbind (take_n 4) (\<lambda>bs. sreturn (le_value bs))"

definition deserialize_u64 :: "u64 deserialize" where
  "deserialize_u64 = sbind (take_n 8) (\<lambda>bs. sreturn (le_value bs))"

definition deserialize_u128 :: "u128 deserialize" where
  "deserialize_u128 = sbind (take_n 16) (\<lambda>bs. sreturn (le_value bs))"

definition deserialize_i8 :: "i8 deserialize" where
  "deserialize_i8 = take_byte"

definition deserialize_i16 :: "i16 deserialize" where
  "deserialize_i16 = sbind (take_n 2) (\<lambda>bs. sreturn (le_value bs))"

definition deserialize_i32 :: "i32 deserialize" where
  "deserialize_i32 = sbind (take_n 4) (\<lambda>bs. sreturn (le_value bs))"

definition deserialize_i64 :: "i64 deserialize" where
  "deserialize_i64 = sbind (take_n 8) (\<lambda>bs. sreturn (le_value bs))"

definition deserialize_i128 :: "i128 deserialize" where
  "deserialize_i128 = sbind (take_n 16) (\<lambda>bs. sreturn (le_value bs))"

definition deserialize_f32 :: "f32 deserialize" where
  "deserialize_f32 = sbind (take_n 4) (\<lambda>bs. sreturn (le_value bs))"

definition deserialize_f64 :: "f64 deserialize" where
  "deserialize_f64 = sbind (take_n 8) (\<lambda>bs. sreturn (le_value bs))"

definition deserialize_char :: "u32 deserialize" where
  "deserialize_char = sbind (take_n 4) (\<lambda>bs. ok_or InvalidChar (char_from_u32 (le_value bs)))"

definition deserialize_str :: "u8 list deserialize" where
  "deserialize_str =
     sbind deserialize_u32 (\<lambda>len.
     sbind (take_n (unat len)) (\<lambda>bs.
       if utf8_valid bs then sreturn bs else sfail InvalidUtf8))"

definition deserialize_option :: "'t deserialize \<Rightarrow> 't option deserialize" where
  "deserialize_option d =
     sbind take_byte (\<lambda>tag.
       if tag = MARKER_NONE then sreturn None
       else if tag = MARKER_SOME then sbind d (\<lambda>v. sreturn (Some v))
       else sfail (InvalidOptionMarker tag))"

definition deserialize_enum_tag :: "u32 deserialize" where
  "deserialize_enum_tag = deserialize_u32"

definition deserialize_seq_length :: "u32 deserialize" where
  "deserialize_seq_length = deserialize_u32"

definition deserialize_map_length :: "u32 deserialize" where
  "deserialize_map_length = deserialize_u32"

definition deserialize_handle :: "handle deserialize" where
  "deserialize_handle =
     sbind deserialize_u8 (\<lambda>slot.
     sbind (slift (index_from_handle_slot slot)) (\<lambda>index.
     sbind (sget (\<lambda>d. Inr (de_handles d))) (\<lambda>handles.
       if unat index < length handles then sreturn (handles ! unat index)
       else sfail (InvalidHandleSlot slot))))"

subsection \<open>Implementations of \<open>Deserialize\<close>\<close>

definition deserialize_usize :: "usize deserialize" where
  "deserialize_usize = deserialize_u64"

definition deserialize_isize :: "i64 deserialize" where
  "deserialize_isize = deserialize_i64"

definition deserialize_array :: "nat \<Rightarrow> 't deserialize \<Rightarrow> 't list deserialize" where
  "deserialize_array n d = sfor [0 ..< n] (\<lambda>i. d)"

definition deserialize_unit :: "unit deserialize" where
  "deserialize_unit = sreturn ()"

definition deserialize_never :: "'a deserialize" where
  "deserialize_never = (\<lambda>d. Inl ExplicitPanic)"

definition deserialize_vec :: "'t deserialize \<Rightarrow> 't list deserialize" where
  "deserialize_vec d = sbind deserialize_seq_length (\<lambda>len. sfor [0 ..< unat len] (\<lambda>i. d))"

definition deserialize_tuple :: "'a deserialize \<Rightarrow> 'b deserialize \<Rightarrow> ('a \<times> 'b) deserialize" where
  "deserialize_tuple d0 d1 = sbind d0 (\<lambda>a. sbind d1 (\<lambda>b. sreturn (a, b)))"

primrec deserialize_entries ::
  "'k::linorder deserialize \<Rightarrow> 'v deserialize \<Rightarrow> nat \<Rightarrow> ('k \<times> 'v) list \<Rightarrow> ('k \<times> 'v) list deserialize" where
  "deserialize_entries dk dv 0 m = sreturn m"
| "deserialize_entries dk dv (Suc n) m =
     sbind dk (\<lambda>k. sbind dv (\<lambda>v. deserialize_entries dk dv n (btree_insert k v m)))"

definition deserialize_btree_map :: "'k::linorder deserialize \<Rightarrow> 'v deserialize \<Rightarrow> ('k \<times> 'v) list deserialize" where
  "deserialize_btree_map dk dv =
     sbind deserialize_map_length (\<lambda>len. deserialize_entries dk dv (unat len) [])"

subsection \<open>To and from the wire\<close>

definition serialized_size :: "(usize, 't) serialize \<Rightarrow> 't \<Rightarrow> panic + (ser_error + usize)" where
  "serialized_size s value =
     rbind (s size_calculator value 0) (\<lambda>(r, size'). Inr (case r of Inl e \<Rightarrow> Inl e | Inr _ \<Rightarrow> Inr size'))"

definition to_wire :: "('w, 't) serialize \<Rightarrow> 'w writer \<Rightarrow> 't \<Rightarrow> ('w, ser_error, usize) sys" where
  "to_wire s W value = sbind (s W value) (\<lambda>_. sget (\<lambda>w. Inr (writer_bytes_written W w)))"

definition from_wire :: "'t deserialize \<Rightarrow> u8 list \<Rightarrow> handle list \<Rightarrow> panic + (de_error + 't)" where
  "from_wire d bytes handles =
     rbind (d \<lparr>de_bytes = bytes, de_handles = handles\<rparr>) (\<lambda>(r, d').
       Inr (case r of
         Inl e \<Rightarrow> Inl e
       | Inr value \<Rightarrow> if de_bytes d' = [] then Inr value else Inl TrailingBytes))"

end
