(* ===== verification/Ptah_Codec.thy ===== *)
theory Ptah_Codec
  imports Ptah_Wire
begin

text \<open>
  What the serialization promises.  Independently of the writer, a value is a sequence of items, bytes
  and handles, and \<open>emit\<close> gives them to a writer.  Each serializer is shown to be \<open>emit\<close> of the items
  of its value, and each deserializer to read them back (\<open>reads\<close>), with the handles renamed, because
  the receiver of a message knows the same objects by other handles.  The locale \<open>wire_writer\<close> is what
  a writer has to do.
\<close>

subsection \<open>Items\<close>

datatype item = Put "u8 list" | Give handle

primrec put_item :: "'w writer \<Rightarrow> item \<Rightarrow> ('w, ser_error, unit) sys" where
  "put_item W (Put bs) = writer_write W bs"
| "put_item W (Give h) = sbind (writer_push_handle W h) (\<lambda>slot. writer_write W [slot])"

primrec emit :: "'w writer \<Rightarrow> item list \<Rightarrow> ('w, ser_error, unit) sys" where
  "emit W [] = sreturn ()"
| "emit W (x # xs) = sbind (put_item W x) (\<lambda>_. emit W xs)"

text \<open>The bytes of items that follow \<open>n\<close> handles, and the handles among the items.\<close>

fun wire_bytes :: "nat \<Rightarrow> item list \<Rightarrow> u8 list" where
  "wire_bytes n [] = []"
| "wire_bytes n (Put bs # xs) = bs @ wire_bytes n xs"
| "wire_bytes n (Give h # xs) = (0xf0 + of_nat n) # wire_bytes (Suc n) xs"

fun given :: "item list \<Rightarrow> handle list" where
  "given [] = []"
| "given (Put bs # xs) = given xs"
| "given (Give h # xs) = h # given xs"

lemma given_append [simp]: "given (xs @ ys) = given xs @ given ys"
  by (induction xs rule: given.induct) simp_all

lemma wire_bytes_append [simp]: "wire_bytes n (xs @ ys) = wire_bytes n xs @ wire_bytes (n + length (given xs)) ys"
  by (induction n xs rule: wire_bytes.induct) simp_all

abbreviation wire_length :: "item list \<Rightarrow> nat" where
  "wire_length xs \<equiv> length (wire_bytes 0 xs)"

lemma length_wire_bytes: "length (wire_bytes n xs) = length (wire_bytes m xs)"
  by (induction n xs arbitrary: m rule: wire_bytes.induct) auto

lemma sbind_assoc: "sbind (sbind m f) g = sbind m (\<lambda>x. sbind (f x) g)"
  by (auto simp: sbind_def fun_eq_iff rbind_def split: sum.splits)

lemma sbind_return [simp]: "sbind (sreturn x) f = f x" "sbind m sreturn = m"
  by (auto simp: sbind_def sreturn_def fun_eq_iff rbind_def split: sum.splits prod.splits)

lemma sbind_unit [simp]: "sbind m (\<lambda>_. sreturn ()) = m"
  by (auto simp: sbind_def sreturn_def fun_eq_iff rbind_def split: sum.splits prod.splits)

lemma emit_append: "emit W (xs @ ys) = sbind (emit W xs) (\<lambda>_. emit W ys)"
  by (induction xs) (simp_all add: sbind_assoc)

lemma emit_put: "emit W [Put bs] = writer_write W bs"
  by simp

subsection \<open>Serializers emit items\<close>

named_theorems emits \<open>serializers as sequences of items\<close>

lemma le_bytes_1 [simp]: "le_bytes (Suc 0) (v :: u8) = [v]"
  by (simp add: le_bytes_def)

definition bool_item :: "bool \<Rightarrow> item" where
  "bool_item b = Put [if b then 1 else 0]"

lemma emits_primitive [emits]:
  "serialize_bool W b = emit W [bool_item b]"
  "serialize_u8 W v8 = emit W [Put [v8]]"
  "serialize_u16 W v16 = emit W [Put (le_bytes 2 v16)]"
  "serialize_u32 W v32 = emit W [Put (le_bytes 4 v32)]"
  "serialize_u64 W v64 = emit W [Put (le_bytes 8 v64)]"
  "serialize_u128 W v128 = emit W [Put (le_bytes 16 v128)]"
  "serialize_i8 W v8 = emit W [Put [v8]]"
  "serialize_i16 W v16 = emit W [Put (le_bytes 2 v16)]"
  "serialize_i32 W v32 = emit W [Put (le_bytes 4 v32)]"
  "serialize_i64 W v64 = emit W [Put (le_bytes 8 v64)]"
  "serialize_i128 W v128 = emit W [Put (le_bytes 16 v128)]"
  "serialize_f32 W v32 = emit W [Put (le_bytes 4 v32)]"
  "serialize_f64 W v64 = emit W [Put (le_bytes 8 v64)]"
  "serialize_char W v32 = emit W [Put (le_bytes 4 v32)]"
  "serialize_usize W v64 = emit W [Put (le_bytes 8 v64)]"
  "serialize_isize W v64 = emit W [Put (le_bytes 8 v64)]"
  "serialize_handle W h = emit W [Give h]"
  "serialize_unit W u = emit W []"
  by (simp_all add: serialize_bool_def bool_item_def serialize_u8_def serialize_u16_def serialize_u32_def serialize_u64_def
      serialize_u128_def serialize_i8_def serialize_i16_def serialize_i32_def serialize_i64_def serialize_i128_def
      serialize_f32_def serialize_f64_def serialize_char_def serialize_usize_def serialize_isize_def
      serialize_handle_def serialize_unit_def)

lemma emits_for: "(\<And>x. x \<in> set xs \<Longrightarrow> s x = emit W (f x)) \<Longrightarrow> sbind (sfor xs s) (\<lambda>_. sreturn ()) = emit W (concat (map f xs))"
proof (induction xs)
  case (Cons x xs)
  have "sbind (sfor (x # xs) s) (\<lambda>_. sreturn ()) = sbind (s x) (\<lambda>_. sbind (sfor xs s) (\<lambda>_. sreturn ()))"
    by (simp add: sbind_assoc)
  then show ?case using Cons by (simp add: emit_append)
qed simp

definition tag_item :: "u32 \<Rightarrow> item" where
  "tag_item i = Put (le_bytes 4 i)"

lemma emits_tag [emits]: "serialize_enum_variant W i = emit W [tag_item i]"
  by (simp add: serialize_enum_variant_def serialize_u32_def tag_item_def)

definition length_item :: "'a list \<Rightarrow> item" where
  "length_item xs = Put (le_bytes 4 (of_nat (length xs) :: u32))"

definition str_items :: "u8 list \<Rightarrow> item list" where
  "str_items v = length_item v # map (\<lambda>b. Put [b]) v"

definition option_items :: "('t \<Rightarrow> item list) \<Rightarrow> 't option \<Rightarrow> item list" where
  "option_items f v = (case v of None \<Rightarrow> [Put [0]] | Some x \<Rightarrow> Put [1] # f x)"

definition seq_items :: "('t \<Rightarrow> item list) \<Rightarrow> 't list \<Rightarrow> item list" where
  "seq_items f xs = length_item xs # concat (map f xs)"

definition pair_items :: "('a \<Rightarrow> item list) \<Rightarrow> ('b \<Rightarrow> item list) \<Rightarrow> 'a \<times> 'b \<Rightarrow> item list" where
  "pair_items f g x = f (fst x) @ g (snd x)"

lemma emits_seq_length: "serialize_seq W (of_nat (length xs)) = emit W [length_item xs]"
    "serialize_map W (of_nat (length xs)) = emit W [length_item xs]"
  by (simp_all add: serialize_seq_def serialize_map_def emits length_item_def)

lemma emits_str [emits]: "serialize_str W v = emit W (str_items v)"
proof -
  have "sbind (sfor v (serialize_u8 W)) (\<lambda>_. sreturn ()) = emit W (concat (map (\<lambda>b. [Put [b]]) v))"
    by (rule emits_for) (simp only: emits)
  moreover have "concat (map (\<lambda>b. [Put [b]]) v) = map (\<lambda>b. Put [b]) v" by (induction v) simp_all
  ultimately show ?thesis by (simp add: serialize_str_def emits_seq_length str_items_def)
qed

lemma emits_option: "(\<And>x. value = Some x \<Longrightarrow> s W x = emit W (f x)) \<Longrightarrow> serialize_option s W value = emit W (option_items f value)"
  by (simp add: serialize_option_def serialize_some_def serialize_none_def option_items_def ptah_consts split: option.splits)

lemma emits_array: "(\<And>x. x \<in> set xs \<Longrightarrow> s W x = emit W (f x)) \<Longrightarrow> serialize_array s W xs = emit W (concat (map f xs))"
  unfolding serialize_array_def by (rule emits_for)

lemma emits_slice: "(\<And>x. x \<in> set xs \<Longrightarrow> s W x = emit W (f x)) \<Longrightarrow> serialize_slice s W xs = emit W (seq_items f xs)"
  using emits_for [of xs "s W" W f] by (simp add: serialize_slice_def emits_seq_length seq_items_def del: sbind_unit)

lemma emits_vec: "(\<And>x. x \<in> set xs \<Longrightarrow> s W x = emit W (f x)) \<Longrightarrow> serialize_vec s W xs = emit W (seq_items f xs)"
  using emits_for [of xs "s W" W f] by (simp add: serialize_vec_def emits_seq_length seq_items_def del: sbind_unit)

lemma emits_tuple: "s0 W (fst x) = emit W (f (fst x)) \<Longrightarrow> s1 W (snd x) = emit W (g (snd x)) \<Longrightarrow>
    serialize_tuple s0 s1 W x = emit W (pair_items f g x)"
  by (simp add: serialize_tuple_def pair_items_def emit_append)

lemma emits_btree_map:
  assumes "\<And>k v. (k, v) \<in> set m \<Longrightarrow> sk W k = emit W (f k) \<and> sv W v = emit W (g v)"
  shows "serialize_btree_map sk sv W m = emit W (seq_items (pair_items f g) m)"
proof -
  have "sbind (sfor m (\<lambda>(k, v). sbind (sk W k) (\<lambda>_. sv W v))) (\<lambda>_. sreturn ()) = emit W (concat (map (pair_items f g) m))"
    by (rule emits_for) (use assms in \<open>auto simp: pair_items_def emit_append\<close>)
  then show ?thesis by (simp add: serialize_btree_map_def emits_seq_length seq_items_def del: sbind_unit)
qed

subsection \<open>Deserializers read items\<close>

definition reads :: "'t deserialize \<Rightarrow> item list \<Rightarrow> (handle \<Rightarrow> handle) \<Rightarrow> 't \<Rightarrow> bool" where
  "reads d xs f v \<longleftrightarrow> (\<forall>n rest hs.
     n + length (given xs) \<le> 4 \<longrightarrow> take (length (given xs)) (drop n hs) = map f (given xs) \<longrightarrow>
     d \<lparr>de_bytes = wire_bytes n xs @ rest, de_handles = hs\<rparr> = Inr (Inr v, \<lparr>de_bytes = rest, de_handles = hs\<rparr>))"

lemma reads_return [intro!]: "v = v' \<Longrightarrow> reads (sreturn v) [] f v'"
  by (simp add: reads_def sreturn_def)

lemma reads_bind:
  assumes "reads d xs f v" and "reads (g v) ys f w"
  shows "reads (sbind d g) (xs @ ys) f w"
  unfolding reads_def
proof (intro allI impI)
  fix n rest hs
  assume n: "n + length (given (xs @ ys)) \<le> 4" and hs: "take (length (given (xs @ ys))) (drop n hs) = map f (given (xs @ ys))"
  let ?a = "given xs" and ?b = "given ys"
  have t: "take (length ?a) (drop n hs) @ take (length ?b) (drop (n + length ?a) hs) = map f ?a @ map f ?b"
    using hs by (simp add: take_add add.commute)
  have "length (take (length ?a + length ?b) (drop n hs)) = length ?a + length ?b" using arg_cong [OF hs, of length] by simp
  then have "length (take (length ?a) (drop n hs)) = length (map f ?a)" by simp
  with t have a: "take (length ?a) (drop n hs) = map f ?a" and b: "take (length ?b) (drop (n + length ?a) hs) = map f ?b"
    by simp_all
  have "d \<lparr>de_bytes = wire_bytes n xs @ wire_bytes (n + length ?a) ys @ rest, de_handles = hs\<rparr> =
      Inr (Inr v, \<lparr>de_bytes = wire_bytes (n + length ?a) ys @ rest, de_handles = hs\<rparr>)"
    using assms(1) n a unfolding reads_def by simp
  moreover have "g v \<lparr>de_bytes = wire_bytes (n + length ?a) ys @ rest, de_handles = hs\<rparr> = Inr (Inr w, \<lparr>de_bytes = rest, de_handles = hs\<rparr>)"
    using assms(2) n b unfolding reads_def by simp
  ultimately show "sbind d g \<lparr>de_bytes = wire_bytes n (xs @ ys) @ rest, de_handles = hs\<rparr> =
      Inr (Inr w, \<lparr>de_bytes = rest, de_handles = hs\<rparr>)"
    by (simp add: sbind_def)
qed

lemma reads_Cons: "reads d [x] f v \<Longrightarrow> reads (g v) ys f w \<Longrightarrow> reads (sbind d g) (x # ys) f w"
  using reads_bind [of d "[x]"] by simp

lemma reads_map: "reads d xs f v \<Longrightarrow> g v = w \<Longrightarrow> reads (sbind d (\<lambda>v. sreturn (g v))) xs f w"
  using reads_bind [of d xs f v "\<lambda>v. sreturn (g v)" "[]" w] by auto

named_theorems reads_intro \<open>what deserializers read\<close>

lemma reads_byte [reads_intro]: "reads take_byte [Put [b]] f b"
  by (simp add: reads_def take_byte_def)

lemma reads_n [reads_intro]: "length bs = n \<Longrightarrow> reads (take_n n) [Put bs] f bs"
  by (simp add: reads_def take_n_def)

lemma reads_word:
  assumes "LENGTH('w::len) = 8 * n"
  shows "reads (sbind (take_n n) (\<lambda>bs. sreturn (le_value bs))) [Put (le_bytes n (v :: 'w word))] f v"
  by (rule reads_map [OF reads_n]) (simp_all add: le_value_bytes assms)

lemma reads_primitive [reads_intro]:
  "reads deserialize_bool [bool_item b] f b"
  "reads deserialize_u8 [Put [v8]] f v8"
  "reads deserialize_u16 [Put (le_bytes 2 v16)] f v16"
  "reads deserialize_u32 [Put (le_bytes 4 v32)] f v32"
  "reads deserialize_u64 [Put (le_bytes 8 v64)] f v64"
  "reads deserialize_u128 [Put (le_bytes 16 v128)] f v128"
  "reads deserialize_i8 [Put [v8]] f v8"
  "reads deserialize_i16 [Put (le_bytes 2 v16)] f v16"
  "reads deserialize_i32 [Put (le_bytes 4 v32)] f v32"
  "reads deserialize_i64 [Put (le_bytes 8 v64)] f v64"
  "reads deserialize_i128 [Put (le_bytes 16 v128)] f v128"
  "reads deserialize_f32 [Put (le_bytes 4 v32)] f v32"
  "reads deserialize_f64 [Put (le_bytes 8 v64)] f v64"
  "reads deserialize_usize [Put (le_bytes 8 v64)] f v64"
  "reads deserialize_isize [Put (le_bytes 8 v64)] f v64"
  "reads deserialize_unit [] f ()"
proof -
  show "reads deserialize_bool [bool_item b] f b"
    by (simp add: reads_def bool_item_def deserialize_bool_def take_byte_def sbind_def sreturn_def ptah_consts)
qed (simp_all only: deserialize_u8_def deserialize_u16_def deserialize_u32_def deserialize_u64_def deserialize_u128_def
    deserialize_i8_def deserialize_i16_def deserialize_i32_def deserialize_i64_def deserialize_i128_def deserialize_f32_def
    deserialize_f64_def deserialize_usize_def deserialize_isize_def deserialize_unit_def,
    (rule reads_byte reads_return reads_word; simp)+)

lemma reads_tag [reads_intro]: "reads deserialize_enum_tag [tag_item i] f i"
  unfolding deserialize_enum_tag_def tag_item_def by (rule reads_primitive)

lemma reads_char [reads_intro]: "char_from_u32 v = Some v \<Longrightarrow> reads deserialize_char [Put (le_bytes 4 v)] f v"
  by (simp add: reads_def deserialize_char_def take_n_def sbind_def ok_or_def sreturn_def le_value_bytes)

lemma slot_index:
  assumes "n < 4"
  shows "make_handle_slot (of_nat n) = Inr (0xf0 + of_nat n)" "index_from_handle_slot (0xf0 + of_nat n) = Inr (of_nat n)"
proof -
  have "n = 0 \<or> n = 1 \<or> n = 2 \<or> n = 3" using assms by arith
  then show "make_handle_slot (of_nat n) = Inr (0xf0 + of_nat n)" "index_from_handle_slot (0xf0 + of_nat n) = Inr (of_nat n)"
    by (auto simp: make_handle_slot_def index_from_handle_slot_def ptah_consts)
qed

lemma reads_handle [reads_intro]: "reads deserialize_handle [Give h] f (f h)"
  unfolding reads_def
proof (intro allI impI)
  fix n rest hs assume n: "n + length (given [Give h]) \<le> 4" and t: "take (length (given [Give h])) (drop n hs) = map f (given [Give h])"
  have len: "n < length hs" using t by (cases "n < length hs") simp_all
  then have "hs ! n = f h" using t by (simp add: take_Suc hd_drop_conv_nth)
  moreover have "unat (of_nat n :: u8) = n" using n by (simp add: unsigned_of_nat take_bit_nat_eq_self)
  ultimately show "deserialize_handle \<lparr>de_bytes = wire_bytes n [Give h] @ rest, de_handles = hs\<rparr> =
      Inr (Inr (f h), \<lparr>de_bytes = rest, de_handles = hs\<rparr>)"
    using n len by (simp add: deserialize_handle_def deserialize_u8_def take_byte_def sbind_def slift_def sget_def sreturn_def slot_index)
qed

lemma reads_length: "length xs < 2 ^ 32 \<Longrightarrow> reads deserialize_u32 [length_item xs] f (of_nat (length xs))"
  unfolding length_item_def by (rule reads_intro)

lemma wire_bytes_put: "wire_bytes n (map (\<lambda>b. Put [b]) v) = v" "given (map (\<lambda>b. Put [b]) v) = []"
  by (induction v) simp_all

lemma unat_length: "length xs < 2 ^ 32 \<Longrightarrow> unat (of_nat (length xs) :: u32) = length xs"
  by (simp add: unsigned_of_nat take_bit_nat_eq_self)

lemma reads_str [reads_intro]:
  assumes "utf8_valid v" and "length v < 2 ^ 32"
  shows "reads deserialize_str (str_items v) f v"
  unfolding str_items_def deserialize_str_def
proof (rule reads_Cons [OF reads_length [OF assms(2)]])
  have "reads (take_n (length v)) (map (\<lambda>b. Put [b]) v) f v"
    by (simp add: reads_def wire_bytes_put take_n_def)
  from reads_bind [OF this, of "\<lambda>bs. if utf8_valid bs then sreturn bs else sfail InvalidUtf8" "[]" v]
  show "reads (sbind (take_n (unat (of_nat (length v) :: u32))) (\<lambda>bs. if utf8_valid bs then sreturn bs else sfail InvalidUtf8))
      (map (\<lambda>b. Put [b]) v) f v"
    using assms by (simp add: unat_length reads_return)
qed

lemma reads_option:
  assumes "\<And>x. v = Some x \<Longrightarrow> reads d (items x) f (r x)"
  shows "reads (deserialize_option d) (option_items items v) f (map_option r v)"
proof (cases v)
  case None
  then show ?thesis
    by (simp add: option_items_def deserialize_option_def reads_def take_byte_def sbind_def sreturn_def ptah_consts)
next
  case (Some x)
  have "reads (sbind d (\<lambda>v. sreturn (Some v))) (items x) f (Some (r x))" using assms [OF Some] by (rule reads_map) simp
  then show ?thesis
    unfolding Some option_items_def deserialize_option_def option.case option.map
    by (intro reads_Cons [OF reads_byte]) (simp add: ptah_consts)
qed

lemma reads_for:
  "length ns = length xs \<Longrightarrow> (\<And>x. x \<in> set xs \<Longrightarrow> reads d (items x) f (r x)) \<Longrightarrow>
    reads (sfor ns (\<lambda>_. d)) (concat (map items xs)) f (map r xs)"
proof (induction xs arbitrary: ns)
  case (Cons x xs)
  then obtain n ns' where ns: "ns = n # ns'" "length ns' = length xs" by (cases ns) auto
  have "reads (sbind (sfor ns' (\<lambda>_. d)) (\<lambda>ys. sreturn (r x # ys))) (concat (map items xs)) f (r x # map r xs)"
    by (rule reads_map [OF Cons.IH]) (use Cons ns in auto)
  then show ?case unfolding ns(1) by (simp add: reads_bind [OF Cons.prems(2) [of x]])
qed auto

lemma reads_array: "(\<And>x. x \<in> set xs \<Longrightarrow> reads d (items x) f (r x)) \<Longrightarrow> length xs = n \<Longrightarrow>
    reads (deserialize_array n d) (concat (map items xs)) f (map r xs)"
  unfolding deserialize_array_def by (rule reads_for) simp_all

lemma reads_vec:
  assumes "length xs < 2 ^ 32" and "\<And>x. x \<in> set xs \<Longrightarrow> reads d (items x) f (r x)"
  shows "reads (deserialize_vec d) (seq_items items xs) f (map r xs)"
  unfolding deserialize_vec_def deserialize_seq_length_def seq_items_def
  by (rule reads_Cons [OF reads_length [OF assms(1)]], rule reads_for) (simp_all add: assms(2) unat_length [OF assms(1)])

lemma reads_tuple:
  assumes "reads d0 (i0 (fst x)) f (r0 (fst x))" and "reads d1 (i1 (snd x)) f (r1 (snd x))"
  shows "reads (deserialize_tuple d0 d1) (pair_items i0 i1 x) f (map_prod r0 r1 x)"
  unfolding deserialize_tuple_def pair_items_def
  by (rule reads_bind [OF assms(1)], rule reads_map [OF assms(2)]) (simp add: map_prod_def split_beta)

lemma btree_insert_last: "\<forall>(k', v') \<in> set m. k' < k \<Longrightarrow> btree_insert k v m = m @ [(k, v)]"
  by (induction m) auto

lemma reads_entries:
  assumes "sorted_wrt (<) (map fst m0 @ map fst m)"
    and "\<And>k v. (k, v) \<in> set m \<Longrightarrow> reads dk (ik k) f k \<and> reads dv (iv v) f (r v)"
  shows "reads (deserialize_entries dk dv (length m) m0) (concat (map (pair_items ik iv) m)) f (m0 @ map (map_prod id r) m)"
  using assms
proof (induction m arbitrary: m0)
  case (Cons x m)
  obtain k v where x: "x = (k, v)" by fastforce
  have "btree_insert k (r v) m0 = m0 @ [(k, r v)]"
    using Cons.prems(1) by (intro btree_insert_last) (auto simp: x sorted_wrt_append)
  moreover have "reads (deserialize_entries dk dv (length m) (m0 @ [(k, r v)])) (concat (map (pair_items ik iv) m)) f
      ((m0 @ [(k, r v)]) @ map (map_prod id r) m)"
    using Cons.prems by (intro Cons.IH) (auto simp: x)
  ultimately have "reads (sbind dk (\<lambda>k. sbind dv (\<lambda>v. deserialize_entries dk dv (length m) (btree_insert k v m0))))
      (ik k @ iv v @ concat (map (pair_items ik iv) m)) f ((m0 @ [(k, r v)]) @ map (map_prod id r) m)"
    using Cons.prems(2) [of k v] by (intro reads_bind [of dk _ f k] reads_bind [of dv _ f "r v"]) (simp_all add: x)
  then show ?case by (simp add: x pair_items_def [of ik iv "(k, v)"] id_def)
qed auto

lemma reads_btree_map:
  assumes "length m < 2 ^ 32" and "sorted_wrt (<) (map fst m)"
    and "\<And>k v. (k, v) \<in> set m \<Longrightarrow> reads dk (ik k) f k \<and> reads dv (iv v) f (r v)"
  shows "reads (deserialize_btree_map dk dv) (seq_items (pair_items ik iv) m) f (map (map_prod id r) m)"
  unfolding deserialize_btree_map_def deserialize_map_length_def seq_items_def
  using reads_entries [where ?m0.0 = "[]" and m = m and dk = dk and ik = ik and dv = dv and iv = iv and f = f and r = r] assms(2,3)
  by (intro reads_Cons [OF reads_length [OF assms(1)]]) (simp add: unat_length [OF assms(1)])

subsection \<open>Writers\<close>

locale wire_writer =
  fixes W :: "'w writer" and written :: "'w \<Rightarrow> u8 list" and pushed :: "'w \<Rightarrow> handle list"
    and inv :: "'w \<Rightarrow> bool" and fits :: "'w \<Rightarrow> nat \<Rightarrow> nat \<Rightarrow> bool"
  assumes fits_mono: "fits w b n \<Longrightarrow> b' \<le> b \<Longrightarrow> n' \<le> n \<Longrightarrow> fits w b' n'"
    and fits_zero: "inv w \<Longrightarrow> fits w 0 0"
    and write_ok: "inv w \<Longrightarrow> fits w (length bs) 0 \<Longrightarrow> \<exists>w'. writer_write W bs w = Inr (Inr (), w') \<and> inv w' \<and>
      written w' = written w @ bs \<and> pushed w' = pushed w \<and> (\<forall>b h. fits w' b h \<longleftrightarrow> fits w (length bs + b) h)"
    and write_full: "inv w \<Longrightarrow> \<not> fits w (length bs) 0 \<Longrightarrow> \<exists>w'. writer_write W bs w = Inr (Inl WriterFullOfBytes, w')"
    and push_ok: "inv w \<Longrightarrow> fits w 0 1 \<Longrightarrow> length (pushed w) < 4 \<and> (\<exists>w'.
      writer_push_handle W h w = Inr (Inr (0xf0 + of_nat (length (pushed w))), w') \<and> inv w' \<and>
      written w' = written w \<and> pushed w' = pushed w @ [h] \<and> (\<forall>b n. fits w' b n \<longleftrightarrow> fits w b (Suc n)))"
    and push_full: "inv w \<Longrightarrow> \<not> fits w 0 1 \<Longrightarrow> writer_push_handle W h w \<noteq> Inr (Inr slot, w')"
    and bytes_written: "inv w \<Longrightarrow> writer_bytes_written W w = of_nat (length (written w))"
begin

lemma emit_fits:
  assumes "inv w" and "fits w (wire_length xs) (length (given xs))"
  shows "\<exists>w'. emit W xs w = Inr (Inr (), w') \<and> inv w' \<and> written w' = written w @ wire_bytes (length (pushed w)) xs \<and>
    pushed w' = pushed w @ given xs"
  using assms
proof (induction xs arbitrary: w rule: given.induct)
  case (2 bs xs)
  have "fits w (length bs) 0" by (rule fits_mono [OF 2(3)]) simp_all
  then obtain w' where w': "writer_write W bs w = Inr (Inr (), w')" "inv w'" "written w' = written w @ bs" "pushed w' = pushed w"
      "\<forall>b h. fits w' b h \<longleftrightarrow> fits w (length bs + b) h"
    using write_ok 2(2) by blast
  have "fits w' (wire_length xs) (length (given xs))" using 2(3) w'(5) by simp
  from 2(1) [OF w'(2) this] show ?case using w' by (auto simp: sbind_def)
next
  case (3 h xs)
  have "fits w 0 1" by (rule fits_mono [OF 3(3)]) simp_all
  then obtain w1 where w1: "writer_push_handle W h w = Inr (Inr (0xf0 + of_nat (length (pushed w))), w1)" "inv w1" "written w1 = written w"
      "pushed w1 = pushed w @ [h]" "\<forall>b n. fits w1 b n \<longleftrightarrow> fits w b (Suc n)"
    using push_ok [OF 3(2), of h] by blast
  let ?s = "0xf0 + of_nat (length (pushed w)) :: u8"
  have f1: "fits w1 (Suc (wire_length xs)) (length (given xs))" using 3(3) w1(5) by (simp add: length_wire_bytes [of "Suc 0" xs 0])
  have "fits w1 (length [?s]) 0" by (rule fits_mono [OF f1]) simp_all
  then obtain w2 where w2: "writer_write W [?s] w1 = Inr (Inr (), w2)" "inv w2" "written w2 = written w1 @ [?s]" "pushed w2 = pushed w1"
      "\<forall>b h. fits w2 b h \<longleftrightarrow> fits w1 (length [?s] + b) h"
    using write_ok [OF w1(2)] by blast
  have "fits w2 (wire_length xs) (length (given xs))" using f1 w2(5) by simp
  from 3(1) [OF w2(2) this] show ?case using w1 w2 by (auto simp: sbind_def)
qed (auto simp: sreturn_def)

lemma emit_full:
  assumes "inv w" and "\<not> fits w (wire_length xs) (length (given xs))"
  shows "emit W xs w \<noteq> Inr (Inr u, w')"
  using assms
proof (induction xs arbitrary: w rule: given.induct)
  case 1
  then show ?case using fits_zero by simp
next
  case (2 bs xs)
  show ?case
  proof (cases "fits w (length bs) 0")
    case True
    then obtain w' where w': "writer_write W bs w = Inr (Inr (), w')" "inv w'" "\<forall>b h. fits w' b h \<longleftrightarrow> fits w (length bs + b) h"
      using write_ok 2(2) by blast
    then show ?thesis using 2(1) [of w'] 2(3) by (simp add: sbind_def)
  next
    case False
    then show ?thesis using write_full [OF 2(2) False] by (auto simp: sbind_def)
  qed
next
  case (3 h xs)
  show ?case
  proof (cases "fits w 0 1")
    case True
    then obtain s w1 where w1: "writer_push_handle W h w = Inr (Inr s, w1)" "inv w1" "\<forall>b n. fits w1 b n \<longleftrightarrow> fits w b (Suc n)"
      using push_ok [OF 3(2), of h] by blast
    show ?thesis
    proof (cases "fits w1 (length [s]) 0")
      case True
      then obtain w2 where "writer_write W [s] w1 = Inr (Inr (), w2)" "inv w2" "\<forall>b h. fits w2 b h \<longleftrightarrow> fits w1 (length [s] + b) h"
        using write_ok [OF w1(2)] by blast
      then show ?thesis using w1 3(1) [of w2] 3(3) by (simp add: sbind_def length_wire_bytes [of "Suc 0" xs 0])
    next
      case False
      then show ?thesis using write_full [OF w1(2) False] w1(1) by (auto simp: sbind_def)
    qed
  next
    case False
    then show ?thesis using push_full [OF 3(2)]
      by (auto simp: sbind_def rust_simps split: sum.splits)
  qed
qed

text \<open>Serialization succeeds exactly when the value fits, and then has written the items of the value.\<close>

lemma to_wire_exact:
  assumes "s W v = emit W xs" and "inv w"
  shows "(\<exists>n w'. to_wire s W v w = Inr (Inr n, w')) \<longleftrightarrow> fits w (wire_length xs) (length (given xs))"
    and "to_wire s W v w = Inr (Inr n, w') \<Longrightarrow> inv w' \<and> written w' = written w @ wire_bytes (length (pushed w)) xs \<and>
      pushed w' = pushed w @ given xs \<and> n = of_nat (length (written w'))"
proof -
  have t: "to_wire s W v w = rbind (emit W xs w) (\<lambda>(r, w'). case r of Inl e \<Rightarrow> Inr (Inl e, w') | Inr u \<Rightarrow> Inr (Inr (writer_bytes_written W w'), w'))"
    by (simp add: to_wire_def assms(1) sbind_def sget_def)
  show "(\<exists>n w'. to_wire s W v w = Inr (Inr n, w')) \<longleftrightarrow> fits w (wire_length xs) (length (given xs))"
  proof
    assume "fits w (wire_length xs) (length (given xs))"
    then show "\<exists>n w'. to_wire s W v w = Inr (Inr n, w')" using emit_fits [OF assms(2)] t by fastforce
  next
    assume "\<exists>n w'. to_wire s W v w = Inr (Inr n, w')"
    then show "fits w (wire_length xs) (length (given xs))"
      using emit_full [OF assms(2), of xs] t by (auto simp: rust_simps case_sum_eq)
  qed
  assume r: "to_wire s W v w = Inr (Inr n, w')"
  then have e: "emit W xs w = Inr (Inr (), w')" "n = writer_bytes_written W w'" using t by (auto simp: rust_simps case_sum_eq)
  then have "fits w (wire_length xs) (length (given xs))" using emit_full [OF assms(2)] by blast
  then show "inv w' \<and> written w' = written w @ wire_bytes (length (pushed w)) xs \<and>
      pushed w' = pushed w @ given xs \<and> n = of_nat (length (written w'))"
    using emit_fits [OF assms(2)] e bytes_written by fastforce
qed

end

interpretation vec: wire_writer vec_writer "\<lambda>w. w" "\<lambda>w. []" "\<lambda>w. True" "\<lambda>w b h. h = 0"
  by unfold_locales (auto simp: vec_writer_def smodify_def)

interpretation cursor: wire_writer cursor_writer "\<lambda>w. take (cw_cursor w) (cw_buffer w)" "\<lambda>w. []"
  "\<lambda>w. cw_cursor w \<le> length (cw_buffer w)" "\<lambda>w b h. cw_cursor w + b \<le> length (cw_buffer w) \<and> h = 0"
  by unfold_locales (auto simp: cursor_writer_def cursor_write_def min_def dest: order_antisym)

text \<open>The size that is computed without writing.\<close>

lemma size_emit:
  assumes "unat n + wire_length xs < 2 ^ 64"
  shows "emit size_calculator xs n = Inr (Inr (), n + of_nat (wire_length xs))"
  using assms
proof (induction xs arbitrary: n rule: given.induct)
  case (2 bs xs)
  have "unat (of_nat (length bs) :: usize) = length bs" using 2(2) by (simp add: unsigned_of_nat take_bit_nat_eq_self)
  moreover from this have "unat (n + of_nat (length bs)) = unat n + length bs"
    using 2(2) by (subst unat_add_no_overflow) simp_all
  ultimately show ?case using 2 by (simp add: sbind_def size_calculator_def supdate_def uadd_def)
next
  case (3 h xs)
  have l: "length (wire_bytes (Suc 0) xs) = wire_length xs" by (rule length_wire_bytes)
  have "unat (n + 1) = unat n + 1" using 3(2) by (subst unat_add_no_overflow) simp_all
  then show ?case using 3 l by (simp add: sbind_def size_calculator_def supdate_def uadd_def sreturn_def)
qed (simp add: sreturn_def)

lemma serialized_size_eq:
  assumes "s size_calculator v = emit size_calculator xs" and "wire_length xs < 2 ^ 64"
  shows "serialized_size s v = Inr (Inr (of_nat (wire_length xs)))"
  using size_emit [of 0 xs] assms by (simp add: serialized_size_def)

end
