(* ===== verification/Bus_Messages.thy ===== *)
theory Bus_Messages
  imports Ptah_Codec "HOL-Library.List_Lexorder"
begin

text \<open>
  The types of messages of the user tasks: \<open>user/platform_bus/src/lib.rs\<close>, \<open>user/service_host/src/lib.rs\<close>
  and \<open>lib/poplar/src/manifest.rs\<close>, with the serialization that the macros of \<open>lib/ptah/ptah_derive\<close>
  generate for them: the fields of a structure in order, and for an enumeration the index of the variant
  followed by its fields.  For each type, \<open>items\<close> is what it is on the wire, \<open>ok\<close> says which values
  the format can carry, and \<open>renamed\<close> applies a function to the handles of a value.
\<close>

type_synonym rust_string = "u8 list"

definition string_ok :: "rust_string \<Rightarrow> bool" where
  "string_ok s \<longleftrightarrow> utf8_valid s \<and> length s < 2 ^ 32"

text \<open>Implementations for \<open>Handle\<close>, in \<open>lib/poplar/src/lib.rs\<close>.\<close>

definition serialize_Handle :: "('w, handle) serialize" where
  "serialize_Handle W h = serialize_handle W h"

definition deserialize_Handle :: "handle deserialize" where
  "deserialize_Handle = sbind deserialize_handle (\<lambda>h. sreturn h)"

subsection \<open>Properties of devices\<close>

datatype property = PropBool bool | PropInteger u64 | PropString rust_string | PropBytes "u8 list"

datatype handoff_property =
    HandBool bool | HandInteger u64 | HandString rust_string | HandBytes "u8 list"
  | HandMemoryObject handle | HandEvent handle | HandInterrupt handle | HandChannel handle

type_synonym device_info = "(rust_string \<times> property) list"
type_synonym handoff_info = "(rust_string \<times> handoff_property) list"

definition property_as_bool :: "property \<Rightarrow> bool option" where
  "property_as_bool p = (case p of PropBool v \<Rightarrow> Some v | _ \<Rightarrow> None)"

definition property_as_integer :: "property \<Rightarrow> u64 option" where
  "property_as_integer p = (case p of PropInteger v \<Rightarrow> Some v | _ \<Rightarrow> None)"

definition property_as_str :: "property \<Rightarrow> rust_string option" where
  "property_as_str p = (case p of PropString v \<Rightarrow> Some v | _ \<Rightarrow> None)"

definition property_as_bytes :: "property \<Rightarrow> u8 list option" where
  "property_as_bytes p = (case p of PropBytes v \<Rightarrow> Some v | _ \<Rightarrow> None)"

definition handoff_as_bool :: "handoff_property \<Rightarrow> bool option" where
  "handoff_as_bool p = (case p of HandBool v \<Rightarrow> Some v | _ \<Rightarrow> None)"

definition handoff_as_integer :: "handoff_property \<Rightarrow> u64 option" where
  "handoff_as_integer p = (case p of HandInteger v \<Rightarrow> Some v | _ \<Rightarrow> None)"

definition handoff_as_str :: "handoff_property \<Rightarrow> rust_string option" where
  "handoff_as_str p = (case p of HandString v \<Rightarrow> Some v | _ \<Rightarrow> None)"

definition handoff_as_bytes :: "handoff_property \<Rightarrow> u8 list option" where
  "handoff_as_bytes p = (case p of HandBytes v \<Rightarrow> Some v | _ \<Rightarrow> None)"

definition handoff_as_memory_object :: "handoff_property \<Rightarrow> handle option" where
  "handoff_as_memory_object p = (case p of HandMemoryObject v \<Rightarrow> Some v | _ \<Rightarrow> None)"

definition handoff_as_event :: "handoff_property \<Rightarrow> handle option" where
  "handoff_as_event p = (case p of HandEvent v \<Rightarrow> Some v | _ \<Rightarrow> None)"

definition handoff_as_interrupt :: "handoff_property \<Rightarrow> handle option" where
  "handoff_as_interrupt p = (case p of HandInterrupt v \<Rightarrow> Some v | _ \<Rightarrow> None)"

definition handoff_as_channel :: "handoff_property \<Rightarrow> handle option" where
  "handoff_as_channel p = (case p of HandChannel v \<Rightarrow> Some v | _ \<Rightarrow> None)"

definition device_get :: "device_info \<Rightarrow> rust_string \<Rightarrow> (property \<Rightarrow> 'a option) \<Rightarrow> 'a option" where
  "device_get info name as = Option.bind (map_of info name) as"

definition handoff_get :: "handoff_info \<Rightarrow> rust_string \<Rightarrow> (handoff_property \<Rightarrow> 'a option) \<Rightarrow> 'a option" where
  "handoff_get info name as = Option.bind (map_of info name) as"

definition serialize_property :: "('w, property) serialize" where
  "serialize_property W p =
     (case p of
        PropBool v \<Rightarrow> sbind (serialize_enum_variant W 0) (\<lambda>_. serialize_bool W v)
      | PropInteger v \<Rightarrow> sbind (serialize_enum_variant W 1) (\<lambda>_. serialize_u64 W v)
      | PropString v \<Rightarrow> sbind (serialize_enum_variant W 2) (\<lambda>_. serialize_str W v)
      | PropBytes v \<Rightarrow> sbind (serialize_enum_variant W 3) (\<lambda>_. serialize_vec serialize_u8 W v))"

definition deserialize_property :: "property deserialize" where
  "deserialize_property =
     sbind deserialize_enum_tag (\<lambda>tag.
       if tag = 0 then sbind deserialize_bool (\<lambda>v. sreturn (PropBool v))
       else if tag = 1 then sbind deserialize_u64 (\<lambda>v. sreturn (PropInteger v))
       else if tag = 2 then sbind deserialize_str (\<lambda>v. sreturn (PropString v))
       else if tag = 3 then sbind (deserialize_vec deserialize_u8) (\<lambda>v. sreturn (PropBytes v))
       else sfail (InvalidEnumTag tag))"

definition serialize_handoff_property :: "('w, handoff_property) serialize" where
  "serialize_handoff_property W p =
     (case p of
        HandBool v \<Rightarrow> sbind (serialize_enum_variant W 0) (\<lambda>_. serialize_bool W v)
      | HandInteger v \<Rightarrow> sbind (serialize_enum_variant W 1) (\<lambda>_. serialize_u64 W v)
      | HandString v \<Rightarrow> sbind (serialize_enum_variant W 2) (\<lambda>_. serialize_str W v)
      | HandBytes v \<Rightarrow> sbind (serialize_enum_variant W 3) (\<lambda>_. serialize_vec serialize_u8 W v)
      | HandMemoryObject v \<Rightarrow> sbind (serialize_enum_variant W 4) (\<lambda>_. serialize_Handle W v)
      | HandEvent v \<Rightarrow> sbind (serialize_enum_variant W 5) (\<lambda>_. serialize_Handle W v)
      | HandInterrupt v \<Rightarrow> sbind (serialize_enum_variant W 6) (\<lambda>_. serialize_Handle W v)
      | HandChannel v \<Rightarrow> sbind (serialize_enum_variant W 7) (\<lambda>_. serialize_Handle W v))"

definition deserialize_handoff_property :: "handoff_property deserialize" where
  "deserialize_handoff_property =
     sbind deserialize_enum_tag (\<lambda>tag.
       if tag = 0 then sbind deserialize_bool (\<lambda>v. sreturn (HandBool v))
       else if tag = 1 then sbind deserialize_u64 (\<lambda>v. sreturn (HandInteger v))
       else if tag = 2 then sbind deserialize_str (\<lambda>v. sreturn (HandString v))
       else if tag = 3 then sbind (deserialize_vec deserialize_u8) (\<lambda>v. sreturn (HandBytes v))
       else if tag = 4 then sbind deserialize_Handle (\<lambda>v. sreturn (HandMemoryObject v))
       else if tag = 5 then sbind deserialize_Handle (\<lambda>v. sreturn (HandEvent v))
       else if tag = 6 then sbind deserialize_Handle (\<lambda>v. sreturn (HandInterrupt v))
       else if tag = 7 then sbind deserialize_Handle (\<lambda>v. sreturn (HandChannel v))
       else sfail (InvalidEnumTag tag))"

definition serialize_device_info :: "('w, device_info) serialize" where
  "serialize_device_info W info = serialize_btree_map serialize_str serialize_property W info"

definition deserialize_device_info :: "device_info deserialize" where
  "deserialize_device_info = sbind (deserialize_btree_map deserialize_str deserialize_property) (\<lambda>m. sreturn m)"

definition serialize_handoff_info :: "('w, handoff_info) serialize" where
  "serialize_handoff_info W info = serialize_btree_map serialize_str serialize_handoff_property W info"

definition deserialize_handoff_info :: "handoff_info deserialize" where
  "deserialize_handoff_info = sbind (deserialize_btree_map deserialize_str deserialize_handoff_property) (\<lambda>m. sreturn m)"

subsection \<open>Filters\<close>

datatype device_filter = FilterMatches rust_string property | FilterAll "device_filter list"

fun match_against :: "device_filter \<Rightarrow> device_info \<Rightarrow> bool" where
  "match_against (FilterMatches name property) properties =
     (case map_of properties name of Some property_to_match \<Rightarrow> property = property_to_match | None \<Rightarrow> False)"
| "match_against (FilterAll filters) properties =
     foldl (\<lambda>matches_so_far filter. matches_so_far \<and> match_against filter properties) True filters"

fun serialize_filter :: "'w writer \<Rightarrow> device_filter \<Rightarrow> ('w, ser_error, unit) sys" where
  "serialize_filter W (FilterMatches name property) =
     sbind (serialize_enum_variant W 0) (\<lambda>_. sbind (serialize_str W name) (\<lambda>_. serialize_property W property))"
| "serialize_filter W (FilterAll filters) =
     sbind (serialize_enum_variant W 1) (\<lambda>_.
     sbind (serialize_seq W (of_nat (length filters))) (\<lambda>_.
     sbind (sfor filters (\<lambda>f. serialize_filter W f)) (\<lambda>_. sreturn ())))"

text \<open>A filter inside a filter starts after the tag of the outer one, so that the nesting is less than
  the number of bytes.  Where this bound on the nesting is used up no byte is left for the tag.\<close>

primrec deserialize_nested :: "nat \<Rightarrow> device_filter deserialize" where
  "deserialize_nested 0 = sfail EndOfStream"
| "deserialize_nested (Suc n) =
     sbind deserialize_enum_tag (\<lambda>tag.
       if tag = 0
       then sbind deserialize_str (\<lambda>name. sbind deserialize_property (\<lambda>property. sreturn (FilterMatches name property)))
       else if tag = 1 then sbind (deserialize_vec (deserialize_nested n)) (\<lambda>filters. sreturn (FilterAll filters))
       else sfail (InvalidEnumTag tag))"

definition deserialize_filter :: "device_filter deserialize" where
  "deserialize_filter = (\<lambda>d. deserialize_nested (length (de_bytes d)) d)"

subsection \<open>Messages of the platform bus\<close>

datatype bus_driver_message = RegisterDevice rust_string device_info handoff_info

datatype device_driver_message = RegisterInterest "device_filter list" | CanSupport rust_string bool

datatype device_driver_request =
    QuerySupport rust_string device_info
  | HandoffDevice rust_string device_info handoff_info

definition serialize_bus_driver_message :: "('w, bus_driver_message) serialize" where
  "serialize_bus_driver_message W m =
     (case m of RegisterDevice name info handoff \<Rightarrow>
        sbind (serialize_enum_variant W 0) (\<lambda>_.
        sbind (serialize_str W name) (\<lambda>_.
        sbind (serialize_device_info W info) (\<lambda>_. serialize_handoff_info W handoff))))"

definition deserialize_bus_driver_message :: "bus_driver_message deserialize" where
  "deserialize_bus_driver_message =
     sbind deserialize_enum_tag (\<lambda>tag.
       if tag = 0 then
         sbind deserialize_str (\<lambda>name.
         sbind deserialize_device_info (\<lambda>info.
         sbind deserialize_handoff_info (\<lambda>handoff. sreturn (RegisterDevice name info handoff))))
       else sfail (InvalidEnumTag tag))"

definition serialize_device_driver_message :: "('w, device_driver_message) serialize" where
  "serialize_device_driver_message W m =
     (case m of
        RegisterInterest filters \<Rightarrow> sbind (serialize_enum_variant W 0) (\<lambda>_. serialize_vec serialize_filter W filters)
      | CanSupport name b \<Rightarrow>
          sbind (serialize_enum_variant W 1) (\<lambda>_. sbind (serialize_str W name) (\<lambda>_. serialize_bool W b)))"

definition deserialize_device_driver_message :: "device_driver_message deserialize" where
  "deserialize_device_driver_message =
     sbind deserialize_enum_tag (\<lambda>tag.
       if tag = 0 then sbind (deserialize_vec deserialize_filter) (\<lambda>filters. sreturn (RegisterInterest filters))
       else if tag = 1 then sbind deserialize_str (\<lambda>name. sbind deserialize_bool (\<lambda>b. sreturn (CanSupport name b)))
       else sfail (InvalidEnumTag tag))"

definition serialize_device_driver_request :: "('w, device_driver_request) serialize" where
  "serialize_device_driver_request W m =
     (case m of
        QuerySupport name info \<Rightarrow>
          sbind (serialize_enum_variant W 0) (\<lambda>_. sbind (serialize_str W name) (\<lambda>_. serialize_device_info W info))
      | HandoffDevice name info handoff \<Rightarrow>
          sbind (serialize_enum_variant W 1) (\<lambda>_.
          sbind (serialize_str W name) (\<lambda>_.
          sbind (serialize_device_info W info) (\<lambda>_. serialize_handoff_info W handoff))))"

definition deserialize_device_driver_request :: "device_driver_request deserialize" where
  "deserialize_device_driver_request =
     sbind deserialize_enum_tag (\<lambda>tag.
       if tag = 0 then sbind deserialize_str (\<lambda>name. sbind deserialize_device_info (\<lambda>info. sreturn (QuerySupport name info)))
       else if tag = 1 then
         sbind deserialize_str (\<lambda>name.
         sbind deserialize_device_info (\<lambda>info.
         sbind deserialize_handoff_info (\<lambda>handoff. sreturn (HandoffDevice name info handoff))))
       else sfail (InvalidEnumTag tag))"

subsection \<open>Messages of the service host\<close>

datatype service_host_request = RegisterService rust_string | SubscribeService rust_string | RequestResource rust_string

datatype service_host_response =
    ServiceRegistered handle
  | SubscribedToService handle
  | NoSuchService
  | Resource handle
  | ResourceRefused

datatype service_channel_message = NewClient rust_string handle

definition serialize_service_host_request :: "('w, service_host_request) serialize" where
  "serialize_service_host_request W m =
     (case m of
        RegisterService name \<Rightarrow> sbind (serialize_enum_variant W 0) (\<lambda>_. serialize_str W name)
      | SubscribeService name \<Rightarrow> sbind (serialize_enum_variant W 1) (\<lambda>_. serialize_str W name)
      | RequestResource name \<Rightarrow> sbind (serialize_enum_variant W 2) (\<lambda>_. serialize_str W name))"

definition deserialize_service_host_request :: "service_host_request deserialize" where
  "deserialize_service_host_request =
     sbind deserialize_enum_tag (\<lambda>tag.
       if tag = 0 then sbind deserialize_str (\<lambda>name. sreturn (RegisterService name))
       else if tag = 1 then sbind deserialize_str (\<lambda>name. sreturn (SubscribeService name))
       else if tag = 2 then sbind deserialize_str (\<lambda>name. sreturn (RequestResource name))
       else sfail (InvalidEnumTag tag))"

definition serialize_service_host_response :: "('w, service_host_response) serialize" where
  "serialize_service_host_response W m =
     (case m of
        ServiceRegistered h \<Rightarrow> sbind (serialize_enum_variant W 0) (\<lambda>_. serialize_Handle W h)
      | SubscribedToService h \<Rightarrow> sbind (serialize_enum_variant W 1) (\<lambda>_. serialize_Handle W h)
      | NoSuchService \<Rightarrow> serialize_enum_variant W 2
      | Resource h \<Rightarrow> sbind (serialize_enum_variant W 3) (\<lambda>_. serialize_Handle W h)
      | ResourceRefused \<Rightarrow> serialize_enum_variant W 4)"

definition deserialize_service_host_response :: "service_host_response deserialize" where
  "deserialize_service_host_response =
     sbind deserialize_enum_tag (\<lambda>tag.
       if tag = 0 then sbind deserialize_Handle (\<lambda>h. sreturn (ServiceRegistered h))
       else if tag = 1 then sbind deserialize_Handle (\<lambda>h. sreturn (SubscribedToService h))
       else if tag = 2 then sreturn NoSuchService
       else if tag = 3 then sbind deserialize_Handle (\<lambda>h. sreturn (Resource h))
       else if tag = 4 then sreturn ResourceRefused
       else sfail (InvalidEnumTag tag))"

definition serialize_service_channel_message :: "('w, service_channel_message) serialize" where
  "serialize_service_channel_message W m =
     (case m of NewClient name h \<Rightarrow>
        sbind (serialize_enum_variant W 0) (\<lambda>_. sbind (serialize_str W name) (\<lambda>_. serialize_Handle W h)))"

definition deserialize_service_channel_message :: "service_channel_message deserialize" where
  "deserialize_service_channel_message =
     sbind deserialize_enum_tag (\<lambda>tag.
       if tag = 0 then sbind deserialize_str (\<lambda>name. sbind deserialize_Handle (\<lambda>h. sreturn (NewClient name h)))
       else sfail (InvalidEnumTag tag))"

subsection \<open>The manifest of the first task\<close>

record boot_task =
  bt_name :: rust_string
  bt_entry_point :: usize
  bt_segments :: "(usize \<times> u32) list"

record bootstrap_manifest =
  task_name :: rust_string
  boot_tasks :: "boot_task list"

definition serialize_boot_task :: "('w, boot_task) serialize" where
  "serialize_boot_task W t =
     sbind (serialize_str W (bt_name t)) (\<lambda>_.
     sbind (serialize_usize W (bt_entry_point t)) (\<lambda>_.
       serialize_vec (serialize_tuple serialize_usize serialize_u32) W (bt_segments t)))"

definition deserialize_boot_task :: "boot_task deserialize" where
  "deserialize_boot_task =
     sbind deserialize_str (\<lambda>name.
     sbind deserialize_usize (\<lambda>entry.
     sbind (deserialize_vec (deserialize_tuple deserialize_usize deserialize_u32)) (\<lambda>segments.
       sreturn \<lparr>bt_name = name, bt_entry_point = entry, bt_segments = segments\<rparr>)))"

definition serialize_bootstrap_manifest :: "('w, bootstrap_manifest) serialize" where
  "serialize_bootstrap_manifest W m =
     sbind (serialize_str W (task_name m)) (\<lambda>_. serialize_vec serialize_boot_task W (boot_tasks m))"

definition deserialize_bootstrap_manifest :: "bootstrap_manifest deserialize" where
  "deserialize_bootstrap_manifest =
     sbind deserialize_str (\<lambda>name.
     sbind (deserialize_vec deserialize_boot_task) (\<lambda>tasks. sreturn \<lparr>task_name = name, boot_tasks = tasks\<rparr>))"

end
