(* ===== verification/Bus_Codec.thy ===== *)
theory Bus_Codec
  imports Bus_Messages
begin

text \<open>
  Every type of message is on the wire what \<open>items\<close> says, whatever the writer, and is read back from it.
\<close>

lemma emits_Handle [emits]: "serialize_Handle W h = emit W [Give h]"
  by (simp only: serialize_Handle_def emits)

lemma reads_Handle [reads_intro]: "reads deserialize_Handle [Give h] f (f h)"
  by (simp add: deserialize_Handle_def reads_intro)

lemma reads_string: "string_ok v \<Longrightarrow> reads deserialize_str (str_items v) f v"
  by (rule reads_str) (simp_all add: string_ok_def)

subsection \<open>Properties\<close>

abbreviation byte_items :: "u8 \<Rightarrow> item list" where
  "byte_items b \<equiv> [Put [b]]"

primrec property_items :: "property \<Rightarrow> item list" where
  "property_items (PropBool v) = [tag_item 0, bool_item v]"
| "property_items (PropInteger v) = [tag_item 1, Put (le_bytes 8 v)]"
| "property_items (PropString v) = tag_item 2 # str_items v"
| "property_items (PropBytes v) = tag_item 3 # seq_items byte_items v"

primrec property_ok :: "property \<Rightarrow> bool" where
  "property_ok (PropBool v) \<longleftrightarrow> True"
| "property_ok (PropInteger v) \<longleftrightarrow> True"
| "property_ok (PropString v) \<longleftrightarrow> string_ok v"
| "property_ok (PropBytes v) \<longleftrightarrow> length v < 2 ^ 32"

primrec handoff_items :: "handoff_property \<Rightarrow> item list" where
  "handoff_items (HandBool v) = [tag_item 0, bool_item v]"
| "handoff_items (HandInteger v) = [tag_item 1, Put (le_bytes 8 v)]"
| "handoff_items (HandString v) = tag_item 2 # str_items v"
| "handoff_items (HandBytes v) = tag_item 3 # seq_items byte_items v"
| "handoff_items (HandMemoryObject h) = [tag_item 4, Give h]"
| "handoff_items (HandEvent h) = [tag_item 5, Give h]"
| "handoff_items (HandInterrupt h) = [tag_item 6, Give h]"
| "handoff_items (HandChannel h) = [tag_item 7, Give h]"

primrec handoff_ok :: "handoff_property \<Rightarrow> bool" where
  "handoff_ok (HandBool v) \<longleftrightarrow> True"
| "handoff_ok (HandInteger v) \<longleftrightarrow> True"
| "handoff_ok (HandString v) \<longleftrightarrow> string_ok v"
| "handoff_ok (HandBytes v) \<longleftrightarrow> length v < 2 ^ 32"
| "handoff_ok (HandMemoryObject h) \<longleftrightarrow> True"
| "handoff_ok (HandEvent h) \<longleftrightarrow> True"
| "handoff_ok (HandInterrupt h) \<longleftrightarrow> True"
| "handoff_ok (HandChannel h) \<longleftrightarrow> True"

primrec handoff_renamed :: "(handle \<Rightarrow> handle) \<Rightarrow> handoff_property \<Rightarrow> handoff_property" where
  "handoff_renamed f (HandBool v) = HandBool v"
| "handoff_renamed f (HandInteger v) = HandInteger v"
| "handoff_renamed f (HandString v) = HandString v"
| "handoff_renamed f (HandBytes v) = HandBytes v"
| "handoff_renamed f (HandMemoryObject h) = HandMemoryObject (f h)"
| "handoff_renamed f (HandEvent h) = HandEvent (f h)"
| "handoff_renamed f (HandInterrupt h) = HandInterrupt (f h)"
| "handoff_renamed f (HandChannel h) = HandChannel (f h)"

lemma emits_bytes [emits]: "serialize_vec serialize_u8 W v = emit W (seq_items byte_items v)"
  by (rule emits_vec) (simp only: emits)

lemma reads_bytes: "length v < 2 ^ 32 \<Longrightarrow> reads (deserialize_vec deserialize_u8) (seq_items byte_items v) f v"
  using reads_vec [of v deserialize_u8 byte_items f "\<lambda>b. b"] by (simp add: reads_intro)

lemma emits_property [emits]: "serialize_property W p = emit W (property_items p)"
  by (cases p) (simp_all add: serialize_property_def emits emit_append sbind_assoc)

lemma emits_handoff_property [emits]: "serialize_handoff_property W p = emit W (handoff_items p)"
  by (cases p) (simp_all add: serialize_handoff_property_def emits emit_append sbind_assoc)

lemma reads_property:
  assumes "property_ok p"
  shows "reads deserialize_property (property_items p) f p"
  unfolding deserialize_property_def using assms
  by (cases p) (auto intro!: reads_Cons [OF reads_tag] reads_map [OF reads_primitive(1)] reads_map [OF reads_primitive(5)]
      reads_map [OF reads_string] reads_map [OF reads_bytes])

lemma reads_handoff_property:
  assumes "handoff_ok p"
  shows "reads deserialize_handoff_property (handoff_items p) f (handoff_renamed f p)"
  unfolding deserialize_handoff_property_def using assms
  by (cases p) (auto intro!: reads_Cons [OF reads_tag] reads_map [OF reads_primitive(1)] reads_map [OF reads_primitive(5)]
      reads_map [OF reads_string] reads_map [OF reads_bytes] reads_map [OF reads_Handle])

definition map_ok :: "('v \<Rightarrow> bool) \<Rightarrow> (rust_string \<times> 'v) list \<Rightarrow> bool" where
  "map_ok P m \<longleftrightarrow> length m < 2 ^ 32 \<and> sorted_wrt (<) (map fst m) \<and> (\<forall>(k, v) \<in> set m. string_ok k \<and> P v)"

abbreviation info_items :: "device_info \<Rightarrow> item list" where
  "info_items \<equiv> seq_items (pair_items str_items property_items)"

abbreviation handoff_info_items :: "handoff_info \<Rightarrow> item list" where
  "handoff_info_items \<equiv> seq_items (pair_items str_items handoff_items)"

abbreviation handoff_info_renamed :: "(handle \<Rightarrow> handle) \<Rightarrow> handoff_info \<Rightarrow> handoff_info" where
  "handoff_info_renamed f \<equiv> map (map_prod id (handoff_renamed f))"

lemma emits_info [emits]:
  "serialize_device_info W info = emit W (info_items info)"
  "serialize_handoff_info W handoff = emit W (handoff_info_items handoff)"
  unfolding serialize_device_info_def serialize_handoff_info_def by (rule emits_btree_map; simp only: emits)+

lemma reads_map_ok:
  assumes "map_ok P m" and "\<And>v. P v \<Longrightarrow> reads dv (iv v) f (r v)"
  shows "reads (deserialize_btree_map deserialize_str dv) (seq_items (pair_items str_items iv) m) f (map (map_prod id r) m)"
  by (rule reads_btree_map) (use assms in \<open>auto simp: map_ok_def reads_string\<close>)

lemma reads_device_info: "map_ok property_ok info \<Longrightarrow> reads deserialize_device_info (info_items info) f info"
  using reads_map_ok [of property_ok info deserialize_property property_items f id]
  by (simp add: deserialize_device_info_def reads_property map_prod.id)

lemma reads_handoff_info: "map_ok handoff_ok info \<Longrightarrow> reads deserialize_handoff_info (handoff_info_items info) f (handoff_info_renamed f info)"
  using reads_map_ok [of handoff_ok info deserialize_handoff_property handoff_items f "handoff_renamed f"]
  by (simp add: deserialize_handoff_info_def reads_handoff_property)

subsection \<open>Filters\<close>

text \<open>A deserializer that never gives back bytes.\<close>

definition consumes :: "'t deserialize \<Rightarrow> bool" where
  "consumes d \<longleftrightarrow> (\<forall>x r y. d x = Inr (r, y) \<longrightarrow> length (de_bytes y) \<le> length (de_bytes x))"

named_theorems consumes_intro \<open>deserializers that never give back bytes\<close>

lemma consumes_basic [consumes_intro]: "consumes (sreturn v)" "consumes (sfail e)" "consumes (slift r)" "consumes take_byte" "consumes (take_n n)"
  by (auto simp: consumes_def sreturn_def sfail_def slift_def take_byte_def take_n_def rust_simps split: list.splits if_splits)

lemma consumes_bind [consumes_intro]:
  assumes "consumes d" and "\<And>v. consumes (g v)"
  shows "consumes (sbind d g)"
  unfolding consumes_def
proof (intro allI impI)
  fix x r y assume "sbind d g x = Inr (r, y)"
  then obtain r1 x1 where d: "d x = Inr (r1, x1)" and g: "(case r1 of Inl e \<Rightarrow> Inr (Inl e, x1) | Inr v \<Rightarrow> g v x1) = Inr (r, y)"
    by (auto simp: sbind_def rust_simps)
  have "length (de_bytes x1) \<le> length (de_bytes x)" using assms(1) d unfolding consumes_def by blast
  moreover have "length (de_bytes y) \<le> length (de_bytes x1)"
    using g assms(2) by (cases r1) (auto simp: consumes_def)
  ultimately show "length (de_bytes y) \<le> length (de_bytes x)" by simp
qed

lemma consumes_if [consumes_intro]: "consumes d \<Longrightarrow> consumes d' \<Longrightarrow> consumes (if b then d else d')"
  by simp

lemma consumes_for [consumes_intro]: "(\<And>x. consumes (f x)) \<Longrightarrow> consumes (sfor xs f)"
  by (induction xs) (simp_all add: consumes_intro)

lemma consumes_types [consumes_intro]:
  "consumes deserialize_u32" "consumes deserialize_u64" "consumes deserialize_u8" "consumes deserialize_bool"
  "consumes deserialize_str" "consumes deserialize_enum_tag" "consumes d \<Longrightarrow> consumes (deserialize_vec d)"
  by (simp_all add: consumes_intro deserialize_u32_def deserialize_u64_def deserialize_u8_def deserialize_bool_def
      deserialize_str_def deserialize_enum_tag_def deserialize_vec_def deserialize_seq_length_def)

lemma consumes_property [consumes_intro]: "consumes deserialize_property"
  by (simp add: consumes_intro deserialize_property_def)

lemma consumes_nested [consumes_intro]: "consumes (deserialize_nested n)"
  by (induction n) (simp_all add: consumes_intro)

text \<open>Deserializers that agree on all inputs of a bounded length agree in a loop.\<close>

lemma sfor_agree:
  assumes "\<And>x. length (de_bytes x) \<le> n \<Longrightarrow> d x = d' x" and "consumes d" and "length (de_bytes x) \<le> n"
  shows "sfor xs (\<lambda>_. d) x = sfor xs (\<lambda>_. d') x"
  using assms(3)
proof (induction xs arbitrary: x)
  case (Cons a xs)
  have "sfor xs (\<lambda>_. d) y = sfor xs (\<lambda>_. d') y" if "d x = Inr (Inr v, y)" for v y
  proof -
    have "length (de_bytes y) \<le> length (de_bytes x)" using assms(2) that unfolding consumes_def by blast
    then show ?thesis using Cons by simp
  qed
  then show ?case using assms(1) [OF Cons.prems] by (auto simp: sbind_def rbind_def split: sum.splits)
qed simp

lemma vec_agree:
  assumes "\<And>x. length (de_bytes x) \<le> n \<Longrightarrow> d x = d' x" and "consumes d" and "length (de_bytes y) \<le> n"
  shows "deserialize_vec d y = deserialize_vec d' y"
proof -
  have "length (de_bytes z) \<le> n" if "deserialize_u32 y = Inr (Inr v, z)" for v z
    using consumes_types(1) that assms(3) unfolding consumes_def by (meson order_trans)
  then have "sfor xs (\<lambda>_. d) z = sfor xs (\<lambda>_. d') z" if "deserialize_u32 y = Inr (Inr v, z)" for v z xs
    using sfor_agree [OF assms(1,2)] that by blast
  then show ?thesis
    by (auto simp: deserialize_vec_def deserialize_seq_length_def sbind_def rbind_def split: sum.splits)
qed

lemma nested_enough:
  "length (de_bytes x) \<le> n \<Longrightarrow> length (de_bytes x) \<le> m \<Longrightarrow> deserialize_nested n x = deserialize_nested m x"
proof (induction n arbitrary: m x)
  case 0
  then show ?case
    by (cases m) (simp_all add: deserialize_enum_tag_def deserialize_u32_def take_n_def sbind_def sfail_def)
next
  case (Suc n)
  show ?case
  proof (cases m)
    case 0
    then show ?thesis
      using Suc.prems by (simp add: deserialize_enum_tag_def deserialize_u32_def take_n_def sbind_def sfail_def)
  next
    case m: (Suc m')
    show ?thesis
    proof (cases "length (de_bytes x) < 4")
      case True
      then show ?thesis using m by (simp add: deserialize_enum_tag_def deserialize_u32_def take_n_def sbind_def)
    next
      case False
      define y where "y = x\<lparr>de_bytes := drop 4 (de_bytes x)\<rparr>"
      have tag: "deserialize_enum_tag x = Inr (Inr (le_value (take 4 (de_bytes x))), y)"
        using False by (simp add: deserialize_enum_tag_def deserialize_u32_def take_n_def sbind_def sreturn_def y_def)
      have y: "length (de_bytes y) \<le> min n m'" using Suc.prems m False by (simp add: y_def) linarith
      have eq: "deserialize_nested n z = deserialize_nested m' z" if "length (de_bytes z) \<le> min n m'" for z
        using Suc.IH [of z m'] that by simp
      have "deserialize_vec (deserialize_nested n) y = deserialize_vec (deserialize_nested m') y"
        by (rule vec_agree [OF eq consumes_nested y])
      then show ?thesis by (simp add: m sbind_def [of deserialize_enum_tag] tag) (simp add: sbind_def)
    qed
  qed
qed

text \<open>The equation that the generated code has.\<close>

lemma deserialize_filter_unfold:
  "deserialize_filter =
     sbind deserialize_enum_tag (\<lambda>tag.
       if tag = 0
       then sbind deserialize_str (\<lambda>name. sbind deserialize_property (\<lambda>property. sreturn (FilterMatches name property)))
       else if tag = 1 then sbind (deserialize_vec deserialize_filter) (\<lambda>filters. sreturn (FilterAll filters))
       else sfail (InvalidEnumTag tag))"
proof
  fix x :: deserializer
  let ?n = "length (de_bytes x)"
  have "deserialize_filter x = deserialize_nested (Suc ?n) x"
    unfolding deserialize_filter_def by (rule nested_enough) simp_all
  moreover have "deserialize_vec (deserialize_nested ?n) y = deserialize_vec deserialize_filter y"
    if "deserialize_enum_tag x = Inr (Inr tag, y)" for tag y
  proof (rule vec_agree [OF _ consumes_nested])
    show "deserialize_nested ?n z = deserialize_filter z" if "length (de_bytes z) \<le> ?n" for z
      unfolding deserialize_filter_def using that by (intro nested_enough) simp_all
    show "length (de_bytes y) \<le> ?n" using consumes_types(6) that unfolding consumes_def by blast
  qed
  ultimately show "deserialize_filter x = sbind deserialize_enum_tag (\<lambda>tag.
      if tag = 0
      then sbind deserialize_str (\<lambda>name. sbind deserialize_property (\<lambda>property. sreturn (FilterMatches name property)))
      else if tag = 1 then sbind (deserialize_vec deserialize_filter) (\<lambda>filters. sreturn (FilterAll filters))
      else sfail (InvalidEnumTag tag)) x"
    by (auto simp: sbind_def rbind_def split: sum.splits)
qed

fun filter_items :: "device_filter \<Rightarrow> item list" where
  "filter_items (FilterMatches name property) = tag_item 0 # str_items name @ property_items property"
| "filter_items (FilterAll filters) = tag_item 1 # length_item filters # concat (map filter_items filters)"

fun filter_ok :: "device_filter \<Rightarrow> bool" where
  "filter_ok (FilterMatches name property) \<longleftrightarrow> string_ok name \<and> property_ok property"
| "filter_ok (FilterAll filters) \<longleftrightarrow> length filters < 2 ^ 32 \<and> (\<forall>f \<in> set filters. filter_ok f)"

lemma emits_filter [emits]: "serialize_filter W f = emit W (filter_items f)"
proof (induction f rule: filter_items.induct)
  case (2 filters)
  then have "sbind (sfor filters (serialize_filter W)) (\<lambda>_. sreturn ()) = emit W (concat (map filter_items filters))"
    by (intro emits_for) simp
  then show ?case by (simp add: emits emits_seq_length sbind_assoc del: sbind_unit)
qed (simp add: emits emit_append sbind_assoc)

lemma reads_filter: "filter_ok f \<Longrightarrow> reads deserialize_filter (filter_items f) g f"
proof (induction f rule: filter_items.induct)
  case (1 name property)
  then show ?case
    by (subst deserialize_filter_unfold)
      (auto intro!: reads_Cons [OF reads_tag] reads_bind [OF reads_string] reads_map [OF reads_property])
next
  case (2 filters)
  then have "reads (deserialize_vec deserialize_filter) (seq_items filter_items filters) g (map (\<lambda>f. f) filters)"
    by (intro reads_vec) auto
  from reads_map [OF this, of FilterAll] show ?case
    by (subst deserialize_filter_unfold) (auto simp: seq_items_def intro!: reads_Cons [OF reads_tag])
qed

text \<open>A filter that combines others matches what all of them match.\<close>

lemma match_against_all: "match_against (FilterAll fs) info \<longleftrightarrow> (\<forall>f \<in> set fs. match_against f info)"
proof -
  have "foldl (\<lambda>b f. b \<and> match_against f info) b fs \<longleftrightarrow> b \<and> (\<forall>f \<in> set fs. match_against f info)" for b
    by (induction fs arbitrary: b) auto
  then show ?thesis by simp
qed

subsection \<open>Messages\<close>

primrec bus_driver_items :: "bus_driver_message \<Rightarrow> item list" where
  "bus_driver_items (RegisterDevice name info handoff) =
     tag_item 0 # str_items name @ info_items info @ handoff_info_items handoff"

primrec bus_driver_ok :: "bus_driver_message \<Rightarrow> bool" where
  "bus_driver_ok (RegisterDevice name info handoff) \<longleftrightarrow> string_ok name \<and> map_ok property_ok info \<and> map_ok handoff_ok handoff"

primrec bus_driver_renamed :: "(handle \<Rightarrow> handle) \<Rightarrow> bus_driver_message \<Rightarrow> bus_driver_message" where
  "bus_driver_renamed f (RegisterDevice name info handoff) = RegisterDevice name info (handoff_info_renamed f handoff)"

lemma emits_bus_driver: "serialize_bus_driver_message W m = emit W (bus_driver_items m)"
  by (cases m) (simp add: serialize_bus_driver_message_def emits emit_append sbind_assoc)

lemma reads_bus_driver:
  "bus_driver_ok m \<Longrightarrow> reads deserialize_bus_driver_message (bus_driver_items m) f (bus_driver_renamed f m)"
  by (cases m) (auto simp: deserialize_bus_driver_message_def intro!: reads_Cons [OF reads_tag] reads_bind [OF reads_string]
      reads_bind [OF reads_device_info] reads_map [OF reads_handoff_info])

primrec device_driver_items :: "device_driver_message \<Rightarrow> item list" where
  "device_driver_items (RegisterInterest filters) = tag_item 0 # seq_items filter_items filters"
| "device_driver_items (CanSupport name b) = tag_item 1 # str_items name @ [bool_item b]"

primrec device_driver_ok :: "device_driver_message \<Rightarrow> bool" where
  "device_driver_ok (RegisterInterest filters) \<longleftrightarrow> filter_ok (FilterAll filters)"
| "device_driver_ok (CanSupport name b) \<longleftrightarrow> string_ok name"

lemma emits_device_driver: "serialize_device_driver_message W m = emit W (device_driver_items m)"
  by (cases m) (simp_all add: serialize_device_driver_message_def emits emits_vec [where f = filter_items] emit_append sbind_assoc)

lemma reads_device_driver:
  assumes "device_driver_ok m"
  shows "reads deserialize_device_driver_message (device_driver_items m) f m"
proof (cases m)
  case (RegisterInterest filters)
  then have "reads (deserialize_vec deserialize_filter) (seq_items filter_items filters) f (map (\<lambda>f. f) filters)"
    using assms by (intro reads_vec reads_filter) auto
  from reads_map [OF this, of RegisterInterest] show ?thesis
    by (auto simp: RegisterInterest deserialize_device_driver_message_def intro!: reads_Cons [OF reads_tag])
next
  case (CanSupport name b)
  then show ?thesis
    using assms by (auto simp: deserialize_device_driver_message_def
        intro!: reads_Cons [OF reads_tag] reads_bind [OF reads_string] reads_map [OF reads_primitive(1)])
qed

primrec request_items :: "device_driver_request \<Rightarrow> item list" where
  "request_items (QuerySupport name info) = tag_item 0 # str_items name @ info_items info"
| "request_items (HandoffDevice name info handoff) =
     tag_item 1 # str_items name @ info_items info @ handoff_info_items handoff"

primrec request_ok :: "device_driver_request \<Rightarrow> bool" where
  "request_ok (QuerySupport name info) \<longleftrightarrow> string_ok name \<and> map_ok property_ok info"
| "request_ok (HandoffDevice name info handoff) \<longleftrightarrow> string_ok name \<and> map_ok property_ok info \<and> map_ok handoff_ok handoff"

primrec request_renamed :: "(handle \<Rightarrow> handle) \<Rightarrow> device_driver_request \<Rightarrow> device_driver_request" where
  "request_renamed f (QuerySupport name info) = QuerySupport name info"
| "request_renamed f (HandoffDevice name info handoff) = HandoffDevice name info (handoff_info_renamed f handoff)"

lemma emits_request: "serialize_device_driver_request W m = emit W (request_items m)"
  by (cases m) (simp_all add: serialize_device_driver_request_def emits emit_append sbind_assoc)

lemma reads_request: "request_ok m \<Longrightarrow> reads deserialize_device_driver_request (request_items m) f (request_renamed f m)"
  by (cases m) (auto simp: deserialize_device_driver_request_def intro!: reads_Cons [OF reads_tag] reads_bind [OF reads_string]
      reads_map [OF reads_device_info] reads_bind [OF reads_device_info] reads_map [OF reads_handoff_info])

primrec service_request_items :: "service_host_request \<Rightarrow> item list" where
  "service_request_items (RegisterService name) = tag_item 0 # str_items name"
| "service_request_items (SubscribeService name) = tag_item 1 # str_items name"
| "service_request_items (RequestResource name) = tag_item 2 # str_items name"

primrec service_request_ok :: "service_host_request \<Rightarrow> bool" where
  "service_request_ok (RegisterService name) \<longleftrightarrow> string_ok name"
| "service_request_ok (SubscribeService name) \<longleftrightarrow> string_ok name"
| "service_request_ok (RequestResource name) \<longleftrightarrow> string_ok name"

lemma emits_service_request: "serialize_service_host_request W m = emit W (service_request_items m)"
  by (cases m) (simp_all add: serialize_service_host_request_def emits)

lemma reads_service_request:
  "service_request_ok m \<Longrightarrow> reads deserialize_service_host_request (service_request_items m) f m"
  by (cases m) (auto simp: deserialize_service_host_request_def intro!: reads_Cons [OF reads_tag] reads_map [OF reads_string])

primrec service_response_items :: "service_host_response \<Rightarrow> item list" where
  "service_response_items (ServiceRegistered h) = [tag_item 0, Give h]"
| "service_response_items (SubscribedToService h) = [tag_item 1, Give h]"
| "service_response_items NoSuchService = [tag_item 2]"
| "service_response_items (Resource h) = [tag_item 3, Give h]"
| "service_response_items ResourceRefused = [tag_item 4]"

primrec service_response_renamed :: "(handle \<Rightarrow> handle) \<Rightarrow> service_host_response \<Rightarrow> service_host_response" where
  "service_response_renamed f (ServiceRegistered h) = ServiceRegistered (f h)"
| "service_response_renamed f (SubscribedToService h) = SubscribedToService (f h)"
| "service_response_renamed f NoSuchService = NoSuchService"
| "service_response_renamed f (Resource h) = Resource (f h)"
| "service_response_renamed f ResourceRefused = ResourceRefused"

lemma emits_service_response: "serialize_service_host_response W m = emit W (service_response_items m)"
  by (cases m) (simp_all add: serialize_service_host_response_def emits)

lemma reads_service_response:
  "reads deserialize_service_host_response (service_response_items m) f (service_response_renamed f m)"
  by (cases m) (auto simp: deserialize_service_host_response_def intro!: reads_Cons [OF reads_tag] reads_map [OF reads_Handle])

primrec service_message_items :: "service_channel_message \<Rightarrow> item list" where
  "service_message_items (NewClient name h) = tag_item 0 # str_items name @ [Give h]"

primrec service_message_ok :: "service_channel_message \<Rightarrow> bool" where
  "service_message_ok (NewClient name h) \<longleftrightarrow> string_ok name"

primrec service_message_renamed :: "(handle \<Rightarrow> handle) \<Rightarrow> service_channel_message \<Rightarrow> service_channel_message" where
  "service_message_renamed f (NewClient name h) = NewClient name (f h)"

lemma emits_service_message: "serialize_service_channel_message W m = emit W (service_message_items m)"
  by (cases m) (simp add: serialize_service_channel_message_def emits emit_append sbind_assoc)

lemma reads_service_message:
  "service_message_ok m \<Longrightarrow> reads deserialize_service_channel_message (service_message_items m) f (service_message_renamed f m)"
  by (cases m) (auto simp: deserialize_service_channel_message_def
      intro!: reads_Cons [OF reads_tag] reads_bind [OF reads_string] reads_map [OF reads_Handle])

definition segment_items :: "usize \<times> u32 \<Rightarrow> item list" where
  "segment_items = pair_items (\<lambda>a. [Put (le_bytes 8 a)]) (\<lambda>h. [Put (le_bytes 4 h)])"

definition boot_task_items :: "boot_task \<Rightarrow> item list" where
  "boot_task_items t =
     str_items (bt_name t) @ [Put (le_bytes 8 (bt_entry_point t))] @ seq_items segment_items (bt_segments t)"

definition boot_task_ok :: "boot_task \<Rightarrow> bool" where
  "boot_task_ok t \<longleftrightarrow> string_ok (bt_name t) \<and> length (bt_segments t) < 2 ^ 32"

definition manifest_items :: "bootstrap_manifest \<Rightarrow> item list" where
  "manifest_items m = str_items (task_name m) @ seq_items boot_task_items (boot_tasks m)"

definition manifest_ok :: "bootstrap_manifest \<Rightarrow> bool" where
  "manifest_ok m \<longleftrightarrow> string_ok (task_name m) \<and> length (boot_tasks m) < 2 ^ 32 \<and> (\<forall>t \<in> set (boot_tasks m). boot_task_ok t)"

lemma emits_boot_task [emits]: "serialize_boot_task W t = emit W (boot_task_items t)"
proof -
  have "serialize_vec (serialize_tuple serialize_usize serialize_u32) W (bt_segments t) = emit W (seq_items segment_items (bt_segments t))"
    unfolding segment_items_def by (intro emits_vec emits_tuple) (simp_all only: emits)
  then show ?thesis by (simp add: serialize_boot_task_def boot_task_items_def emits emit_append sbind_assoc)
qed

lemma reads_boot_task:
  assumes "boot_task_ok t"
  shows "reads deserialize_boot_task (boot_task_items t) f t"
proof -
  have "reads (deserialize_tuple deserialize_usize deserialize_u32) (segment_items x) f x" for x
    using reads_tuple [of deserialize_usize "\<lambda>a. [Put (le_bytes 8 a)]" x f "\<lambda>a. a" deserialize_u32 "\<lambda>h. [Put (le_bytes 4 h)]" "\<lambda>h. h"]
    by (simp add: segment_items_def reads_intro map_prod_def)
  then have "reads (deserialize_vec (deserialize_tuple deserialize_usize deserialize_u32)) (seq_items segment_items (bt_segments t)) f
      (map (\<lambda>x. x) (bt_segments t))"
    using assms by (intro reads_vec) (simp_all add: boot_task_ok_def)
  from reads_map [OF this, of "\<lambda>s. \<lparr>bt_name = bt_name t, bt_entry_point = bt_entry_point t, bt_segments = s\<rparr>" t] show ?thesis
    unfolding deserialize_boot_task_def boot_task_items_def
    using assms by (auto simp: boot_task_ok_def intro!: reads_bind [OF reads_string] reads_Cons [OF reads_primitive(14)])
qed

lemma emits_manifest: "serialize_bootstrap_manifest W m = emit W (manifest_items m)"
  by (simp add: serialize_bootstrap_manifest_def manifest_items_def emits emits_vec [where f = boot_task_items] emit_append)

lemma reads_manifest:
  assumes "manifest_ok m"
  shows "reads deserialize_bootstrap_manifest (manifest_items m) f m"
proof -
  have "reads (deserialize_vec deserialize_boot_task) (seq_items boot_task_items (boot_tasks m)) f (map (\<lambda>t. t) (boot_tasks m))"
    using assms by (intro reads_vec reads_boot_task) (simp_all add: manifest_ok_def)
  from reads_map [OF this, of "\<lambda>ts. \<lparr>task_name = task_name m, boot_tasks = ts\<rparr>" m] show ?thesis
    unfolding deserialize_bootstrap_manifest_def manifest_items_def
    using assms by (auto simp: manifest_ok_def intro!: reads_bind [OF reads_string])
qed

end
