(* ===== verification/Poplar_Channel.thy ===== *)
theory Poplar_Channel
  imports Kernel_Messages Bus_Codec
begin

text \<open>
  \<open>lib/poplar/src/channel.rs\<close>: typed messages between tasks.  A value is serialized into a
  \<open>ChannelWriter\<close>, sent with the system call, received by another task and deserialized there.  The
  instruction that enters the kernel (\<open>raw\<close>) is a parameter: it takes the number of the system call and
  five arguments.  The buffers of a task lie in its memory at addresses that are parameters too.
  \<open>ops\<close> is the crate \<open>bit_field\<close>.  The locale \<open>message_type\<close> is what a channel relies on for the type
  of its messages; the end-to-end theorem is proved in it once for every type.
\<close>

subsection \<open>The writer\<close>

record channel_writer_state =
  byte_buffer :: "u8 list"
  handle_buffer :: "handle list"
  handles_used :: u8

definition channel_writer_new :: channel_writer_state where
  "channel_writer_new = \<lparr>byte_buffer = [], handle_buffer = replicate CHANNEL_MAX_NUM_HANDLES 0, handles_used = 0\<rparr>"

definition channel_writer_handles :: "channel_writer_state \<Rightarrow> panic + handle list" where
  "channel_writer_handles w =
     (if unat (handles_used w) \<le> length (handle_buffer w) then Inr (take (unat (handles_used w)) (handle_buffer w))
      else Inl IndexOutOfBounds)"

definition channel_write :: "u8 list \<Rightarrow> (channel_writer_state, ser_error, unit) sys" where
  "channel_write buf = smodify (\<lambda>w. w\<lparr>byte_buffer := byte_buffer w @ buf\<rparr>)"

definition channel_push_handle :: "handle \<Rightarrow> (channel_writer_state, ser_error, handle_slot) sys" where
  "channel_push_handle h = (\<lambda>w.
     if unat (handles_used w) + 1 > CHANNEL_MAX_NUM_HANDLES then Inr (Inl WriterFullOfHandles, w)
     else rbind (rindex (handle_buffer w) (unat (handles_used w))) (\<lambda>_.
       rbind (make_handle_slot (handles_used w)) (\<lambda>slot.
       rbind (uadd (handles_used w) 1) (\<lambda>n.
         Inr (Inr slot, w\<lparr>handle_buffer := (handle_buffer w)[unat (handles_used w) := h], handles_used := n\<rparr>)))))"

definition channel_writer :: "channel_writer_state writer" where
  "channel_writer = \<lparr>writer_write = channel_write, writer_push_handle = channel_push_handle,
     writer_bytes_written = (\<lambda>w. of_nat (length (byte_buffer w)))\<rparr>"

definition writer_inv :: "channel_writer_state \<Rightarrow> bool" where
  "writer_inv w \<longleftrightarrow> length (handle_buffer w) = 4 \<and> unat (handles_used w) \<le> 4"

interpretation chan: wire_writer channel_writer byte_buffer "\<lambda>w. take (unat (handles_used w)) (handle_buffer w)"
  writer_inv "\<lambda>w b h. unat (handles_used w) + h \<le> 4"
proof
  fix w h assume inv: "writer_inv w" and fits: "unat (handles_used w) + 1 \<le> 4"
  let ?n = "unat (handles_used w)" and ?w = "w\<lparr>handle_buffer := (handle_buffer w)[unat (handles_used w) := h], handles_used := handles_used w + 1\<rparr>"
  have n: "?n < length (handle_buffer w)" "length (handle_buffer w) = 4" using inv fits by (simp_all add: writer_inv_def)
  have slot: "make_handle_slot (handles_used w) = Inr (0xf0 + of_nat ?n)" using slot_index(1) [of ?n] fits by simp
  have n': "unat (handles_used w + 1) = ?n + 1" using fits by (subst unat_add_no_overflow) simp_all
  have "uadd (handles_used w) 1 = Inr (handles_used w + 1)" using fits by (simp add: uadd_def)
  then have "writer_push_handle channel_writer h w = Inr (Inr (0xf0 + of_nat ?n), ?w)"
    using fits n slot by (simp add: channel_writer_def channel_push_handle_def CHANNEL_MAX_NUM_HANDLES_def)
  moreover have "take (?n + 1) ((handle_buffer w)[?n := h]) = take ?n (handle_buffer w) @ [h]"
    using n(1) by (simp add: take_Suc_conv_app_nth)
  moreover have "length (take ?n (handle_buffer w)) = ?n" using n by simp
  ultimately show "length (take ?n (handle_buffer w)) < 4 \<and> (\<exists>w'. writer_push_handle channel_writer h w =
      Inr (Inr (0xf0 + of_nat (length (take ?n (handle_buffer w)))), w') \<and> writer_inv w' \<and> byte_buffer w' = byte_buffer w \<and>
      take (unat (handles_used w')) (handle_buffer w') = take ?n (handle_buffer w) @ [h] \<and>
      (\<forall>b n. (unat (handles_used w') + n \<le> 4) = (?n + Suc n \<le> 4)))"
    using n fits n' by (intro conjI exI [of _ ?w]) (simp_all add: writer_inv_def)
qed (auto simp: channel_writer_def channel_write_def smodify_def writer_inv_def channel_push_handle_def CHANNEL_MAX_NUM_HANDLES_def)

subsection \<open>System calls of the client\<close>

type_synonym ('pt, 'ctx) raw_syscall =
  "usize \<Rightarrow> usize \<Rightarrow> usize \<Rightarrow> usize \<Rightarrow> usize \<Rightarrow> usize \<Rightarrow> ('pt, 'ctx) kernel \<Rightarrow> panic + (usize option \<times> ('pt, 'ctx) kernel)"

definition client_send_message ::
  "('pt, 'ctx) raw_syscall \<Rightarrow> handle \<Rightarrow> usize \<Rightarrow> nat \<Rightarrow> usize \<Rightarrow> nat \<Rightarrow> ('pt, 'ctx, send_message_error, unit) syscall" where
  "client_send_message raw channel bytes_ptr bytes_len handles_ptr handles_len = (\<lambda>k.
     rbind (raw SYSCALL_SEND_MESSAGE (ucast channel) (if bytes_len = 0 then 0x0 else bytes_ptr) (of_nat bytes_len)
       (if handles_len = 0 then 0x0 else handles_ptr) (of_nat handles_len) k) (\<lambda>(w, k').
     rbind (runwrap w) (\<lambda>w.
     rbind (status_from_syscall_repr SendMessageError w) (\<lambda>r. Inr (r, k')))))"

text \<open>The result is how much of the two buffers is filled; a slice of more than a buffer panics.\<close>

definition client_get_message ::
  "bit_field_ops \<Rightarrow> ('pt, 'ctx) raw_syscall \<Rightarrow> handle \<Rightarrow> usize \<Rightarrow> nat \<Rightarrow> usize \<Rightarrow> nat \<Rightarrow>
   ('pt, 'ctx, get_message_error, nat \<times> nat) syscall" where
  "client_get_message ops raw channel bytes_ptr bytes_len handles_ptr handles_len = (\<lambda>k.
     rbind (raw SYSCALL_GET_MESSAGE (ucast channel) (if bytes_len = 0 then 0x0 else bytes_ptr) (of_nat bytes_len)
       (if handles_len = 0 then 0x0 else handles_ptr) (of_nat handles_len) k) (\<lambda>(w, k').
     rbind (runwrap w) (\<lambda>w.
     rbind (get_message_lengths ops w) (\<lambda>r.
       case r of
         Inl e \<Rightarrow> Inr (Inl e, k')
       | Inr (b, h) \<Rightarrow>
           if unat b \<le> bytes_len \<and> unat h \<le> handles_len then Inr (Inr (unat b, unat h), k') else Inl IndexOutOfBounds))))"

subsection \<open>Channels\<close>

definition BYTES_BUFFER_SIZE :: nat where
  "BYTES_BUFFER_SIZE = 2048"

datatype channel_send_error = FailedToSerialize ser_error | SendError send_message_error
datatype channel_receive_error = FailedToDeserialize de_error | ReceiveError get_message_error

definition store :: "usize \<Rightarrow> u8 list \<Rightarrow> ('pt, 'ctx) kernel \<Rightarrow> ('pt, 'ctx) kernel" where
  "store a bs k = k\<lparr>user_memory := write_bytes (user_memory k) a bs\<rparr>"

definition handles_memory :: "handle list \<Rightarrow> u8 list" where
  "handles_memory hs = concat (map (le_bytes 4) hs)"

definition typed_send ::
  "('pt, 'ctx) raw_syscall \<Rightarrow> (channel_writer_state, 's) serialize \<Rightarrow> handle \<Rightarrow> usize \<Rightarrow> usize \<Rightarrow> 's \<Rightarrow>
   ('pt, 'ctx, channel_send_error, unit) syscall" where
  "typed_send raw s channel bytes_ptr handles_ptr value = (\<lambda>k.
     rbind (to_wire s channel_writer value channel_writer_new) (\<lambda>(r, w).
       case r of
         Inl e \<Rightarrow> Inr (Inl (FailedToSerialize e), k)
       | Inr _ \<Rightarrow>
           rbind (channel_writer_handles w) (\<lambda>hs.
             smap_err SendError (client_send_message raw channel bytes_ptr (length (byte_buffer w)) handles_ptr (length hs))
               (store handles_ptr (handles_memory (handle_buffer w)) (store bytes_ptr (byte_buffer w) k)))))"

definition try_receive ::
  "bit_field_ops \<Rightarrow> ('pt, 'ctx) raw_syscall \<Rightarrow> 'r deserialize \<Rightarrow> handle \<Rightarrow> usize \<Rightarrow> usize \<Rightarrow>
   ('pt, 'ctx, channel_receive_error, 'r option) syscall" where
  "try_receive ops raw d channel bytes_ptr handles_ptr = (\<lambda>k.
     rbind (client_get_message ops raw channel bytes_ptr BYTES_BUFFER_SIZE handles_ptr CHANNEL_MAX_NUM_HANDLES
       (store handles_ptr (handles_memory (replicate CHANNEL_MAX_NUM_HANDLES 0)) (store bytes_ptr (replicate BYTES_BUFFER_SIZE 0) k)))
     (\<lambda>(r, k').
       case r of
         Inr (nb, nh) \<Rightarrow>
           rbind (from_wire d (read_bytes (user_memory k') bytes_ptr nb) (user_words k' 4 handles_ptr (of_nat nh))) (\<lambda>m.
             Inr (case m of Inl e \<Rightarrow> Inl (FailedToDeserialize e) | Inr v \<Rightarrow> Inr (Some v), k'))
       | Inl NoMessage \<Rightarrow> Inr (Inr None, k')
       | Inl e \<Rightarrow> Inr (Inl (ReceiveError e), k')))"

subsection \<open>Memory\<close>

definition apart :: "usize \<Rightarrow> nat \<Rightarrow> usize \<Rightarrow> nat \<Rightarrow> bool" where
  "apart a n b m \<longleftrightarrow> (\<forall>i < n. \<forall>j < m. a + of_nat i \<noteq> b + of_nat j)"

lemma read_write_apart:
  assumes "length bs \<le> 2 ^ 63" and "apart b n a (length bs)"
  shows "read_bytes (write_bytes mem a bs) b n = read_bytes mem b n"
  unfolding read_bytes_def
proof (rule map_cong)
  fix i assume "i \<in> set [0 ..< n]"
  then have i: "i < n" by simp
  have "\<not> unat (b + of_nat i - a) < length bs"
  proof
    assume "unat (b + of_nat i - a) < length bs"
    moreover have "b + of_nat i = a + of_nat (unat (b + of_nat i - a))" by simp
    ultimately show False using assms(2) i unfolding apart_def by blast
  qed
  then show "write_bytes mem a bs (b + of_nat i) = mem (b + of_nat i)" by (simp add: write_bytes_apply [OF assms(1)])
qed simp

lemma read_bytes_slice: "i + m \<le> n \<Longrightarrow> read_bytes mem (a + of_nat i) m = take m (drop i (read_bytes mem a n))"
  by (rule nth_equalityI) (simp_all add: read_bytes_def algebra_simps)

lemma length_handles_memory [simp]: "length (handles_memory hs) = 4 * length hs"
  by (induction hs) (simp_all add: handles_memory_def)

lemma handles_memory_slice: "i < length hs \<Longrightarrow> take 4 (drop (4 * i) (handles_memory hs)) = le_bytes 4 (hs ! i)"
proof (induction hs arbitrary: i)
  case (Cons h hs)
  then show ?case by (cases i) (simp_all add: handles_memory_def)
qed simp

lemma user_words_memory:
  assumes "read_bytes (user_memory k) a (4 * length hs) = handles_memory hs" and "n \<le> length hs" and "length hs \<le> 4"
  shows "user_words k 4 a (of_nat n) = take n hs"
proof (rule nth_equalityI)
  have n: "unat (of_nat n :: usize) = n" using assms(2,3) by (simp add: unsigned_of_nat take_bit_nat_eq_self)
  then show "length (user_words k 4 a (of_nat n)) = length (take n hs)" using assms(2) by (simp add: user_words_def)
  fix i assume "i < length (user_words k 4 a (of_nat n) :: handle list)"
  then have i: "i < n" using n by (simp add: user_words_def)
  have "read_bytes (user_memory k) (a + of_nat (4 * i)) 4 = take 4 (drop (4 * i) (read_bytes (user_memory k) a (4 * length hs)))"
    using i assms(2) by (intro read_bytes_slice) simp
  also have "\<dots> = le_bytes 4 (hs ! i)" unfolding assms(1) using i assms(2) by (intro handles_memory_slice) simp
  finally show "user_words k 4 a (of_nat n) ! i = take n hs ! i"
    using i n by (simp add: user_words_def le_value_bytes)
qed

lemma store_heap [simp]: "heap (store a bs k) = heap k"
  and store_memory [simp]: "user_memory (store a bs k) = write_bytes (user_memory k) a bs"
  and store_queues [simp]: "queues (store a bs k) = queues k"
  by (simp_all add: store_def)

subsection \<open>Sending\<close>

lemma run_send: "syscall_body p me SYSCALL_SEND_MESSAGE a b c d e = run_status SendMessageError (send_message me a b c d e)"
  and run_get: "syscall_body p me SYSCALL_GET_MESSAGE a b c d e =
    run_payload (\<lambda>err. Inr (error_into GetMessageError err)) (get_message p me a b c d e)"
  by (simp_all add: syscall_body_def SYSCALL_YIELD_def SYSCALL_EARLY_LOG_def SYSCALL_GET_FRAMEBUFFER_def
      SYSCALL_CREATE_MEMORY_OBJECT_def SYSCALL_MAP_MEMORY_OBJECT_def SYSCALL_CREATE_CHANNEL_def SYSCALL_SEND_MESSAGE_def
      SYSCALL_GET_MESSAGE_def)

lemma handle_try_from_ucast [simp]: "handle_try_from (ucast (h :: handle)) = Some h"
  using unat_handle_less [of h] by (simp add: handle_try_from_def unat_handle ucast_handle)

lemma client_send_run:
  "send_message me (ucast ch) (if nb = 0 then 0 else ba) (of_nat nb) (if nh = 0 then 0 else ha) (of_nat nh) k = Inr (r, k') \<Longrightarrow>
   client_send_message (syscall_body p me) ch ba nb ha nh k = Inr (r, k')"
  by (simp add: client_send_message_def run_send run_status_def send_message.status_roundtrip)

lemma user_words_none: "(user_words k w (if n = 0 then 0 else a) (of_nat n) :: 'w::len word list) = user_words k w a (of_nat n)"
  by simp

lemma serialize_writer:
  assumes "s channel_writer v = emit channel_writer xs" and "length (given xs) \<le> 4"
  obtains w n where "to_wire s channel_writer v channel_writer_new = Inr (Inr n, w)" "byte_buffer w = wire_bytes 0 xs"
    "channel_writer_handles w = Inr (given xs)" "length (handle_buffer w) = 4" "take (length (given xs)) (handle_buffer w) = given xs"
proof -
  have inv: "writer_inv channel_writer_new" by (simp add: writer_inv_def channel_writer_new_def CHANNEL_MAX_NUM_HANDLES_def)
  obtain n w where r: "to_wire s channel_writer v channel_writer_new = Inr (Inr n, w)"
    using chan.to_wire_exact(1) [of s v xs, OF assms(1) inv] assms(2) by (auto simp: channel_writer_new_def)
  from chan.to_wire_exact(2) [of s v xs, OF assms(1) inv r]
  have w: "writer_inv w" "byte_buffer w = wire_bytes 0 xs" "take (unat (handles_used w)) (handle_buffer w) = given xs"
    by (simp_all add: channel_writer_new_def)
  have l: "length (given xs) = unat (handles_used w)" unfolding w(3) [symmetric] using w(1) by (simp add: writer_inv_def)
  show thesis
    using w(1,3) by (intro that [OF r w(2)]) (simp_all add: l writer_inv_def channel_writer_handles_def)
qed

text \<open>A task sends a value: the handles leave its table, and the message is in the queue of the other end.\<close>

lemma typed_send_run:
  assumes ser: "s channel_writer v = emit channel_writer xs" and xs: "length (given xs) \<le> 4" "wire_length xs \<le> 4096"
    and mem: "apart ba (wire_length xs) ha 16"
    and me: "heap k me = Some (TaskObj t)"
    and ch: "handles_get (t_handles t) ch = Some r" "heap k r = Some (ChannelObj c)"
    and peer: "other_end c = Some peer" "heap k peer = Some (ChannelObj c')"
    and hs: "distinct (ch # given xs)" "set (given xs) \<subseteq> dom (handles_get (t_handles t))"
  obtains rs T' mem' where
    "typed_send (syscall_body p me) s ch ba ha v k = Inr (Inr (),
      (update_object (update_object k me (TaskObj (t\<lparr>t_handles := T'\<rparr>))) peer
        (ChannelObj (add_message c' \<lparr>msg_bytes = wire_bytes 0 xs, handle_objects = objects_array rs\<rparr>)))\<lparr>user_memory := mem'\<rparr>)"
    "map (handles_get (t_handles t)) (given xs) = map Some rs"
    "handles_get T' = (\<lambda>h. if h \<in> set (given xs) then None else handles_get (t_handles t) h)"
proof -
  let ?bs = "wire_bytes 0 xs" and ?hs = "given xs"
  obtain w n where w: "to_wire s channel_writer v channel_writer_new = Inr (Inr n, w)" "byte_buffer w = ?bs"
      "channel_writer_handles w = Inr ?hs" "length (handle_buffer w) = 4" "take (length ?hs) (handle_buffer w) = ?hs"
    using serialize_writer [of s v xs, OF ser xs(1)] .
  define k1 where "k1 = store ha (handles_memory (handle_buffer w)) (store ba ?bs k)"
  have heap1: "heap k1 = heap k" by (simp add: k1_def)
  have me1: "heap k1 me = Some (TaskObj t)" using me by (simp add: heap1)
  have "read_bytes (user_memory k1) ha (4 * length (handle_buffer w)) = handles_memory (handle_buffer w)"
    using read_write_bytes [of "handles_memory (handle_buffer w)"] w(4) by (simp add: k1_def)
  from user_words_memory [OF this, of "length ?hs"] have words: "user_words k1 4 ha (of_nat (length ?hs)) = ?hs"
    using w(4,5) xs(1) by simp
  have nb: "unat (of_nat (length ?bs) :: usize) = length ?bs" using xs(2) by (simp add: unsigned_of_nat take_bit_nat_eq_self)
  have bytes: "user_words k1 1 ba (of_nat (length ?bs)) = ?bs"
    using read_write_apart [of "handles_memory (handle_buffer w)" ba "length ?bs" ha "user_memory (store ba ?bs k)"]
      read_write_bytes [of ?bs] mem w(4) xs(2) by (simp only: user_bytes nb) (simp add: k1_def)
  obtain rs T' where x: "take_all (t_handles t) ?hs = (Some rs, T')"
    using take_all_there [of ?hs "t_handles t"] hs by (metis distinct.simps(2) prod.collapse)
  note tk = take_all_ok [OF x]
  let ?t = "t\<lparr>t_handles := T'\<rparr>" and ?m = "\<lparr>msg_bytes = ?bs, handle_objects = objects_array rs\<rparr>"
  let ?k2 = "update_object k1 me (TaskObj ?t)"
  have me2: "heap ?k2 me = Some (TaskObj ?t)" by simp
  have neq: "r \<noteq> me" "peer \<noteq> me" using me ch(2) peer(2) by auto
  have get: "object_of me ch SendInvalidChannelHandle as_channel SendNotAChannel ?k2 = Inr (Inr (r, c), ?k2)"
    using tk hs(1) ch neq heap1 by (simp add: object_of_run [OF me2] as_channel_def)
  have send: "channel_send c ?m ?k2 = Inr (Inr (), update_object ?k2 peer (ChannelObj (add_message c' ?m)))"
    using peer neq by (simp add: channel_send_def sbind_def sget_def upgrade_def ok_or_def sreturn_def read_object_def deref_def
        as_channel_def write_object_def smodify_def runwrap_def heap1)
  have small: "of_nat (length ?bs) \<le> CHANNEL_MAX_NUM_BYTES" "of_nat (length ?hs) \<le> (of_nat CHANNEL_MAX_NUM_HANDLES :: usize)"
    using xs nb by (simp_all add: CHANNEL_MAX_NUM_BYTES_def CHANNEL_MAX_NUM_HANDLES_def word_le_nat_alt unsigned_of_nat take_bit_nat_eq_self)
  have "send_message me (ucast ch) (if length ?bs = 0 then 0 else ba) (of_nat (length ?bs)) (if length ?hs = 0 then 0 else ha) (of_nat (length ?hs)) k1 =
      Inr (Inr (), update_object ?k2 peer (ChannelObj (add_message c' ?m)))"
    using send_message_run [OF me1 small handle_try_from_ucast [of ch], where ha = "if length ?hs = 0 then 0 else ha" and x = "Some rs"
        and T' = T' and ba = "if length ?bs = 0 then 0 else ba"] get send
    unfolding user_words_none words bytes x by (simp add: sbind_def)
  from client_send_run [OF this, of p]
  have "typed_send (syscall_body p me) s ch ba ha v k = Inr (Inr (), update_object ?k2 peer (ChannelObj (add_message c' ?m)))"
    by (simp add: typed_send_def w(1-3) smap_err_def k1_def)
  moreover have "update_object ?k2 peer (ChannelObj (add_message c' ?m)) =
      (update_object (update_object k me (TaskObj ?t)) peer (ChannelObj (add_message c' ?m)))\<lparr>user_memory := user_memory k1\<rparr>"
    by (simp add: update_object_def k1_def store_def)
  ultimately have sent: "typed_send (syscall_body p me) s ch ba ha v k = Inr (Inr (),
      (update_object (update_object k me (TaskObj ?t)) peer (ChannelObj (add_message c' ?m)))\<lparr>user_memory := user_memory k1\<rparr>)" by simp
  show thesis by (rule that [OF sent]) (use tk in simp_all)
qed

subsection \<open>Receiving\<close>

lemma client_get_error:
  assumes "bit_field (bits p) (\<lambda>_. 64) (bit :: usize \<Rightarrow> nat \<Rightarrow> bool)"
    and "get_message p me (ucast ch) (if nb = 0 then 0 else ba) (of_nat nb) (if nh = 0 then 0 else ha) (of_nat nh) k = Inr (Inl e, k')"
  shows "client_get_message (bits p) (syscall_body p me) ch ba nb ha nh k = Inr (Inl e, k')"
  using assms(2) by (simp add: client_get_message_def run_get run_payload_def status_with_payload_to_syscall_repr_def
      get_message_lengths_error [OF assms(1)])

lemma client_get_ok:
  assumes "bit_field (bits p) (\<lambda>_. 64) (bit :: usize \<Rightarrow> nat \<Rightarrow> bool)" and "nb' \<le> nb" "nh' \<le> nh" "nb' < 2 ^ 16" "nh' < 2 ^ 16"
    and "get_message p me (ucast ch) (if nb = 0 then 0 else ba) (of_nat nb) (if nh = 0 then 0 else ha) (of_nat nh) k =
      rbind (get_message_status (bits p) (of_nat nb') (of_nat nh')) (\<lambda>w. Inr (Inr w, k'))"
  shows "client_get_message (bits p) (syscall_body p me) ch ba nb ha nh k = Inr (Inr (nb', nh'), k')"
proof -
  have u: "unat (of_nat nb' :: usize) = nb'" "unat (of_nat nh' :: usize) = nh'"
    using assms(4,5) by (simp_all add: unsigned_of_nat take_bit_nat_eq_self)
  obtain w where "get_message_status (bits p) (of_nat nb') (of_nat nh') = Inr w" "get_message_lengths (bits p) w = Inr (Inr (of_nat nb', of_nat nh'))"
    using get_message_lengths_ok [OF assms(1), of "of_nat nb'" "of_nat nh'"] u assms(4,5) by (auto simp: rust_simps)
  then show ?thesis
    using assms(2,3,6) u by (simp add: client_get_message_def run_get run_payload_def status_with_payload_to_syscall_repr_def)
qed

lemma get_message_run:
  assumes "heap k me = Some (TaskObj t)" and "handles_get (t_handles t) ch = Some r" and "heap k r = Some (ChannelObj c)"
  shows "get_message p me (ucast ch) ba bl ha hl k = receive_from r c (deliver p me ba bl ha hl) k"
  using assms by (simp add: get_message_def sbind_def ok_or_def sreturn_def object_of_run as_channel_def)

text \<open>The buffers that are handed to the kernel, filled with zeros.\<close>

definition cleared :: "usize \<Rightarrow> usize \<Rightarrow> ('pt, 'ctx) kernel \<Rightarrow> ('pt, 'ctx) kernel" where
  "cleared ba ha k = store ha (handles_memory (replicate 4 0)) (store ba (replicate 2048 0) k)"

lemma cleared_heap [simp]: "heap (cleared ba ha k) = heap k" "queues (cleared ba ha k) = queues k"
  by (simp_all add: cleared_def)

lemma try_receive_run:
  assumes p: "bit_field (bits p) (\<lambda>_. 64) (bit :: usize \<Rightarrow> nat \<Rightarrow> bool)"
    and me: "heap k me = Some (TaskObj t)" and ch: "handles_get (t_handles t) ch = Some r" "heap k r = Some (ChannelObj c)"
    and m: "messages c = m # ms" "message_ok m" "length (msg_bytes m) \<le> 2048"
    and mem: "ba \<noteq> 0" "ha \<noteq> 0" "apart ba 2048 ha 16"
    and ks: "add_all handles_add (t_handles t) (message_refs m) = (ks, T')"
  obtains mem' where "try_receive (bits p) (syscall_body p me) d ch ba ha k =
    rbind (from_wire d (msg_bytes m) ks) (\<lambda>x. Inr (case x of Inl e \<Rightarrow> Inl (FailedToDeserialize e) | Inr v \<Rightarrow> Inr (Some v),
      (update_object (update_object k me (TaskObj (t\<lparr>t_handles := T'\<rparr>))) r (ChannelObj (c\<lparr>messages := ms\<rparr>)))\<lparr>user_memory := mem'\<rparr>))"
proof -
  let ?k = "cleared ba ha k" and ?t = "t\<lparr>t_handles := T'\<rparr>" and ?nh = "num_handles m"
  have nh: "?nh = length (message_refs m)" "?nh = length ks" "?nh \<le> 4"
    using message_objects(1) [OF m(2)] task_handles.add_all_length [OF ks] message_ok_objects [OF m(2)] by (simp, simp, metis)
  have neq: "r \<noteq> me" using me ch(2) by auto
  let ?mem = "received_memory (user_memory ?k) ba 2048 ha m ks"
  let ?k1 = "(update_object ?k me (TaskObj ?t))\<lparr>user_memory := ?mem\<rparr>"
  let ?k2 = "update_object ?k1 r (ChannelObj (c\<lparr>messages := ms\<rparr>))"
  have recv: "received_handles (t_handles t) ha 4 m = (ks, T')" using mem(2) ks by (simp add: received_handles_def wanted_def)
  have d: "deliver p me ba 2048 ha 4 m ?k =
      slift (get_message_status (bits p) (of_nat (length (msg_bytes m))) (of_nat ?nh)) ?k1"
    using deliver_run [OF m(2) _ recv, of ?k me 2048 p ba] me m(3) nh(3) by simp
  have "get_message p me (ucast ch) ba 2048 ha 4 ?k =
      rbind (get_message_status (bits p) (of_nat (length (msg_bytes m))) (of_nat ?nh)) (\<lambda>w. Inr (Inr w, ?k2))"
    unfolding get_message_run [of ?k me t ch r c, OF _ ch(1), simplified, OF me ch(2)]
    using d m(1) by (cases "get_message_status (bits p) (of_nat (length (msg_bytes m))) (of_nat ?nh)")
      (simp_all add: receive_from_def receive_def slift_def)
  then have get: "client_get_message (bits p) (syscall_body p me) ch ba 2048 ha 4 ?k = Inr (Inr (length (msg_bytes m), ?nh), ?k2)"
    using m(3) nh(3) by (intro client_get_ok [OF p]) simp_all
  have len: "length (msg_bytes m) \<le> 2 ^ 63" "length (handles_memory ks) \<le> 2 ^ 63" using m(3) nh(2,3) by simp_all
  have mem': "?mem = write_bytes (write_bytes (user_memory ?k) ba (msg_bytes m)) ha (handles_memory ks)"
    using mem(1) by (simp add: received_memory_def wanted_def handles_memory_def)
  have "apart ba (length (msg_bytes m)) ha (length (handles_memory ks))"
    using mem(3) m(3) nh(2,3) by (simp add: apart_def)
  then have bytes: "read_bytes (user_memory ?k2) ba (length (msg_bytes m)) = msg_bytes m"
    using read_write_apart [OF len(2)] read_write_bytes [OF len(1)] by (simp add: update_object_def mem')
  have "read_bytes (user_memory ?k2) ha (4 * length ks) = handles_memory ks"
    using read_write_bytes [OF len(2)] by (simp add: update_object_def mem')
  from user_words_memory [OF this, of "length ks"] have words: "user_words ?k2 4 ha (of_nat ?nh) = ks"
    using nh(2,3) by simp
  have "try_receive (bits p) (syscall_body p me) d ch ba ha k =
      rbind (from_wire d (msg_bytes m) ks) (\<lambda>x. Inr (case x of Inl e \<Rightarrow> Inl (FailedToDeserialize e) | Inr v \<Rightarrow> Inr (Some v), ?k2))"
    unfolding try_receive_def BYTES_BUFFER_SIZE_def CHANNEL_MAX_NUM_HANDLES_def cleared_def [symmetric] get
    by (simp only: rbind_simps case_prod_conv sum.case bytes words)
  moreover have "?k2 = (update_object (update_object k me (TaskObj ?t)) r (ChannelObj (c\<lparr>messages := ms\<rparr>)))\<lparr>user_memory := ?mem\<rparr>"
    by (simp add: update_object_def cleared_def store_def)
  ultimately show thesis by (intro that [of ?mem]) simp
qed

text \<open>A message that is longer than the buffer stays at the front of the queue.\<close>

lemma try_receive_too_long:
  assumes p: "bit_field (bits p) (\<lambda>_. 64) (bit :: usize \<Rightarrow> nat \<Rightarrow> bool)"
    and me: "heap k me = Some (TaskObj t)" and ch: "handles_get (t_handles t) ch = Some r" "heap k r = Some (ChannelObj c)"
    and m: "messages c = m # ms" "length (msg_bytes m) > 2048" and mem: "ba \<noteq> 0" "ha \<noteq> 0"
  shows "try_receive (bits p) (syscall_body p me) d ch ba ha k = Inr (Inl (ReceiveError BytesBufferTooSmall), cleared ba ha k)"
proof -
  let ?k = "cleared ba ha k"
  have "deliver p me ba 2048 ha 4 m ?k = Inr (Inl (m, BytesBufferTooSmall), ?k)"
    using m(2) by (simp add: deliver_def Let_def sfail_def)
  moreover have "c\<lparr>messages := m # ms\<rparr> = c" using m(1) by (cases c) simp
  ultimately have "get_message p me (ucast ch) ba 2048 ha 4 ?k = Inr (Inl BytesBufferTooSmall, ?k)"
    unfolding get_message_run [of ?k me t ch r c, OF _ ch(1), simplified, OF me ch(2)]
    using m(1) ch(2) by (simp add: receive_from_def receive_def update_same)
  then have "client_get_message (bits p) (syscall_body p me) ch ba 2048 ha 4 ?k = Inr (Inl BytesBufferTooSmall, ?k)"
    by (intro client_get_error [OF p]) simp
  then show ?thesis
    unfolding try_receive_def BYTES_BUFFER_SIZE_def CHANNEL_MAX_NUM_HANDLES_def cleared_def [symmetric] by simp
qed

subsection \<open>Messages that block a queue\<close>

lemma typed_send_inv:
  assumes "kernel_inv k" and "heap k me = Some (TaskObj t)" and "typed_send (syscall_body p me) s ch ba ha v k = Inr (r, k')"
  shows "kernel_inv k'"
proof -
  have mem: "kernel_inv (store x bs k2) = kernel_inv k2" for x bs and k2 :: "('a, 'b) kernel"
    unfolding store_def by (rule kernel_inv_frame) simp_all
  have "calling me (store x bs (store y cs k))" for x bs y cs using assms(1,2) by (simp add: calling_def mem kind_Some)
  from wp_partial [OF send_message_safe [OF this]] have "kernel_inv k2"
    if "send_message me h b nb c nh (store x bs (store y cs k)) = Inr (res, k2)" for h b nb c nh x bs y cs res k2
    using that by (simp add: calling_def)
  then show ?thesis
    using assms(1,3)
    by (auto simp: typed_send_def client_send_message_def smap_err_def run_send run_status_def rust_simps case_sum_eq)
qed

text \<open>What tasks and the scheduler do while messages are exchanged: any task sends anything, any task receives with a
  buffer of the size that the library uses, tasks write to their memory, and the running task is preempted.\<close>

inductive traffic :: "('pt, 'ctx) platform \<Rightarrow> ('pt, 'ctx) kernel \<Rightarrow> ('pt, 'ctx) kernel \<Rightarrow> bool"
  for p :: "('pt, 'ctx) platform" and k0 :: "('pt, 'ctx) kernel" where
  start: "traffic p k0 k0"
| send: "traffic p k0 k \<Longrightarrow> heap k me = Some (TaskObj t) \<Longrightarrow> send_message me h ba nb ha nh k = Inr (res, k') \<Longrightarrow> traffic p k0 k'"
| receive: "traffic p k0 k \<Longrightarrow> heap k me = Some (TaskObj t) \<Longrightarrow>
    get_message p me h ba (of_nat BYTES_BUFFER_SIZE) ha hl k = Inr (res', k') \<Longrightarrow> traffic p k0 k'"
| memory: "traffic p k0 k \<Longrightarrow> traffic p k0 (k\<lparr>user_memory := m\<rparr>)"
| preempt: "traffic p k0 k \<Longrightarrow> running_task k = Some me \<Longrightarrow> schedule k Ready = Inr k' \<Longrightarrow> traffic p k0 k'"

lemma deref_heap:
  "deref_task k r = Inr t \<Longrightarrow> heap k r = Some (TaskObj t)" "deref_address_space k r = Inr a \<Longrightarrow> heap k r = Some (AddressSpaceObj a)"
  by (auto simp: deref_task_def deref_address_space_def deref_def as_task_def as_address_space_def runwrap_def rust_simps
      split: option.splits kobj.splits)

lemma set_task_state_queues: "set_task_state k r s = Inr k' \<Longrightarrow> queues k' = queues k"
  by (auto simp: set_task_state_def rust_simps dest!: deref_heap)

lemma switch_space_queues:
  "switch_space_to k r = Inr k' \<Longrightarrow> queues k' = queues k" "switch_space_from k r = Inr k' \<Longrightarrow> queues k' = queues k"
  by (auto simp: switch_space_to_def switch_space_from_def rust_simps queues_def update_object_def fun_eq_iff dest!: deref_heap)

lemma queues_queues [simp]:
  "queues (k\<lparr>running_task := x\<rparr>) = queues k" "queues (k\<lparr>ready_queue := q\<rparr>) = queues k" "queues (k\<lparr>blocked_queue := q\<rparr>) = queues k"
  by (simp_all add: queues_def fun_eq_iff)

lemma switch_to_queues: "switch_to k s n = Inr k' \<Longrightarrow> queues k' = queues k"
  by (cases s) (auto simp: switch_to_def rust_simps dest!: set_task_state_queues switch_space_queues)

lemma schedule_queues: "schedule k s = Inr k' \<Longrightarrow> queues k' = queues k"
  by (auto simp: schedule_def choose_next_def rust_simps split: list.splits dest!: switch_to_queues)

text \<open>A message at the front of a queue that does not fit the buffer is there for good.\<close>

definition stuck :: "ref \<Rightarrow> message \<Rightarrow> ('pt, 'ctx) kernel \<Rightarrow> bool" where
  "stuck r m k \<longleftrightarrow> (\<exists>ms. queues k r = Some (m # ms))"

lemma stuck_send:
  assumes "kernel_inv k" and "heap k me = Some (TaskObj t)" and run: "send_message me h ba nb ha nh k = Inr (res, k')"
  shows "kernel_inv k'" and "stuck r m k \<Longrightarrow> stuck r m k'"
proof -
  have "calling me k" using assms by (simp add: calling_def kind_Some)
  from wp_partial [OF send_message_safe [OF this] run] show "kernel_inv k'" by (simp add: calling_def)
  from assms(2) run show "stuck r m k'" if "stuck r m k"
  proof (cases rule: send_message_cases)
    case (sent ch r' c rs T' ev)
    then show ?thesis using that by (auto simp: stuck_def split: option.splits)
  qed (use that in \<open>simp add: stuck_def\<close>)
qed

lemma stuck_receive:
  assumes "bit_field (bits p) (\<lambda>_. 64) (bit :: usize \<Rightarrow> nat \<Rightarrow> bool)" and "kernel_inv k" and "heap k me = Some (TaskObj t)"
    and run: "get_message p me h ba bl ha hl k = Inr (res, k')"
  shows "kernel_inv k'" and "stuck r m k \<Longrightarrow> unat bl < length (msg_bytes m) \<Longrightarrow> stuck r m k'"
proof -
  have "calling me k" using assms by (simp add: calling_def kind_Some)
  from wp_partial [OF get_message_safe [OF assms(1) this] run] show "kernel_inv k'" by (simp add: calling_def)
  from assms(2,3) run show "stuck r m k'" if "stuck r m k" "unat bl < length (msg_bytes m)"
  proof (cases rule: get_message_cases)
    case (received ch r' m' ks T' w)
    then show ?thesis using that by (auto simp: stuck_def)
  qed (use that in \<open>simp add: stuck_def\<close>)
qed

lemma traffic_stuck:
  assumes "traffic p k0 k" and "bit_field (bits p) (\<lambda>_. 64) (bit :: usize \<Rightarrow> nat \<Rightarrow> bool)" and "kernel_inv k0"
    and "stuck r m k0" and "BYTES_BUFFER_SIZE < length (msg_bytes m)"
  shows "kernel_inv k \<and> stuck r m k"
  using assms(1)
proof (induction rule: traffic.induct)
  case (send k me t h ba nb ha nh res k')
  then show ?case using stuck_send(1) [of k me t h ba nb ha nh res k'] stuck_send(2) [of k me t h ba nb ha nh res k' r m] by blast
next
  case (receive k me t h ba ha hl res' k')
  have "unat (of_nat BYTES_BUFFER_SIZE :: usize) < length (msg_bytes m)" using assms(5) by (simp add: BYTES_BUFFER_SIZE_def)
  then show ?case
    using receive stuck_receive(1) [OF assms(2), of k me t h ba "of_nat BYTES_BUFFER_SIZE" ha hl res' k']
      stuck_receive(2) [OF assms(2), of k me t h ba "of_nat BYTES_BUFFER_SIZE" ha hl res' k' r m] by blast
next
  case (memory k mem)
  have "kernel_inv (k\<lparr>user_memory := mem\<rparr>) = kernel_inv k" by (rule kernel_inv_frame) simp_all
  then show ?case using memory by (simp add: stuck_def)
next
  case (preempt k me k')
  have "parked k Ready" by (simp add: parked_def)
  then obtain k1 where "schedule k Ready = Inr k1" "kernel_inv k1"
    by (rule schedule_ok [OF conjunct1 [OF preempt.IH] preempt.hyps(2)])
  then show ?case using preempt schedule_queues [of k Ready k'] by (simp add: stuck_def)
qed (use assms in simp)

lemma stuck_fails:
  assumes "bit_field (bits p) (\<lambda>_. 64) (bit :: usize \<Rightarrow> nat \<Rightarrow> bool)" and "stuck r m k" and "BYTES_BUFFER_SIZE < length (msg_bytes m)"
    and "heap k me = Some (TaskObj t)" and "handles_get (t_handles t) ch = Some r" and "ba \<noteq> 0" "ha \<noteq> 0"
  shows "\<exists>k'. try_receive (bits p) (syscall_body p me) d ch ba ha k = Inr (Inl (ReceiveError BytesBufferTooSmall), k') \<and> queues k' = queues k"
proof -
  obtain c ms where "heap k r = Some (ChannelObj c)" "messages c = m # ms"
    using assms(2) by (auto simp: stuck_def queues_def split: option.splits kobj.splits)
  from try_receive_too_long [OF assms(1,4,5) this _ assms(6,7), of d] show ?thesis
    using assms(3) by (simp add: BYTES_BUFFER_SIZE_def)
qed

subsection \<open>From one task to another\<close>

text \<open>Two tasks with the two ends of a channel, on which nothing waits for the second one.\<close>

definition linked :: "('pt, 'ctx) kernel \<Rightarrow> ref \<Rightarrow> 'ctx task \<Rightarrow> handle \<Rightarrow> ref \<Rightarrow> 'ctx task \<Rightarrow> handle \<Rightarrow> bool" where
  "linked k a t ch b u ch' \<longleftrightarrow> a \<noteq> b \<and> heap k a = Some (TaskObj t) \<and> heap k b = Some (TaskObj u) \<and>
     (\<exists>r c peer c'. handles_get (t_handles t) ch = Some r \<and> heap k r = Some (ChannelObj c) \<and> other_end c = Some peer \<and>
        handles_get (t_handles u) ch' = Some peer \<and> heap k peer = Some (ChannelObj c') \<and> messages c' = [])"

definition buffers :: "usize \<Rightarrow> usize \<Rightarrow> nat \<Rightarrow> bool" where
  "buffers ba ha n \<longleftrightarrow> ba \<noteq> 0 \<and> ha \<noteq> 0 \<and> apart ba n ha 16"

text \<open>Handles that can be given away over the channel, and a table that can take as many.\<close>

definition sendable :: "handles \<Rightarrow> handle \<Rightarrow> handle list \<Rightarrow> bool" where
  "sendable T ch hs \<longleftrightarrow> distinct (ch # hs) \<and> set hs \<subseteq> dom (handles_get T) \<and> length hs \<le> 4"

definition can_take :: "handles \<Rightarrow> nat \<Rightarrow> bool" where
  "can_take T n \<longleftrightarrow> handles_inv T \<and> n \<le> handles_room T"

lemma renaming:
  assumes "distinct hs" and "length ks = length hs"
  shows "\<exists>f. map f hs = ks"
proof -
  have "map (\<lambda>h. the (map_of (zip hs ks) h)) hs = ks"
    using assms by (intro nth_equalityI) (simp_all add: map_of_zip_nth)
  then show ?thesis by blast
qed

lemma reads_from_wire:
  assumes "reads d xs f v" and "length (given xs) \<le> 4" and "map f (given xs) = ks"
  shows "from_wire d (wire_bytes 0 xs) ks = Inr (Inr v)"
proof -
  have "take (length (given xs)) (drop 0 ks) = map f (given xs)" using assms(3) by auto
  then have "d \<lparr>de_bytes = wire_bytes 0 xs @ [], de_handles = ks\<rparr> = Inr (Inr v, \<lparr>de_bytes = [], de_handles = ks\<rparr>)"
    using assms(1,2) unfolding reads_def by (metis add_0)
  then show ?thesis by (simp add: from_wire_def)
qed

locale message_type =
  fixes ser :: "(channel_writer_state, 's) serialize" and de :: "'s deserialize"
    and items :: "'s \<Rightarrow> item list" and ok :: "'s \<Rightarrow> bool" and renamed :: "(handle \<Rightarrow> handle) \<Rightarrow> 's \<Rightarrow> 's"
  assumes ser_items: "ser channel_writer v = emit channel_writer (items v)"
    and de_items: "ok v \<Longrightarrow> reads de (items v) f (renamed f v)"
begin

lemma from_wire_items:
  "ok v \<Longrightarrow> length (given (items v)) \<le> 4 \<Longrightarrow> map f (given (items v)) = ks \<Longrightarrow>
    from_wire de (wire_bytes 0 (items v)) ks = Inr (Inr (renamed f v))"
  using de_items by (rule reads_from_wire)

lemma send_receive:
  assumes p: "bit_field (bits p) (\<lambda>_. 64) (bit :: usize \<Rightarrow> nat \<Rightarrow> bool)" and link: "linked k a t ch b u ch'"
    and v: "ok v" "wire_length (items v) \<le> 2048"
    and hs: "sendable (t_handles t) ch (given (items v))" "can_take (t_handles u) (length (given (items v)))"
    and mem: "buffers ba ha (wire_length (items v))" "buffers ba' ha' 2048"
  shows "\<exists>k1 k2 f T U. typed_send (syscall_body p a) ser ch ba ha v k = Inr (Inr (), k1) \<and>
    try_receive (bits p) (syscall_body p b) de ch' ba' ha' k1 = Inr (Inr (Some (renamed f v)), k2) \<and>
    heap k2 a = Some (TaskObj (t\<lparr>t_handles := T\<rparr>)) \<and> heap k2 b = Some (TaskObj (u\<lparr>t_handles := U\<rparr>)) \<and>
    (\<forall>h \<in> set (given (items v)). handles_get T h = None \<and> handles_get U (f h) = handles_get (t_handles t) h) \<and>
    queues k2 = queues k"
proof -
  let ?xs = "items v"
  have a: "heap k a = Some (TaskObj t)" and b: "heap k b = Some (TaskObj u)" "a \<noteq> b" using link by (simp_all add: linked_def)
  obtain r c peer c' where ch: "handles_get (t_handles t) ch = Some r" "heap k r = Some (ChannelObj c)" "other_end c = Some peer"
      "handles_get (t_handles u) ch' = Some peer" "heap k peer = Some (ChannelObj c')" "messages c' = []"
    using link by (auto simp: linked_def)
  have hs4: "length (given ?xs) \<le> 4" "distinct (ch # given ?xs)" "set (given ?xs) \<subseteq> dom (handles_get (t_handles t))"
    using hs(1) by (simp_all add: sendable_def)
  obtain rs T mem' where s: "typed_send (syscall_body p a) ser ch ba ha v k = Inr (Inr (),
        (update_object (update_object k a (TaskObj (t\<lparr>t_handles := T\<rparr>))) peer
          (ChannelObj (add_message c' \<lparr>msg_bytes = wire_bytes 0 ?xs, handle_objects = objects_array rs\<rparr>)))\<lparr>user_memory := mem'\<rparr>)"
      "map (handles_get (t_handles t)) (given ?xs) = map Some rs"
      "handles_get T = (\<lambda>h. if h \<in> set (given ?xs) then None else handles_get (t_handles t) h)"
    by (rule typed_send_run [of ser v ?xs, OF ser_items hs4(1) _ _ a ch(1-3,5) hs4(2,3), of ba ha p]) (use v(2) mem(1) in \<open>simp_all add: buffers_def\<close>)
  let ?m = "\<lparr>msg_bytes = wire_bytes 0 ?xs, handle_objects = objects_array rs\<rparr>"
  let ?k1 = "(update_object (update_object k a (TaskObj (t\<lparr>t_handles := T\<rparr>))) peer (ChannelObj (add_message c' ?m)))\<lparr>user_memory := mem'\<rparr>"
  have len: "length rs = length (given ?xs)" using arg_cong [OF s(2), of length] by simp
  have ok: "message_ok ?m"
    using hs4(1) v(2) len by (intro objects_array_ok) (simp_all add: CHANNEL_MAX_NUM_BYTES_def CHANNEL_MAX_NUM_HANDLES_def)
  have refs: "message_refs ?m = rs" by (simp add: message_refs_def objects_array_def List.map_filter_def comp_def)
  obtain ks U where ks: "add_all handles_add (t_handles u) (message_refs ?m) = (ks, U)" by fastforce
  have added: "length ks = length rs" "distinct ks" "handles_get U = handles_get (t_handles u) ++ map_of (zip ks rs)"
    using task_handles.add_all_length [OF ks] task_handles.add_all_ok [OF _ _ ks] hs(2) len by (simp_all add: refs can_take_def)
  obtain f where f: "map f (given ?xs) = ks" using renaming [of "given ?xs" ks] added(1) len hs4(2) by auto
  have peer: "heap ?k1 peer = Some (ChannelObj (add_message c' ?m))" "heap ?k1 b = Some (TaskObj u)" "peer \<noteq> a" "peer \<noteq> b"
    using a b ch(5) by auto
  obtain mem2 where "try_receive (bits p) (syscall_body p b) de ch' ba' ha' ?k1 =
      rbind (from_wire de (wire_bytes 0 ?xs) ks) (\<lambda>x. Inr (case x of Inl e \<Rightarrow> Inl (FailedToDeserialize e) | Inr v \<Rightarrow> Inr (Some v),
        (update_object (update_object ?k1 b (TaskObj (u\<lparr>t_handles := U\<rparr>))) peer (ChannelObj (add_message c' ?m\<lparr>messages := []\<rparr>)))\<lparr>user_memory := mem2\<rparr>))"
    by (rule try_receive_run [OF p peer(2) ch(4) peer(1) _ ok _ _ _ _ ks, of "[]" ba' ha' de])
      (use ch(6) v(2) mem(2) in \<open>simp_all add: add_message_def buffers_def\<close>)
  then have r: "try_receive (bits p) (syscall_body p b) de ch' ba' ha' ?k1 = Inr (Inr (Some (renamed f v)),
      (update_object (update_object ?k1 b (TaskObj (u\<lparr>t_handles := U\<rparr>))) peer (ChannelObj (add_message c' ?m\<lparr>messages := []\<rparr>)))\<lparr>user_memory := mem2\<rparr>)"
    unfolding from_wire_items [OF v(1) hs4(1) f] by simp
  let ?k2 = "(update_object (update_object ?k1 b (TaskObj (u\<lparr>t_handles := U\<rparr>))) peer (ChannelObj (add_message c' ?m\<lparr>messages := []\<rparr>)))\<lparr>user_memory := mem2\<rparr>"
  have "handles_get U (f h) = handles_get (t_handles t) h" if h: "h \<in> set (given ?xs)" for h
  proof -
    obtain i where i: "i < length (given ?xs)" "h = given ?xs ! i" using h unfolding in_set_conv_nth by blast
    then have "f h = ks ! i" "handles_get (t_handles t) h = Some (rs ! i)" using f s(2) len by (metis nth_map)+
    moreover have "map_of (zip ks rs) (ks ! i) = Some (rs ! i)" using added(1,2) i(1) len by (intro map_of_zip_nth) simp_all
    ultimately show ?thesis by (simp add: added(3))
  qed
  moreover have "queues ?k2 = queues k"
    using a b(1) ch(5,6) queues_Some [OF ch(5)] peer(3,4) by (auto simp: fun_eq_iff queues_def update_object_def)
  moreover have "heap ?k2 a = Some (TaskObj (t\<lparr>t_handles := T\<rparr>))" "heap ?k2 b = Some (TaskObj (u\<lparr>t_handles := U\<rparr>))"
    using peer(3,4) b(2) by simp_all
  ultimately show ?thesis using s(1,3) r by (intro exI [of _ ?k1] exI [of _ ?k2] exI [of _ f] exI [of _ T] exI [of _ U]) simp
qed

lemma send_blocks:
  assumes p: "bit_field (bits p) (\<lambda>_. 64) (bit :: usize \<Rightarrow> nat \<Rightarrow> bool)" and inv: "kernel_inv k" and link: "linked k a t ch b u ch'"
    and v: "2048 < wire_length (items v)" "wire_length (items v) \<le> 4096"
    and hs: "sendable (t_handles t) ch (given (items v))" and mem: "buffers ba ha (wire_length (items v))"
  obtains k1 r m where "typed_send (syscall_body p a) ser ch ba ha v k = Inr (Inr (), k1)" "kernel_inv k1"
    "heap k1 b = Some (TaskObj u)" "handles_get (t_handles u) ch' = Some r" "msg_bytes m = wire_bytes 0 (items v)" "stuck r m k1"
proof -
  let ?xs = "items v"
  have a: "heap k a = Some (TaskObj t)" and b: "heap k b = Some (TaskObj u)" "a \<noteq> b" using link by (simp_all add: linked_def)
  obtain r c peer c' where ch: "handles_get (t_handles t) ch = Some r" "heap k r = Some (ChannelObj c)" "other_end c = Some peer"
      "handles_get (t_handles u) ch' = Some peer" "heap k peer = Some (ChannelObj c')" "messages c' = []"
    using link by (auto simp: linked_def)
  have hs4: "length (given ?xs) \<le> 4" "distinct (ch # given ?xs)" "set (given ?xs) \<subseteq> dom (handles_get (t_handles t))"
    using hs(1) by (simp_all add: sendable_def)
  obtain rs T mem' where s: "typed_send (syscall_body p a) ser ch ba ha v k = Inr (Inr (),
        (update_object (update_object k a (TaskObj (t\<lparr>t_handles := T\<rparr>))) peer
          (ChannelObj (add_message c' \<lparr>msg_bytes = wire_bytes 0 ?xs, handle_objects = objects_array rs\<rparr>)))\<lparr>user_memory := mem'\<rparr>)"
    by (rule typed_send_run [of ser v ?xs, OF ser_items hs4(1) _ _ a ch(1-3,5) hs4(2,3), of ba ha p]) (use v(2) mem(1) in \<open>simp_all add: buffers_def\<close>)
  let ?m = "\<lparr>msg_bytes = wire_bytes 0 ?xs, handle_objects = objects_array rs\<rparr>"
  let ?k1 = "(update_object (update_object k a (TaskObj (t\<lparr>t_handles := T\<rparr>))) peer (ChannelObj (add_message c' ?m)))\<lparr>user_memory := mem'\<rparr>"
  have "stuck peer ?m ?k1" using ch(6) by (simp add: stuck_def add_message_def)
  moreover have "heap ?k1 b = Some (TaskObj u)" using b ch(5) by auto
  ultimately show thesis by (intro that [of ?k1 peer ?m, OF s typed_send_inv [OF inv a s] _ ch(4)]) simp_all
qed

end

interpretation bus_driver: message_type serialize_bus_driver_message deserialize_bus_driver_message
  bus_driver_items bus_driver_ok bus_driver_renamed
  by unfold_locales (rule emits_bus_driver, rule reads_bus_driver)

interpretation device_driver: message_type serialize_device_driver_message deserialize_device_driver_message
  device_driver_items device_driver_ok "\<lambda>f m. m"
  by unfold_locales (rule emits_device_driver, rule reads_device_driver)

interpretation device_request: message_type serialize_device_driver_request deserialize_device_driver_request
  request_items request_ok request_renamed
  by unfold_locales (rule emits_request, rule reads_request)

interpretation service_request: message_type serialize_service_host_request deserialize_service_host_request
  service_request_items service_request_ok "\<lambda>f m. m"
  by unfold_locales (rule emits_service_request, rule reads_service_request)

interpretation service_response: message_type serialize_service_host_response deserialize_service_host_response
  service_response_items "\<lambda>m. True" service_response_renamed
  by unfold_locales (rule emits_service_response, rule reads_service_response)

interpretation service_message: message_type serialize_service_channel_message deserialize_service_channel_message
  service_message_items service_message_ok service_message_renamed
  by unfold_locales (rule emits_service_message, rule reads_service_message)

subsection \<open>Properties\<close>

lemma given_concat: "given (concat xss) = concat (map given xss)"
  by (induction xss) simp_all

lemma str_wire: "given (str_items v) = []" "length (wire_bytes n (str_items v)) = 4 + length v"
  by (simp_all add: str_items_def length_item_def wire_bytes_put)

text \<open>C8: a request of the platform bus, the handoff of a device with its handles included, that one task sends over a
  channel is received by the task at the other end as it was sent: serialization, system call, queue,
  system call and deserialization together lose and change nothing, and nothing panics.  The handles in
  it are gone from the table of the sender, and those in the received value denote the same objects in
  the table of the receiver.\<close>

theorem request_delivered:
  assumes "bit_field (bits p) (\<lambda>_. 64) (bit :: usize \<Rightarrow> nat \<Rightarrow> bool)" and "linked k a t ch b u ch'"
    and "request_ok v" and "wire_length (request_items v) \<le> 2048"
    and "sendable (t_handles t) ch (given (request_items v))" and "can_take (t_handles u) (length (given (request_items v)))"
    and "buffers ba ha (wire_length (request_items v))" and "buffers ba' ha' 2048"
  shows "\<exists>k1 k2 f T U. typed_send (syscall_body p a) serialize_device_driver_request ch ba ha v k = Inr (Inr (), k1) \<and>
    try_receive (bits p) (syscall_body p b) deserialize_device_driver_request ch' ba' ha' k1 = Inr (Inr (Some (request_renamed f v)), k2) \<and>
    heap k2 a = Some (TaskObj (t\<lparr>t_handles := T\<rparr>)) \<and> heap k2 b = Some (TaskObj (u\<lparr>t_handles := U\<rparr>)) \<and>
    (\<forall>h \<in> set (given (request_items v)). handles_get T h = None \<and> handles_get U (f h) = handles_get (t_handles t) h) \<and>
    queues k2 = queues k"
  using assms by (rule device_request.send_receive)

lemma apart_below:
  assumes "unat a + n \<le> unat b" and "unat b + m < 2 ^ 64"
  shows "apart a n b m"
  unfolding apart_def
proof (intro allI impI notI)
  fix i j assume i: "i < n" and j: "j < m" and eq: "a + of_nat i = b + of_nat j"
  have "unat (a + of_nat i) = unat a + i" "unat (b + of_nat j) = unat b + j"
    using assms i j by (simp_all add: unat_word_ariths unsigned_of_nat take_bit_nat_eq_self)
  then show False using eq assms(1) i by simp
qed

definition sample_peers :: "(unit, unit) kernel" where
  "sample_peers = update_object sample_kernel 3 (TaskObj (sample_task 4 2 Ready \<lparr>table = [1 \<mapsto> 5], next_handle = 2\<rparr>))"

lemma sample_linked:
  "linked sample_peers 1 (sample_task 2 0 Running \<lparr>table = [1 \<mapsto> 4, 2 \<mapsto> 5, 3 \<mapsto> 6, 4 \<mapsto> 7, 5 \<mapsto> 8], next_handle = 6\<rparr>) 1
     3 (sample_task 4 2 Ready \<lparr>table = [1 \<mapsto> 5], next_handle = 2\<rparr>) 1"
  by (simp add: linked_def sample_peers_def sample_kernel_def sample_heap_def sample_task_def handles_get_def)

lemma sample_peers_inv: "kernel_inv sample_peers"
proof -
  have "heap sample_kernel 3 = Some (TaskObj (sample_task 4 2 Ready handles_new))" by (simp add: sample_kernel_def sample_heap_def)
  then show ?thesis
    unfolding sample_peers_def
    by (rule kernel_inv_update [OF sample_inv]) (auto simp: same_core_def sample_task_def sample_views ran_def split: if_splits)
qed

text \<open>A device with one event is handed over.\<close>

theorem request_delivered_witness:
  "\<exists>k1 k2 h. typed_send (syscall_body sample_platform 1) serialize_device_driver_request 1 0x1000 0x3000
      (HandoffDevice [0x75] [] [([0x65], HandEvent 3)]) sample_peers = Inr (Inr (), k1) \<and>
    try_receive (bits sample_platform) (syscall_body sample_platform 3) deserialize_device_driver_request 1 0x1000 0x3000 k1 =
      Inr (Inr (Some (HandoffDevice [0x75] [] [([0x65], HandEvent h)])), k2)"
proof -
  let ?v = "HandoffDevice [0x75] [] [([0x65], HandEvent 3)]"
  have items: "given (request_items ?v) = [3]" "wire_length (request_items ?v) \<le> 64"
    by (simp_all add: str_items_def seq_items_def pair_items_def length_item_def tag_item_def)
  have ok: "request_ok ?v" by (simp add: map_ok_def string_ok_def)
  have mem: "buffers 0x1000 0x3000 n" if "n \<le> 2048" for n
    using that by (simp add: buffers_def apart_below)
  let ?T = "\<lparr>table = [1 \<mapsto> 4, 2 \<mapsto> 5, 3 \<mapsto> 6, 4 \<mapsto> 7, 5 \<mapsto> 8], next_handle = 6\<rparr> :: handles"
  have s: "sendable (t_handles (sample_task 2 0 Running ?T)) 1 (given (request_items ?v))"
    unfolding items by (simp add: sendable_def sample_task_def handles_get_def dom_def)
  have c: "can_take (t_handles (sample_task 4 2 Ready \<lparr>table = [1 \<mapsto> 5], next_handle = 2\<rparr>)) (length (given (request_items ?v)))"
    unfolding items by (simp add: can_take_def sample_task_def handles_inv_def handles_room_def)
  have l: "wire_length (request_items ?v) \<le> 2048" using items(2) by linarith
  obtain k1 k2 f where "typed_send (syscall_body sample_platform 1) serialize_device_driver_request 1 0x1000 0x3000 ?v sample_peers = Inr (Inr (), k1)"
      "try_receive (bits sample_platform) (syscall_body sample_platform 3) deserialize_device_driver_request 1 0x1000 0x3000 k1 =
        Inr (Inr (Some (request_renamed f ?v)), k2)"
    using request_delivered [OF sample_bits sample_linked ok l s c mem [OF l] mem [OF order_refl]] by blast
  then show ?thesis by auto
qed

text \<open>C38: a value of any type of messages that takes more than 2048 bytes, which the system calls accept up to 4096, is
  sent, but then blocks the receiving end.  Whatever tasks send or try to receive after it, in whatever
  order and with preemptions in between, its message is still the first one in the queue; and at any
  such point every attempt of any task to receive from this end, for any type of messages, fails with
  \<open>BytesBufferTooSmall\<close> and changes no queue.\<close>

theorem oversized_message_blocks:
  fixes de' :: "'r deserialize"
  assumes "bit_field (bits p) (\<lambda>_. 64) (bit :: usize \<Rightarrow> nat \<Rightarrow> bool)" and "message_type ser de items ok renamed"
    and "kernel_inv k" and "linked k a t ch b u ch'"
    and "2048 < wire_length (items v)" and "wire_length (items v) \<le> 4096"
    and "sendable (t_handles t) ch (given (items v))" and "buffers ba ha (wire_length (items v))"
  shows "\<exists>k1 r m. typed_send (syscall_body p a) ser ch ba ha v k = Inr (Inr (), k1) \<and>
    heap k1 b = Some (TaskObj u) \<and> handles_get (t_handles u) ch' = Some r \<and> msg_bytes m = wire_bytes 0 (items v) \<and>
    (\<forall>k2. traffic p k1 k2 \<longrightarrow> (\<exists>ms. queues k2 r = Some (m # ms)) \<and>
      (\<forall>me t2 ch2 ba2 ha2. heap k2 me = Some (TaskObj t2) \<and> handles_get (t_handles t2) ch2 = Some r \<and> ba2 \<noteq> 0 \<and> ha2 \<noteq> 0 \<longrightarrow>
        (\<exists>k3. try_receive (bits p) (syscall_body p me) de' ch2 ba2 ha2 k2 = Inr (Inl (ReceiveError BytesBufferTooSmall), k3) \<and>
          queues k3 = queues k2)))"
proof -
  obtain k1 r m where s: "typed_send (syscall_body p a) ser ch ba ha v k = Inr (Inr (), k1)" "kernel_inv k1"
      "heap k1 b = Some (TaskObj u)" "handles_get (t_handles u) ch' = Some r" "msg_bytes m = wire_bytes 0 (items v)" "stuck r m k1"
    by (rule message_type.send_blocks [OF assms(2,1,3-8)])
  have long: "BYTES_BUFFER_SIZE < length (msg_bytes m)" using s(5) assms(5) by (simp add: BYTES_BUFFER_SIZE_def)
  have st: "stuck r m k2" if "traffic p k1 k2" for k2 using traffic_stuck [OF that assms(1) s(2,6) long] by blast
  then have "\<exists>ms. queues k2 r = Some (m # ms)" if "traffic p k1 k2" for k2 using that by (simp add: stuck_def)
  moreover have "\<exists>k3. try_receive (bits p) (syscall_body p me) de' ch2 ba2 ha2 k2 = Inr (Inl (ReceiveError BytesBufferTooSmall), k3) \<and>
      queues k3 = queues k2"
    if "traffic p k1 k2" "heap k2 me = Some (TaskObj t2)" "handles_get (t_handles t2) ch2 = Some r" "ba2 \<noteq> 0" "ha2 \<noteq> 0" for k2 me t2 ch2 ba2 ha2
    using that by (intro stuck_fails [OF assms(1) st long])
  ultimately show ?thesis using s(1,3-5) by (intro exI [of _ k1] exI [of _ r] exI [of _ m]) blast
qed

theorem oversized_message_blocks_witness:
  "\<exists>k1 k3. typed_send (syscall_body sample_platform 1) serialize_bus_driver_message 1 0x1000 0x3000
      (RegisterDevice (replicate 3000 0x61) [] []) sample_peers = Inr (Inr (), k1) \<and>
    try_receive (bits sample_platform) (syscall_body sample_platform 3) deserialize_bus_driver_message 1 0x1000 0x3000 k1 =
      Inr (Inl (ReceiveError BytesBufferTooSmall), k3)"
proof -
  let ?v = "RegisterDevice (replicate 3000 0x61) [] []"
  have items: "given (bus_driver_items ?v) = []" "wire_length (bus_driver_items ?v) = 3016"
    by (simp_all add: str_wire seq_items_def pair_items_def length_item_def tag_item_def)
  have mem: "buffers 0x1000 0x3000 n" if "n \<le> 3016" for n
    using that by (simp add: buffers_def apart_below)
  have "sendable (t_handles (sample_task 2 0 Running \<lparr>table = [1 \<mapsto> 4, 2 \<mapsto> 5, 3 \<mapsto> 6, 4 \<mapsto> 7, 5 \<mapsto> 8], next_handle = 6\<rparr>)) 1 (given (bus_driver_items ?v))"
    unfolding items by (simp add: sendable_def)
  note s = this
  have l: "2048 < wire_length (bus_driver_items ?v)" "wire_length (bus_driver_items ?v) \<le> 4096" "wire_length (bus_driver_items ?v) \<le> 3016"
    unfolding items(2) by simp_all
  obtain k1 r m where k1: "typed_send (syscall_body sample_platform 1) serialize_bus_driver_message 1 0x1000 0x3000 ?v sample_peers = Inr (Inr (), k1)"
      "heap k1 3 = Some (TaskObj (sample_task 4 2 Ready \<lparr>table = [1 \<mapsto> 5], next_handle = 2\<rparr>))"
      "handles_get (t_handles (sample_task 4 2 Ready \<lparr>table = [1 \<mapsto> 5], next_handle = 2\<rparr>)) 1 = Some r"
    and rest: "\<forall>k2. traffic sample_platform k1 k2 \<longrightarrow> (\<exists>ms. queues k2 r = Some (m # ms)) \<and>
      (\<forall>me t2 ch2 ba2 ha2. heap k2 me = Some (TaskObj t2) \<and> handles_get (t_handles t2) ch2 = Some r \<and> ba2 \<noteq> 0 \<and> ha2 \<noteq> 0 \<longrightarrow>
        (\<exists>k3. try_receive (bits sample_platform) (syscall_body sample_platform me) deserialize_bus_driver_message ch2 ba2 ha2 k2 =
          Inr (Inl (ReceiveError BytesBufferTooSmall), k3) \<and> queues k3 = queues k2))"
    using oversized_message_blocks [where de' = deserialize_bus_driver_message, OF sample_bits bus_driver.message_type_axioms
        sample_peers_inv sample_linked l(1,2) s mem [OF l(3)]]
    by (elim exE conjE) (rule that)
  have "\<exists>k3. try_receive (bits sample_platform) (syscall_body sample_platform 3) deserialize_bus_driver_message 1 0x1000 0x3000 k1 =
      Inr (Inl (ReceiveError BytesBufferTooSmall), k3)"
    using conjunct2 [OF mp [OF spec [OF rest] traffic.start], rule_format, OF conjI [OF k1(2) conjI [OF k1(3)]], of "0x1000" "0x3000"] by auto
  then show ?thesis using k1(1) by blast
qed

text \<open>C27: the manifest that the kernel writes for the first task is what this task reads: serialization into a vector never
  fails, \<open>serialized_size\<close> computes its length, and deserialization gives the manifest back.\<close>

theorem manifest_roundtrip:
  assumes "manifest_ok m" and "wire_length (manifest_items m) < 2 ^ 64"
  shows "\<exists>n bs. to_wire serialize_bootstrap_manifest vec_writer m [] = Inr (Inr n, bs) \<and> n = of_nat (length bs) \<and>
    serialized_size serialize_bootstrap_manifest m = Inr (Inr n) \<and>
    from_wire deserialize_bootstrap_manifest bs [] = Inr (Inr m)"
proof -
  have none: "given (manifest_items m) = []"
    by (simp add: manifest_items_def boot_task_items_def segment_items_def seq_items_def pair_items_def
        length_item_def str_wire given_concat)
  obtain n bs where t: "to_wire serialize_bootstrap_manifest vec_writer m [] = Inr (Inr n, bs)"
    using vec.to_wire_exact(1) [of serialize_bootstrap_manifest m "manifest_items m" "[]", OF emits_manifest] none by auto
  from vec.to_wire_exact(2) [of serialize_bootstrap_manifest m "manifest_items m" "[]", OF emits_manifest _ t]
  have bs: "bs = wire_bytes 0 (manifest_items m)" "n = of_nat (length bs)" by simp_all
  have "from_wire deserialize_bootstrap_manifest bs [] = Inr (Inr m)"
    unfolding bs(1) by (rule reads_from_wire [OF reads_manifest [OF assms(1)]]) (simp_all add: none)
  moreover have "serialized_size serialize_bootstrap_manifest m = Inr (Inr n)"
    unfolding bs by (rule serialized_size_eq [of serialize_bootstrap_manifest, OF emits_manifest assms(2)])
  ultimately show ?thesis using t bs(2) by blast
qed

theorem manifest_roundtrip_witness:
  "\<exists>bs. to_wire serialize_bootstrap_manifest vec_writer
      \<lparr>task_name = [0x61], boot_tasks = [\<lparr>bt_name = [0x62], bt_entry_point = 0x1000, bt_segments = [(0x2000, 3)]\<rparr>]\<rparr> [] = Inr (Inr 38, bs)"
proof -
  let ?m = "\<lparr>task_name = [0x61], boot_tasks = [\<lparr>bt_name = [0x62], bt_entry_point = 0x1000, bt_segments = [(0x2000, 3)]\<rparr>]\<rparr>"
  have l: "wire_length (manifest_items ?m) = 38"
    by (simp add: manifest_items_def boot_task_items_def segment_items_def str_items_def seq_items_def pair_items_def length_item_def)
  have ok: "manifest_ok ?m" by (simp add: manifest_ok_def boot_task_ok_def string_ok_def)
  obtain n bs where "to_wire serialize_bootstrap_manifest vec_writer ?m [] = Inr (Inr n, bs)"
      "serialized_size serialize_bootstrap_manifest ?m = Inr (Inr n)"
    using manifest_roundtrip [OF ok] l by auto
  moreover have "serialized_size serialize_bootstrap_manifest ?m = Inr (Inr 38)"
    using serialized_size_eq [of serialize_bootstrap_manifest, OF emits_manifest] l by simp
  ultimately show ?thesis by auto
qed

text \<open>The receiver of a message is not safe from its sender: a byte for a handle that is not one of the four slots makes
  the deserialization panic instead of returning \<open>InvalidHandleSlot\<close>.\<close>

lemma bad_slot_panics:
  assumes "slot \<notin> {0xf0, 0xf1, 0xf2, 0xf3}"
  shows "deserialize_Handle \<lparr>de_bytes = slot # bs, de_handles = handles\<rparr> = Inl ExplicitPanic"
  using assms by (simp add: deserialize_Handle_def deserialize_handle_def deserialize_u8_def take_byte_def sbind_def slift_def
      index_from_handle_slot_def ptah_consts)

end
