(* ===== verification/Platform_Bus.thy ===== *)
theory Platform_Bus
  imports Poplar_Channel
begin

text \<open>
  \<open>user/platform_bus/src/main.rs\<close>: the task that brings devices and their drivers together.  Bus drivers
  register devices, device drivers register filters and are asked about devices that match, and the
  first driver that says it supports a device gets it.  The asynchronous loops of the program are the
  steps of a relation, one for each message that is received, because the runtime of a task switches
  between them only where they wait.  Requests go out through \<open>send\<close>, the \<open>send\<close> of the channel of a
  driver (\<open>typed_send\<close> of \<open>Poplar_Channel\<close>), whose errors are unwrapped; what is proved holds for
  every such function.
\<close>

subsection \<open>State\<close>

record bus_driver =
  bd_name :: rust_string
  bd_channel :: handle

record device_driver =
  dd_name :: rust_string
  dd_filters :: "device_filter list option"
  dd_channel :: handle

datatype device =
    Unclaimed nat device_info handoff_info
  | Claimed nat device_info nat

definition is_claimed :: "device \<Rightarrow> bool" where
  "is_claimed d = (case d of Unclaimed _ _ _ \<Rightarrow> False | Claimed _ _ _ \<Rightarrow> True)"

record platform_bus =
  bus_drivers :: "bus_driver list"
  device_drivers :: "device_driver list"
  devices :: "(rust_string \<times> device) list"

type_synonym 'e send_request = "handle \<Rightarrow> device_driver_request \<Rightarrow> ('e, channel_send_error, unit) sys"

definition platform_bus_new :: platform_bus where
  "platform_bus_new = \<lparr>bus_drivers = [], device_drivers = [], devices = []\<rparr>"

subsection \<open>Operations\<close>

definition register_bus_driver :: "rust_string \<Rightarrow> handle \<Rightarrow> platform_bus \<Rightarrow> nat \<times> platform_bus" where
  "register_bus_driver name channel b =
     (length (bus_drivers b), b\<lparr>bus_drivers := bus_drivers b @ [\<lparr>bd_name = name, bd_channel = channel\<rparr>]\<rparr>)"

definition register_device_driver :: "rust_string \<Rightarrow> handle \<Rightarrow> platform_bus \<Rightarrow> nat \<times> platform_bus" where
  "register_device_driver name channel b =
     (length (device_drivers b),
      b\<lparr>device_drivers := device_drivers b @ [\<lparr>dd_name = name, dd_filters = None, dd_channel = channel\<rparr>]\<rparr>)"

definition register_device :: "rust_string \<Rightarrow> device \<Rightarrow> platform_bus \<Rightarrow> platform_bus" where
  "register_device name device b = b\<lparr>devices := btree_insert name device (devices b)\<rparr>"

text \<open>The loop over the filters of a driver, which ends at the first one that matches.\<close>

primrec matches_filter :: "device_info \<Rightarrow> device_filter list \<Rightarrow> bool" where
  "matches_filter info [] = False"
| "matches_filter info (f # fs) = (if match_against f info then True else matches_filter info fs)"

definition check_driver :: "'e send_request \<Rightarrow> rust_string \<Rightarrow> device_info \<Rightarrow> device_driver \<Rightarrow> ('e, 'x, unit) sys" where
  "check_driver send name info driver =
     sbind (slift (runwrap (dd_filters driver))) (\<lambda>filters.
       if matches_filter info filters then sunwrap (send (dd_channel driver) (QuerySupport name info)) else sreturn ())"

definition check_device :: "'e send_request \<Rightarrow> device_driver list \<Rightarrow> rust_string \<times> device \<Rightarrow> ('e, 'x, unit) sys" where
  "check_device send drivers nd =
     (case snd nd of
        Claimed _ _ _ \<Rightarrow> sreturn ()
      | Unclaimed _ info _ \<Rightarrow>
          sbind (sfor (filter (\<lambda>d. dd_filters d \<noteq> None) drivers) (check_driver send (fst nd) info)) (\<lambda>_. sreturn ()))"

definition check_devices :: "'e send_request \<Rightarrow> platform_bus \<Rightarrow> ('e, 'x, unit) sys" where
  "check_devices send b = sbind (sfor (devices b) (check_device send (device_drivers b))) (\<lambda>_. sreturn ())"

record device_inspect =
  di_name :: rust_string
  di_claimed :: bool
  di_properties :: device_info

record platform_bus_inspect =
  pi_devices :: "device_inspect list"
  pi_bus_drivers :: "rust_string list"
  pi_device_drivers :: "(rust_string \<times> device_filter list option) list"

definition inspect :: "platform_bus \<Rightarrow> platform_bus_inspect" where
  "inspect b = \<lparr>
     pi_devices = map (\<lambda>(name, d).
       case d of
         Unclaimed _ info _ \<Rightarrow> \<lparr>di_name = name, di_claimed = False, di_properties = info\<rparr>
       | Claimed _ info _ \<Rightarrow> \<lparr>di_name = name, di_claimed = True, di_properties = info\<rparr>) (devices b),
     pi_bus_drivers = [], pi_device_drivers = []\<rparr>"

subsection \<open>Messages\<close>

definition on_bus_driver_message ::
  "'e send_request \<Rightarrow> nat \<Rightarrow> bus_driver_message \<Rightarrow> platform_bus \<Rightarrow> 'e \<Rightarrow> panic + (platform_bus \<times> 'e)" where
  "on_bus_driver_message send bus_driver_index m b e =
     (case m of RegisterDevice name info handoff \<Rightarrow>
        let b' = register_device name (Unclaimed bus_driver_index info handoff) b in
        rbind (check_devices send b' e) (\<lambda>(r :: unit + unit, e'). Inr (b', e')))"

definition on_device_driver_message ::
  "'e send_request \<Rightarrow> nat \<Rightarrow> device_driver_message \<Rightarrow> platform_bus \<Rightarrow> 'e \<Rightarrow> panic + (platform_bus \<times> 'e)" where
  "on_device_driver_message send device_driver_index m b e =
     (case m of
        RegisterInterest filters \<Rightarrow>
          rbind (rindex (device_drivers b) device_driver_index) (\<lambda>driver.
            let b' = (if dd_filters driver = None
              then b\<lparr>device_drivers := (device_drivers b)[device_driver_index := driver\<lparr>dd_filters := Some filters\<rparr>]\<rparr>
              else b) in
            rbind (check_devices send b' e) (\<lambda>(r :: unit + unit, e'). Inr (b', e')))
      | CanSupport device_name does_support \<Rightarrow>
          if \<not> does_support then Inr (b, e)
          else
            rbind (rindex (device_drivers b) device_driver_index) (\<lambda>driver.
            rbind (runwrap (map_of (devices b) device_name)) (\<lambda>device.
              case device of
                Claimed _ _ _ \<Rightarrow> Inr (b, e)
              | Unclaimed bus_driver info handoff \<Rightarrow>
                  let b' = b\<lparr>devices := btree_insert device_name (Claimed bus_driver info device_driver_index) (devices b)\<rparr> in
                  rbind (sunwrap (send (dd_channel driver) (HandoffDevice device_name info handoff)) e)
                    (\<lambda>(r :: unit + unit, e'). Inr (b', e')))))"

subsection \<open>Runs\<close>

datatype bus_event =
    NewBusDriver rust_string handle
  | NewDeviceDriver rust_string handle
  | FromBusDriver nat bus_driver_message
  | FromDeviceDriver nat device_driver_message

text \<open>A loop that listens to a driver is started with the index the driver was registered at.\<close>

inductive bus_step :: "'e send_request \<Rightarrow> bus_event \<Rightarrow> platform_bus \<times> 'e \<Rightarrow> platform_bus \<times> 'e \<Rightarrow> bool" for send where
  new_bus_driver: "register_bus_driver name channel b = (i, b') \<Longrightarrow> bus_step send (NewBusDriver name channel) (b, e) (b', e)"
| new_device_driver: "register_device_driver name channel b = (i, b') \<Longrightarrow> bus_step send (NewDeviceDriver name channel) (b, e) (b', e)"
| from_bus_driver: "i < length (bus_drivers b) \<Longrightarrow> on_bus_driver_message send i m b e = Inr (b', e') \<Longrightarrow>
    bus_step send (FromBusDriver i m) (b, e) (b', e')"
| from_device_driver: "i < length (device_drivers b) \<Longrightarrow> on_device_driver_message send i m b e = Inr (b', e') \<Longrightarrow>
    bus_step send (FromDeviceDriver i m) (b, e) (b', e')"

inductive bus_run :: "'e send_request \<Rightarrow> platform_bus \<times> 'e \<Rightarrow> bus_event list \<Rightarrow> platform_bus \<times> 'e \<Rightarrow> bool" for send s0 where
  start: "bus_run send s0 [] s0"
| step: "bus_run send s0 evs s \<Longrightarrow> bus_step send ev s s' \<Longrightarrow> bus_run send s0 (evs @ [ev]) s'"

subsection \<open>What is sent\<close>

text \<open>Any \<open>send\<close>, with a record of what it sent.\<close>

type_synonym bus_log = "(handle \<times> device_driver_request) list"

definition logged :: "'e send_request \<Rightarrow> ('e \<times> bus_log) send_request" where
  "logged send channel request = (\<lambda>(e, l).
     rbind (send channel request e) (\<lambda>(r, e').
       Inr (r, (e', case r of Inl _ \<Rightarrow> l | Inr _ \<Rightarrow> l @ [(channel, request)]))))"

definition reliable :: "'e send_request \<Rightarrow> bool" where
  "reliable send \<longleftrightarrow> (\<forall>channel request e. \<exists>e'. send channel request e = Inr (Inr (), e'))"

text \<open>A computation that can only succeed, with \<open>xs\<close> sent.\<close>

definition sends :: "('e \<times> bus_log, 'x, 'a) sys \<Rightarrow> bus_log \<Rightarrow> bool" where
  "sends m xs \<longleftrightarrow> (\<forall>e l r e' l'. m (e, l) = Inr (r, (e', l')) \<longrightarrow> (\<exists>v. r = Inr v) \<and> l' = l @ xs)"

lemma sendsD: "sends m xs \<Longrightarrow> m (e, l) = Inr (r, (e', l')) \<Longrightarrow> l' = l @ xs"
  by (simp add: sends_def)

lemma sends_return: "sends (sreturn v) []"
  by (simp add: sends_def sreturn_def)

lemma sends_logged: "sends (sunwrap (logged send channel request)) [(channel, request)]"
  by (auto simp: sends_def sunwrap_def logged_def rust_simps case_sum_eq)

lemma sends_bind:
  assumes "sends m xs" and "\<And>v. sends (g v) ys"
  shows "sends (sbind m g) (xs @ ys)"
  unfolding sends_def
proof (intro allI impI)
  fix e l r e' l' assume "sbind m g (e, l) = Inr (r, (e', l'))"
  then obtain r1 e1 l1 where m: "m (e, l) = Inr (r1, (e1, l1))"
      and g: "(case r1 of Inl x \<Rightarrow> Inr (Inl x, (e1, l1)) | Inr v \<Rightarrow> g v (e1, l1)) = Inr (r, (e', l'))"
    by (auto simp: sbind_def rust_simps)
  obtain v where v: "r1 = Inr v" "l1 = l @ xs" using assms(1) m unfolding sends_def by blast
  have "(\<exists>v. r = Inr v) \<and> l' = l1 @ ys" using assms(2) g unfolding sends_def v(1) sum.case by blast
  then show "(\<exists>v. r = Inr v) \<and> l' = l @ xs @ ys" using v(2) by simp
qed

lemma sends_for: "(\<And>x. x \<in> set xs \<Longrightarrow> sends (f x) (g x)) \<Longrightarrow> sends (sfor xs f) (concat (map g xs))"
proof (induction xs)
  case (Cons x xs)
  have rest: "sends (sbind (sfor xs f) (\<lambda>ys. sreturn (y # ys))) (concat (map g xs) @ [])" for y
    by (rule sends_bind [OF Cons.IH sends_return]) (use Cons.prems in simp)
  have "sends (f x) (g x)" by (rule Cons.prems) simp
  from sends_bind [OF this rest] show ?case by simp
qed (simp add: sends_return)

lemma sends_unit: "sends m xs \<Longrightarrow> sends (sbind m (\<lambda>_. sreturn ())) xs"
  using sends_bind [of m xs "\<lambda>_. sreturn ()" "[]"] by (simp add: sends_return)

lemma matches_filter_any: "matches_filter info fs \<longleftrightarrow> (\<exists>f \<in> set fs. match_against f info)"
  by (induction fs) auto

text \<open>The drivers that are asked about a device.\<close>

definition interested :: "device_info \<Rightarrow> device_driver \<Rightarrow> bool" where
  "interested info d \<longleftrightarrow> (\<exists>fs. dd_filters d = Some fs \<and> (\<exists>f \<in> set fs. match_against f info))"

definition queries :: "device_driver list \<Rightarrow> rust_string \<times> device \<Rightarrow> bus_log" where
  "queries drivers nd =
     (case snd nd of
        Claimed _ _ _ \<Rightarrow> []
      | Unclaimed _ info _ \<Rightarrow> map (\<lambda>d. (dd_channel d, QuerySupport (fst nd) info)) (filter (interested info) drivers))"

lemma check_driver_eq:
  "dd_filters d \<noteq> None \<Longrightarrow> check_driver send name info d =
     (if interested info d then sunwrap (send (dd_channel d) (QuerySupport name info)) else sreturn ())"
  by (auto simp: check_driver_def slift_def sbind_def sreturn_def matches_filter_any interested_def fun_eq_iff)

lemma sends_check_driver:
  "dd_filters d \<noteq> None \<Longrightarrow> sends (check_driver (logged send) name info d)
     (if interested info d then [(dd_channel d, QuerySupport name info)] else [])"
  by (subst check_driver_eq) (simp_all add: sends_logged sends_return)

lemma concat_queries:
  "concat (map (\<lambda>d. if interested info d then [f d] else []) (filter (\<lambda>d. dd_filters d \<noteq> None) ds)) = map f (filter (interested info) ds)"
  by (induction ds) (auto simp: interested_def)

lemma sends_check_device: "sends (check_device (logged send) drivers nd) (queries drivers nd)"
proof (cases "snd nd")
  case (Unclaimed bd info h)
  have "sends (sfor (filter (\<lambda>d. dd_filters d \<noteq> None) drivers) (check_driver (logged send) (fst nd) info))
      (concat (map (\<lambda>d. if interested info d then [(dd_channel d, QuerySupport (fst nd) info)] else []) (filter (\<lambda>d. dd_filters d \<noteq> None) drivers)))"
    by (rule sends_for) (simp add: sends_check_driver)
  from sends_unit [OF this] show ?thesis
    unfolding concat_queries by (simp only: check_device_def queries_def Unclaimed device.case)
qed (simp add: check_device_def queries_def sends_return)

lemma sends_check_devices: "sends (check_devices (logged send) b) (concat (map (queries (device_drivers b)) (devices b)))"
  unfolding check_devices_def by (intro sends_unit sends_for sends_check_device)

text \<open>With a \<open>send\<close> that never fails nothing panics.\<close>

definition returns :: "('k, 'x, 'a) sys \<Rightarrow> bool" where
  "returns m \<longleftrightarrow> (\<forall>k. \<exists>v k'. m k = Inr (Inr v, k'))"

lemma returns_return: "returns (sreturn v)"
  by (simp add: returns_def sreturn_def)

lemma returns_bind: "returns m \<Longrightarrow> (\<And>v. returns (g v)) \<Longrightarrow> returns (sbind m g)"
  unfolding returns_def sbind_def by (metis (no_types, lifting) case_prod_conv rbind_simps(2) sum.case(2))

lemma returns_for: "(\<And>x. x \<in> set xs \<Longrightarrow> returns (f x)) \<Longrightarrow> returns (sfor xs f)"
  by (induction xs) (simp_all add: returns_return returns_bind)

lemma returns_logged:
  assumes "reliable send"
  shows "returns (sunwrap (logged send channel request))"
  unfolding returns_def
proof
  fix s :: "'a \<times> bus_log"
  obtain e l where s: "s = (e, l)" by fastforce
  obtain e' where "send channel request e = Inr (Inr (), e')" using assms unfolding reliable_def by blast
  then show "\<exists>v s'. sunwrap (logged send channel request) s = Inr (Inr v, s')" by (simp add: s sunwrap_def logged_def)
qed

lemma returns_check_driver: "reliable send \<Longrightarrow> dd_filters d \<noteq> None \<Longrightarrow> returns (check_driver (logged send) name info d)"
  by (subst check_driver_eq) (simp_all add: returns_logged returns_return)

lemma returns_check_device: "reliable send \<Longrightarrow> returns (check_device (logged send) drivers nd)"
  by (auto simp: check_device_def split: device.splits intro!: returns_bind returns_for returns_return returns_check_driver)

lemma returns_check_devices: "reliable send \<Longrightarrow> returns (check_devices (logged send) b)"
  unfolding check_devices_def by (intro returns_bind returns_for returns_return returns_check_device)

subsection \<open>Who gets a device\<close>

lemma map_of_btree_insert: "map_of (btree_insert k v m) = (map_of m)(k \<mapsto> v)"
  by (induction k v m rule: btree_insert.induct) (auto simp: fun_eq_iff)

definition is_handoff :: "rust_string \<Rightarrow> handle \<times> device_driver_request \<Rightarrow> bool" where
  "is_handoff name x \<longleftrightarrow> (case snd x of HandoffDevice n _ _ \<Rightarrow> n = name | QuerySupport _ _ \<Rightarrow> False)"

definition handoffs :: "rust_string \<Rightarrow> bus_log \<Rightarrow> nat" where
  "handoffs name l = length (filter (is_handoff name) l)"

definition registers :: "rust_string \<Rightarrow> bus_event \<Rightarrow> bool" where
  "registers name ev \<longleftrightarrow> (case ev of FromBusDriver _ (RegisterDevice n _ _) \<Rightarrow> n = name | _ \<Rightarrow> False)"

definition registrations :: "rust_string \<Rightarrow> bus_event list \<Rightarrow> nat" where
  "registrations name evs = length (filter (registers name) evs)"

definition waiting :: "rust_string \<Rightarrow> platform_bus \<Rightarrow> nat" where
  "waiting name b = (case map_of (devices b) name of Some (Unclaimed _ _ _) \<Rightarrow> 1 | _ \<Rightarrow> 0)"

definition given_to :: "rust_string \<Rightarrow> device_info \<Rightarrow> nat \<Rightarrow> platform_bus \<Rightarrow> bus_log \<Rightarrow> bool" where
  "given_to name info i b l \<longleftrightarrow> i < length (device_drivers b) \<and>
     (\<exists>h. (dd_channel (device_drivers b ! i), HandoffDevice name info h) \<in> set l)"

text \<open>What every run keeps: a device that is claimed was handed over to the driver that has it.\<close>

definition claims_ok :: "platform_bus \<Rightarrow> bus_log \<Rightarrow> bool" where
  "claims_ok b l \<longleftrightarrow> (\<forall>name bd info i. map_of (devices b) name = Some (Claimed bd info i) \<longrightarrow> given_to name info i b l)"

lemma handoffs_queries [simp]: "handoffs name (concat (map (queries ds) nds)) = 0"
proof -
  have "\<not> is_handoff name x" if "x \<in> set (queries ds nd)" for x nd
    using that by (auto simp: queries_def is_handoff_def split: device.splits)
  then show ?thesis by (simp add: handoffs_def filter_empty_conv)
qed

lemma handoffs_append [simp]: "handoffs name (l @ l') = handoffs name l + handoffs name l'"
  by (simp add: handoffs_def)

lemma registrations_snoc: "registrations name (evs @ [ev]) = registrations name evs + (if registers name ev then 1 else 0)"
  by (simp add: registrations_def)

text \<open>One step, for one name: a new handover needs a device that waits, and a device waits after it was registered.\<close>

lemma check_log:
  "check_devices (logged send) b (e, l) = Inr (r, (e', l')) \<Longrightarrow> l' = l @ concat (map (queries (device_drivers b)) (devices b))"
  by (rule sendsD [OF sends_check_devices])

lemma device_message_cases:
  assumes "on_device_driver_message (logged send) i m b (e, l) = Inr (b', (e', l'))"
  obtains (interest) ds where "b' = b\<lparr>device_drivers := ds\<rparr>" "map dd_channel ds = map dd_channel (device_drivers b)"
      "l' = l @ concat (map (queries ds) (devices b))"
  | (ignored) "b' = b" "l' = l"
  | (handoff) name bd info h where "map_of (devices b) name = Some (Unclaimed bd info h)" "i < length (device_drivers b)"
      "b' = b\<lparr>devices := btree_insert name (Claimed bd info i) (devices b)\<rparr>"
      "l' = l @ [(dd_channel (device_drivers b ! i), HandoffDevice name info h)]"
proof (cases m)
  case (RegisterInterest fs)
  define d where "d = device_drivers b ! i"
  define ds where "ds = (if dd_filters d = None then (device_drivers b)[i := d\<lparr>dd_filters := Some fs\<rparr>] else device_drivers b)"
  have "b' = b\<lparr>device_drivers := ds\<rparr>" "i < length (device_drivers b)" "\<exists>r :: unit + unit. check_devices (logged send) b' (e, l) = Inr (r, (e', l'))"
    using assms by (auto simp: RegisterInterest on_device_driver_message_def Let_def rust_simps d_def ds_def)
  moreover from this have "map dd_channel ds = map dd_channel (device_drivers b)"
    by (simp add: ds_def d_def map_update list_update_same_conv)
  moreover from calculation obtain r :: "unit + unit" where "check_devices (logged send) b' (e, l) = Inr (r, (e', l'))" by blast
  ultimately show thesis using check_log [of send b' e l r e' l'] by (intro interest [of ds]) simp_all
next
  case (CanSupport name does)
  show thesis
  proof (cases "map_of (devices b) name")
    case None
    then show thesis using assms ignored by (auto simp: CanSupport on_device_driver_message_def rust_simps split: if_splits)
  next
    case (Some dev)
    show thesis
    proof (cases "\<exists>bd info h. does \<and> dev = Unclaimed bd info h")
      case True
      then obtain bd info h where dev: "does" "dev = Unclaimed bd info h" by blast
      show thesis
        using assms Some
        by (intro handoff [of name bd info h]) (auto simp: CanSupport dev on_device_driver_message_def Let_def rust_simps sunwrap_def logged_def case_sum_eq)
    next
      case False
      then show thesis
        using assms Some ignored
        by (cases dev) (auto simp: CanSupport on_device_driver_message_def Let_def rust_simps split: if_splits)
    qed
  qed
qed

lemma bus_step_handoffs:
  assumes "bus_step (logged send) ev (b, (e, l)) (b', (e', l'))"
  shows "handoffs name l' + waiting name b' \<le> handoffs name l + waiting name b + (if registers name ev then 1 else 0)"
  using assms
proof (cases rule: bus_step.cases)
  case (from_bus_driver i m)
  then show ?thesis
    by (cases m) (auto simp: on_bus_driver_message_def Let_def rust_simps register_device_def waiting_def map_of_btree_insert
        registers_def dest!: check_log split: option.splits device.splits)
next
  case (from_device_driver i m)
  from from_device_driver(3) show ?thesis
  proof (cases rule: device_message_cases)
    case (interest ds)
    then show ?thesis by (simp add: waiting_def)
  next
    case (handoff n bd info h)
    then show ?thesis by (auto simp: waiting_def map_of_btree_insert handoffs_def is_handoff_def)
  qed simp
qed (auto simp: register_bus_driver_def register_device_driver_def waiting_def)

text \<open>Drivers keep their place and their channel.\<close>

lemma given_to_grows:
  assumes "given_to name info i b l" and "map dd_channel (device_drivers b') = map dd_channel (device_drivers b) @ cs" and "set l \<subseteq> set l'"
  shows "given_to name info i b' l'"
proof -
  have i: "i < length (device_drivers b)" using assms(1) by (simp add: given_to_def)
  have len: "length (device_drivers b') = length (device_drivers b) + length cs" using arg_cong [OF assms(2), of length] by simp
  have "map dd_channel (device_drivers b') ! i = map dd_channel (device_drivers b) ! i" unfolding assms(2) using i by (simp add: nth_append)
  then have "dd_channel (device_drivers b' ! i) = dd_channel (device_drivers b ! i)" using i len by simp
  then show ?thesis using assms(1,3) i len by (auto simp: given_to_def)
qed

lemma bus_step_claims:
  assumes "bus_step (logged send) ev (b, (e, l)) (b', (e', l'))" and "claims_ok b l"
  shows "claims_ok b' l'"
  using assms(1)
proof (cases rule: bus_step.cases)
  case (new_bus_driver n c i)
  then show ?thesis using assms(2) by (auto simp: register_bus_driver_def claims_ok_def given_to_def)
next
  case (new_device_driver n c i)
  then have "map dd_channel (device_drivers b') = map dd_channel (device_drivers b) @ [c]" "devices b' = devices b" "l' = l"
    by (auto simp: register_device_driver_def)
  then show ?thesis using assms(2) given_to_grows unfolding claims_ok_def by (metis order_refl)
next
  case (from_bus_driver i m)
  then obtain name info h where m: "m = RegisterDevice name info h" by (cases m)
  have "devices b' = btree_insert name (Unclaimed i info h) (devices b)" "map dd_channel (device_drivers b') = map dd_channel (device_drivers b) @ []"
      "set l \<subseteq> set l'"
    using from_bus_driver(3) by (auto simp: m on_bus_driver_message_def Let_def rust_simps register_device_def dest!: check_log)
  then show ?thesis
    using assms(2) given_to_grows [of _ _ _ b l b' "[]" l'] unfolding claims_ok_def by (auto simp: map_of_btree_insert split: if_splits)
next
  case (from_device_driver i m)
  from from_device_driver(3) show ?thesis
  proof (cases rule: device_message_cases)
    case (interest ds)
    then show ?thesis using assms(2) given_to_grows [of _ _ _ b l b' "[]" l'] unfolding claims_ok_def by auto
  next
    case (handoff n bd info h)
    then have "given_to n info i b' l'" by (auto simp: given_to_def)
    moreover have "given_to name info' j b' l'" if "given_to name info' j b l" for name info' j
      by (rule given_to_grows [OF that, of b' "[]"]) (use handoff in auto)
    ultimately show ?thesis
      using assms(2) handoff(3) unfolding claims_ok_def by (auto simp: map_of_btree_insert split: if_splits)
  qed (use assms(2) in simp)
qed

subsection \<open>Properties\<close>

text \<open>C9: no device is given away twice: in every run of the platform bus a name is handed over at most as often as it was
  registered, and a device that still waits for a driver does not count as handed over.  A claimed
  device was handed over, with its description, to the channel of the driver that is noted to have it.\<close>

theorem handoff_once:
  assumes "bus_run (logged send) (b0, (e0, [])) evs (b, (e, l))" and "claims_ok b0 []"
  shows "handoffs name l + waiting name b \<le> registrations name evs + waiting name b0 \<and>
    (map_of (devices b) name = Some (Claimed bd info i) \<longrightarrow> given_to name info i b l)"
proof -
  have "handoffs name (snd (snd s)) + waiting name (fst s) \<le> registrations name evs + waiting name b0 \<and> claims_ok (fst s) (snd (snd s))"
    if "bus_run (logged send) (b0, (e0, [])) evs s" for s
    using that
  proof (induction rule: bus_run.induct)
    case start
    then show ?case using assms(2) by (simp add: handoffs_def)
  next
    case (step evs s ev s')
    obtain b e l b' e' l' where s: "s = (b, (e, l))" "s' = (b', (e', l'))" by (metis prod.exhaust)
    show ?case
      using step.IH bus_step_handoffs [of send ev b e l b' e' l' name] bus_step_claims [of send ev b e l b' e' l'] step.hyps(2)
      by (simp add: s registrations_snoc)
  qed
  from this [OF assms(1)] show ?thesis by (simp add: claims_ok_def)
qed

lemma sample_reliable: "reliable (\<lambda>channel request. sreturn ())"
  by (simp add: reliable_def sreturn_def)

text \<open>A device driver that registers no filter claims a device as soon as a bus driver has registered it.\<close>

definition claim_events :: "rust_string \<Rightarrow> handle \<Rightarrow> rust_string \<Rightarrow> handle \<Rightarrow> rust_string \<Rightarrow> device_info \<Rightarrow> handoff_info \<Rightarrow> bus_event list" where
  "claim_events bn bc dn c name info h =
     [NewBusDriver bn bc, NewDeviceDriver dn c, FromBusDriver 0 (RegisterDevice name info h), FromDeviceDriver 0 (CanSupport name True)]"

definition claim_bus :: "rust_string \<Rightarrow> handle \<Rightarrow> rust_string \<Rightarrow> handle \<Rightarrow> device \<Rightarrow> rust_string \<Rightarrow> platform_bus" where
  "claim_bus bn bc dn c d name = \<lparr>bus_drivers = [\<lparr>bd_name = bn, bd_channel = bc\<rparr>],
     device_drivers = [\<lparr>dd_name = dn, dd_filters = None, dd_channel = c\<rparr>], devices = [(name, d)]\<rparr>"

lemma claim_run:
  assumes "send c (HandoffDevice name info h) e = Inr (Inr (), e')"
  shows "bus_run (logged send) (platform_bus_new, (e, [])) (claim_events bn bc dn c name info h)
    (claim_bus bn bc dn c (Claimed 0 info 0) name, (e', [(c, HandoffDevice name info h)]))"
proof -
  let ?run = "bus_run (logged send) (platform_bus_new, (e, []))"
  let ?b1 = "\<lparr>bus_drivers = [\<lparr>bd_name = bn, bd_channel = bc\<rparr>], device_drivers = [], devices = []\<rparr>"
  let ?b2 = "?b1\<lparr>device_drivers := [\<lparr>dd_name = dn, dd_filters = None, dd_channel = c\<rparr>]\<rparr>"
  let ?b3 = "claim_bus bn bc dn c (Unclaimed 0 info h) name"
  have "?run ([] @ [NewBusDriver bn bc]) (?b1, (e, []))"
    by (rule bus_run.step [OF bus_run.start bus_step.new_bus_driver [where i = 0]]) (simp add: register_bus_driver_def platform_bus_new_def)
  then have "?run (([] @ [NewBusDriver bn bc]) @ [NewDeviceDriver dn c]) (?b2, (e, []))"
    by (rule bus_run.step [OF _ bus_step.new_device_driver [where i = 0]]) (simp add: register_device_driver_def)
  then have "?run ((([] @ [NewBusDriver bn bc]) @ [NewDeviceDriver dn c]) @ [FromBusDriver 0 (RegisterDevice name info h)]) (?b3, (e, []))"
    by (rule bus_run.step [OF _ bus_step.from_bus_driver])
      (simp_all add: on_bus_driver_message_def register_device_def check_devices_def check_device_def sbind_def sreturn_def claim_bus_def)
  then have "?run (((([] @ [NewBusDriver bn bc]) @ [NewDeviceDriver dn c]) @ [FromBusDriver 0 (RegisterDevice name info h)]) @
      [FromDeviceDriver 0 (CanSupport name True)]) (claim_bus bn bc dn c (Claimed 0 info 0) name, (e', [(c, HandoffDevice name info h)]))"
    by (rule bus_run.step [OF _ bus_step.from_device_driver])
      (use assms in \<open>simp_all add: on_device_driver_message_def logged_def sunwrap_def claim_bus_def\<close>)
  then show ?thesis by (simp add: claim_events_def)
qed

theorem handoff_once_witness:
  "let b = claim_bus [] 1 [] 2 (Claimed 0 [([0x61], PropBool True)] 0) [0x64];
       l = [(2, HandoffDevice [0x64] [([0x61], PropBool True)] [])] in
   handoffs [0x64] l + waiting [0x64] b \<le>
     registrations [0x64] (claim_events [] 1 [] 2 [0x64] [([0x61], PropBool True)] []) + waiting [0x64] platform_bus_new \<and>
   given_to [0x64] [([0x61], PropBool True)] 0 b l"
proof -
  let ?send = "(\<lambda>channel request. sreturn ()) :: unit send_request"
  have "?send 2 (HandoffDevice [0x64] [([0x61], PropBool True)] []) () = Inr (Inr (), ())" by (simp add: sreturn_def)
  from handoff_once [OF claim_run [where send = ?send and bn = "[]" and bc = 1 and dn = "[]", OF this],
      where name = "[0x64]" and bd = 0 and info = "[([0x61], PropBool True)]" and i = 0]
  show ?thesis by (simp add: claims_ok_def platform_bus_new_def claim_bus_def)
qed

text \<open>C26: with a \<open>send\<close> that does not fail, the check of the devices never panics and asks exactly the drivers that have
  registered at least one filter that matches, about every device that is not claimed, in the order of
  the devices and of the drivers.\<close>

theorem queries_sent:
  assumes "reliable send"
  shows "\<exists>e'. check_devices (logged send) b (e, l) =
    Inr (Inr () :: unit + unit, (e', l @ concat (map (queries (device_drivers b)) (devices b))))"
proof -
  obtain v s' where r: "check_devices (logged send) b (e, l) = Inr (Inr v :: unit + unit, s')"
    using returns_check_devices [OF assms, of b] unfolding returns_def by blast
  obtain e' l' where s: "s' = (e', l')" by fastforce
  from check_log [OF r [unfolded s]] show ?thesis using r s by auto
qed

theorem queries_sent_witness:
  "\<exists>e'. check_devices (logged (\<lambda>channel request. sreturn ()))
     \<lparr>bus_drivers = [], device_drivers = [\<lparr>dd_name = [], dd_filters = Some [FilterMatches [0x61] (PropBool True), FilterMatches [0x62] (PropBool True)], dd_channel = 2\<rparr>],
      devices = [([0x64], Unclaimed 0 [([0x61], PropBool True)] [])]\<rparr> ((), []) =
     Inr (Inr () :: unit + unit, (e', [(2, QuerySupport [0x64] [([0x61], PropBool True)])]))"
  using queries_sent [OF sample_reliable, of
    "\<lparr>bus_drivers = [], device_drivers = [\<lparr>dd_name = [], dd_filters = Some [FilterMatches [0x61] (PropBool True), FilterMatches [0x62] (PropBool True)], dd_channel = 2\<rparr>],
      devices = [([0x64], Unclaimed 0 [([0x61], PropBool True)] [])]\<rparr>" "()" "[]"]
  by (simp add: queries_def interested_def)

text \<open>C40: the answer of a driver is believed without a question.  For every device, with its properties and handles, there is
  a run of the platform bus from its start in which a driver that has registered no filter gets the
  device by claiming to support it: the handover is the only request that is ever sent, so that the
  driver was never asked.  In the state after it, a claim of the same driver for a name that is not
  registered makes the platform bus panic.\<close>

theorem claim_unchecked:
  assumes "reliable send" and "other \<noteq> name"
  shows "\<exists>evs b e'. bus_run (logged send) (platform_bus_new, (e, [])) evs (b, (e', [(c, HandoffDevice name info h)])) \<and>
    map_of (devices b) name = Some (Claimed 0 info 0) \<and> dd_filters (device_drivers b ! 0) = None \<and>
    on_device_driver_message (logged send) 0 (CanSupport other True) b (e', [(c, HandoffDevice name info h)]) = Inl UnwrapFailed"
proof -
  obtain e' where "send c (HandoffDevice name info h) e = Inr (Inr (), e')" using assms(1) unfolding reliable_def by blast
  from claim_run [of send, OF this, of "[]" 0 "[]"] show ?thesis
    using assms(2) by (intro exI conjI) (assumption, simp_all add: claim_bus_def on_device_driver_message_def)
qed

theorem claim_unchecked_witness:
  "\<exists>evs b. bus_run (logged (\<lambda>channel request. sreturn ())) (platform_bus_new, ((), [])) evs
      (b, ((), [(2, HandoffDevice [0x64] [] [([0x65], HandEvent 3)])])) \<and>
    map_of (devices b) [0x64] = Some (Claimed 0 [] 0)"
  using claim_unchecked [OF sample_reliable, of "[0x66]" "[0x64]" "()" 2 "[]" "[([0x65], HandEvent 3)]"] by auto

end
