(* ===== verification/Mulch_Ranges.thy ===== *)
theory Mulch_Ranges
  imports Prelude
begin

text \<open>
  \<open>lib/mulch/src/ranges.rs\<close>: containment, intersection and splitting of half-open ranges over
  any linearly ordered type.
\<close>

record 'a range =
  start :: 'a
  finish :: 'a

abbreviation rng :: "'a \<Rightarrow> 'a \<Rightarrow> 'a range" where
  "rng a b \<equiv> \<lparr>start = a, finish = b\<rparr>"

definition encompasses :: "'a::linorder range \<Rightarrow> 'a range \<Rightarrow> bool" where
  "encompasses r other \<longleftrightarrow> start other \<ge> start r \<and> finish other \<le> finish r"

definition intersects :: "'a::linorder range \<Rightarrow> 'a range \<Rightarrow> bool" where
  "intersects r other \<longleftrightarrow> start r < finish other \<and> finish r > start other"

definition intersection :: "'a::linorder range \<Rightarrow> 'a range \<Rightarrow> 'a range option" where
  "intersection r other =
     (if intersects r other
      then Some (rng (max (start r) (start other)) (min (finish r) (finish other)))
      else None)"

definition range_split ::
  "'a::linorder range \<Rightarrow> 'a range \<Rightarrow> 'a range option \<times> 'a range option \<times> 'a range option" where
  "range_split r other =
     ((if start r \<ge> start other then None else Some (rng (start r) (start other))),
      intersection r other,
      (if finish r \<le> finish other then None else Some (rng (finish other) (finish r))))"

subsection \<open>Ranges as sets\<close>

definition range_set :: "'a::linorder range \<Rightarrow> 'a set" where
  "range_set r = {start r ..< finish r}"

definition part_set :: "'a::linorder range option \<Rightarrow> 'a set" where
  "part_set p = (case p of None \<Rightarrow> {} | Some r \<Rightarrow> range_set r)"

lemma part_set_simps [simp]: "part_set None = {}" "part_set (Some r) = range_set r"
  by (simp_all add: part_set_def)

lemma intersection_set:
  "start r < finish r \<Longrightarrow> start s < finish s \<Longrightarrow> part_set (intersection r s) = range_set r \<inter> range_set s"
  by (auto simp: intersection_def intersects_def range_set_def)

subsection \<open>Properties\<close>

text \<open>C30: splitting a range by another one that meets it partitions it into the elements before, inside
  and after the other range, in this order.\<close>

theorem range_split_partition:
  assumes "intersects r other" and "start r < finish r" and "start other < finish other"
    and "range_split r other = (before, middle, after)"
  shows "part_set before = {x \<in> range_set r. x < start other} \<and>
     part_set middle = range_set r \<inter> range_set other \<and>
     part_set after = {x \<in> range_set r. finish other \<le> x}"
  using assms intersection_set [OF assms(2,3)]
  by (auto simp: range_split_def intersects_def range_set_def split: if_splits)

theorem range_split_partition_witness:
  "part_set (fst (range_split (rng 0 1000) (rng 50 (100::nat)))) = {0 ..< 50}"
  using range_split_partition [of "rng 0 1000" "rng 50 (100::nat)"]
  by (auto simp: intersects_def range_split_def range_set_def)

text \<open>For ranges that do not meet, the outer parts are not parts of the range.\<close>

lemma range_split_apart:
  "range_split (rng 100 300) (rng 400 (500::nat)) = (Some (rng 100 400), None, None)"
  by (simp add: range_split_def intersection_def intersects_def)

end
