(* ===== verification/Mulch_Bipqueue.thy ===== *)
theory Mulch_Bipqueue
  imports Prelude
begin

text \<open>
  \<open>lib/mulch/src/bipqueue.rs\<close>: a byte queue for one producer and one consumer, over a buffer that
  holds at most two regions of bytes.  Each operation is built from the pieces between its atomic
  accesses to a variable that the other side writes, and the interleavings of the two sides are a
  step relation over the same pieces.  Indices are natural numbers, with the overflow of
  \<open>usize\<close> written out.
\<close>

subsection \<open>The queue\<close>

definition nadd :: "nat \<Rightarrow> nat \<Rightarrow> panic + nat" where
  "nadd a b = (if a + b < 2 ^ 64 then Inr (a + b) else Inl Overflow)"

definition nsub :: "nat \<Rightarrow> nat \<Rightarrow> panic + nat" where
  "nsub a b = (if b \<le> a then Inr (a - b) else Inl Overflow)"

lemma nadd_eq_Inr [rust_simps]: "nadd a b = Inr c \<longleftrightarrow> a + b < 2 ^ 64 \<and> c = a + b"
  by (auto simp: nadd_def)

lemma nsub_eq_Inr [rust_simps]: "nsub a b = Inr c \<longleftrightarrow> b \<le> a \<and> c = a - b"
  by (auto simp: nsub_def)

datatype bip_error = AlreadyGranted | NotEnoughSpace | NoBytes

record bip_queue =
  storage :: "u8 list"
  read_ix :: nat
  write_ix :: nat
  reserve_ix :: nat
  watermark_ix :: nat
  read_granted :: bool
  write_granted :: bool

text \<open>The buffer of a grant is the part of the storage at its first position and of its length.\<close>

record grant_region =
  first :: nat
  size_of :: nat

abbreviation (input) capacity :: "bip_queue \<Rightarrow> nat" where
  "capacity q \<equiv> length (storage q)"

text \<open>The storage is not initialised: its first contents are arbitrary.\<close>

definition bip_new :: "u8 list \<Rightarrow> bip_queue" where
  "bip_new uninit =
     \<lparr>storage = uninit, read_ix = 0, write_ix = 0, reserve_ix = 0, watermark_ix = length uninit,
      read_granted = False, write_granted = False\<rparr>"

subsection \<open>Writing\<close>

definition grant_start :: "nat \<Rightarrow> nat \<Rightarrow> nat \<Rightarrow> nat \<Rightarrow> panic + (bip_error + nat)" where
  "grant_start N read write l =
     (if write < read then
        rbind (nadd write l) (\<lambda>e. if e < read then Inr (Inr write) else Inr (Inl NotEnoughSpace))
      else
        rbind (nadd write l) (\<lambda>e.
          if e \<le> N then Inr (Inr write)
          else if l < read then Inr (Inr 0)
          else Inr (Inl NotEnoughSpace)))"

text \<open>The rest of \<open>grant\<close> after the load of \<open>read\<close>.\<close>

definition grant_with :: "bip_queue \<Rightarrow> nat \<Rightarrow> nat \<Rightarrow> panic + ((bip_error + grant_region) \<times> bip_queue)" where
  "grant_with q read l =
     rbind (grant_start (capacity q) read (write_ix q) l) (\<lambda>r.
       case r of
         Inl e \<Rightarrow> Inr (Inl e, q\<lparr>write_granted := False\<rparr>)
       | Inr start \<Rightarrow>
           rbind (nadd start l) (\<lambda>e. Inr (Inr \<lparr>first = start, size_of = l\<rparr>, q\<lparr>reserve_ix := e\<rparr>)))"

definition bip_grant :: "bip_queue \<Rightarrow> nat \<Rightarrow> panic + ((bip_error + grant_region) \<times> bip_queue)" where
  "bip_grant q l =
     (if write_granted q then Inr (Inl AlreadyGranted, q\<lparr>write_granted := True\<rparr>)
      else grant_with (q\<lparr>write_granted := True\<rparr>) (read_ix q) l)"

text \<open>Writing through the mutable slice of a grant.\<close>

definition grant_fill :: "bip_queue \<Rightarrow> grant_region \<Rightarrow> u8 list \<Rightarrow> bip_queue" where
  "grant_fill q g bs =
     q\<lparr>storage := take (first g) (storage q) @ take (size_of g) bs @ drop (first g + length (take (size_of g) bs)) (storage q)\<rparr>"

text \<open>\<open>commit\<close> up to and including the store of the watermark, and the stores after it.\<close>

definition commit_mark :: "bip_queue \<Rightarrow> grant_region \<Rightarrow> nat \<Rightarrow> panic + bip_queue" where
  "commit_mark q g written =
     (let written = min written (size_of g); write = write_ix q in
      rbind (nsub (size_of g) written) (\<lambda>d.
        let q = q\<lparr>reserve_ix := (reserve_ix q + 2 ^ 64 - d) mod 2 ^ 64\<rparr>;
            watermark = watermark_ix q;
            new_write = reserve_ix q
        in Inr (if new_write < write \<and> write \<noteq> capacity q then q\<lparr>watermark_ix := write\<rparr>
                else if new_write > watermark then q\<lparr>watermark_ix := capacity q\<rparr>
                else q)))"

definition commit_publish :: "bip_queue \<Rightarrow> bip_queue" where
  "commit_publish q = q\<lparr>write_ix := reserve_ix q, write_granted := False\<rparr>"

definition bip_commit :: "bip_queue \<Rightarrow> grant_region \<Rightarrow> nat \<Rightarrow> panic + bip_queue" where
  "bip_commit q g written = rbind (commit_mark q g written) (\<lambda>q. Inr (commit_publish q))"

definition write_grant_drop :: "bip_queue \<Rightarrow> bip_queue" where
  "write_grant_drop q = q\<lparr>write_granted := False\<rparr>"

subsection \<open>Reading\<close>

text \<open>The rest of \<open>read\<close> after the loads of \<open>read\<close>, \<open>write\<close> and \<open>watermark\<close>.\<close>

definition read_with ::
  "bip_queue \<Rightarrow> nat \<Rightarrow> nat \<Rightarrow> nat \<Rightarrow> panic + ((bip_error + grant_region) \<times> bip_queue)" where
  "read_with q read write watermark =
     (let q = (if write < read \<and> read = watermark then q\<lparr>read_ix := 0\<rparr> else q) in
      rbind (if write < read then nsub watermark read else nsub write read) (\<lambda>l.
        if l = 0 then Inr (Inl NoBytes, q\<lparr>read_granted := False\<rparr>)
        else Inr (Inr \<lparr>first = read, size_of = l\<rparr>, q)))"

definition bip_read :: "bip_queue \<Rightarrow> panic + ((bip_error + grant_region) \<times> bip_queue)" where
  "bip_read q =
     (if read_granted q then Inr (Inl AlreadyGranted, q\<lparr>read_granted := True\<rparr>)
      else read_with (q\<lparr>read_granted := True\<rparr>) (read_ix q) (write_ix q) (watermark_ix q))"

definition grant_buffer :: "bip_queue \<Rightarrow> grant_region \<Rightarrow> u8 list" where
  "grant_buffer q g = take (size_of g) (drop (first g) (storage q))"

definition bip_release :: "bip_queue \<Rightarrow> grant_region \<Rightarrow> nat \<Rightarrow> bip_queue" where
  "bip_release q g n =
     q\<lparr>read_ix := (read_ix q + min n (size_of g)) mod 2 ^ 64, read_granted := False\<rparr>"

definition read_grant_drop :: "bip_queue \<Rightarrow> bip_queue" where
  "read_grant_drop q = q\<lparr>read_granted := False\<rparr>"

subsection \<open>Interleavings of a producer and a consumer\<close>

text \<open>Where each side is in its operation, with the values it has loaded.\<close>

datatype producer = PIdle | PLoaded nat nat | PGranted grant_region | PMarked grant_region nat

datatype consumer = CIdle | CWrite nat nat | CBoth nat nat nat | CGranted grant_region

text \<open>Besides the queue and the two positions the state records all bytes committed and all bytes
  released so far.\<close>

record spsc =
  queue :: bip_queue
  prod :: producer
  cons :: consumer
  committed :: "u8 list"
  released :: "u8 list"

inductive spsc_step :: "spsc \<Rightarrow> spsc \<Rightarrow> bool" where
  p_load: "prod s = PIdle \<Longrightarrow> \<not> write_granted (queue s) \<Longrightarrow>
     spsc_step s (s\<lparr>queue := (queue s)\<lparr>write_granted := True\<rparr>, prod := PLoaded l (read_ix (queue s))\<rparr>)"
| p_grant: "prod s = PLoaded l r \<Longrightarrow> grant_with (queue s) r l = Inr (Inr g, q) \<Longrightarrow>
     spsc_step s (s\<lparr>queue := q, prod := PGranted g\<rparr>)"
| p_refuse: "prod s = PLoaded l r \<Longrightarrow> grant_with (queue s) r l = Inr (Inl e, q) \<Longrightarrow>
     spsc_step s (s\<lparr>queue := q, prod := PIdle\<rparr>)"
| p_fill: "prod s = PGranted g \<Longrightarrow>
     spsc_step s (s\<lparr>queue := grant_fill (queue s) g bs\<rparr>)"
| p_mark: "prod s = PGranted g \<Longrightarrow> commit_mark (queue s) g n = Inr q \<Longrightarrow>
     spsc_step s (s\<lparr>queue := q, prod := PMarked g (min n (size_of g))\<rparr>)"
| p_publish: "prod s = PMarked g n \<Longrightarrow>
     spsc_step s (s\<lparr>queue := commit_publish (queue s), prod := PIdle,
       committed := committed s @ take n (grant_buffer (queue s) g)\<rparr>)"
| p_drop: "prod s = PGranted g \<Longrightarrow>
     spsc_step s (s\<lparr>queue := write_grant_drop (queue s), prod := PIdle\<rparr>)"
| c_write: "cons s = CIdle \<Longrightarrow> \<not> read_granted (queue s) \<Longrightarrow>
     spsc_step s (s\<lparr>queue := (queue s)\<lparr>read_granted := True\<rparr>, cons := CWrite (read_ix (queue s)) (write_ix (queue s))\<rparr>)"
| c_mark: "cons s = CWrite r w \<Longrightarrow>
     spsc_step s (s\<lparr>cons := CBoth r w (watermark_ix (queue s))\<rparr>)"
| c_grant: "cons s = CBoth r w m \<Longrightarrow> read_with (queue s) r w m = Inr (Inr g, q) \<Longrightarrow>
     spsc_step s (s\<lparr>queue := q, cons := CGranted g\<rparr>)"
| c_refuse: "cons s = CBoth r w m \<Longrightarrow> read_with (queue s) r w m = Inr (Inl e, q) \<Longrightarrow>
     spsc_step s (s\<lparr>queue := q, cons := CIdle\<rparr>)"
| c_release: "cons s = CGranted g \<Longrightarrow>
     spsc_step s (s\<lparr>queue := bip_release (queue s) g n, cons := CIdle,
       released := released s @ take n (grant_buffer (queue s) g)\<rparr>)"
| c_drop: "cons s = CGranted g \<Longrightarrow>
     spsc_step s (s\<lparr>queue := read_grant_drop (queue s), cons := CIdle\<rparr>)"

definition spsc_init :: "u8 list \<Rightarrow> spsc" where
  "spsc_init uninit = \<lparr>queue = bip_new uninit, prod = PIdle, cons = CIdle, committed = [], released = []\<rparr>"

inductive spsc_reachable :: "u8 list \<Rightarrow> spsc \<Rightarrow> bool" for uninit where
  init: "spsc_reachable uninit (spsc_init uninit)"
| step: "spsc_reachable uninit s \<Longrightarrow> spsc_step s s' \<Longrightarrow> spsc_reachable uninit s'"

subsection \<open>The bytes in the queue\<close>

definition slice :: "'a list \<Rightarrow> nat \<Rightarrow> nat \<Rightarrow> 'a list" where
  "slice xs a b = take (b - a) (drop a xs)"

lemma slice_self [simp]: "slice xs a a = []"
  by (simp add: slice_def)

lemma slice_split: "a \<le> b \<Longrightarrow> b \<le> c \<Longrightarrow> slice xs a c = slice xs a b @ slice xs b c"
  using take_add [of "b - a" "c - b" "drop a xs"] by (simp add: slice_def)

lemma slice_drop: "a + n \<le> b \<Longrightarrow> slice xs a b = take n (drop a xs) @ slice xs (a + n) b"
  using slice_split [of a "a + n" b xs] by (simp add: slice_def)

lemma slice_cong:
  assumes len: "length xs = length ys" and nth: "\<And>i. a \<le> i \<Longrightarrow> i < b \<Longrightarrow> i < length ys \<Longrightarrow> xs ! i = ys ! i"
  shows "slice xs a b = slice ys a b"
proof (rule nth_equalityI)
  fix i assume "i < length (slice xs a b)"
  then show "slice xs a b ! i = slice ys a b ! i" using len nth [of "a + i"] by (auto simp: slice_def)
qed (simp add: slice_def len)

lemma slice_update:
  assumes "f + length bs \<le> length xs" and "b \<le> f \<or> f + length bs \<le> a"
  shows "slice (take f xs @ bs @ drop (f + length bs) xs) a b = slice xs a b"
  using assms by (intro slice_cong) (auto simp: nth_append)

definition contents :: "bip_queue \<Rightarrow> u8 list" where
  "contents q =
     (if write_ix q < read_ix q
      then slice (storage q) (read_ix q) (watermark_ix q) @ slice (storage q) 0 (write_ix q)
      else slice (storage q) (read_ix q) (write_ix q))"

subsection \<open>The invariant\<close>

definition shape :: "bip_queue \<Rightarrow> bool" where
  "shape q \<longleftrightarrow> capacity q < 2 ^ 64 \<and> watermark_ix q \<le> capacity q \<and>
     (if write_ix q < read_ix q then read_ix q \<le> watermark_ix q
      else write_ix q \<le> watermark_ix q)"

text \<open>Where a region of \<open>n\<close> bytes that starts at \<open>f\<close> may be written.\<close>

definition writable_at :: "bip_queue \<Rightarrow> nat \<Rightarrow> nat \<Rightarrow> nat \<Rightarrow> bool" where
  "writable_at q lim f n \<longleftrightarrow>
     f = write_ix q \<and> (if write_ix q < read_ix q then f + n < read_ix q else f + n \<le> lim) \<or>
     f = 0 \<and> read_ix q \<le> write_ix q \<and> n < read_ix q"

fun prod_ok :: "bip_queue \<Rightarrow> producer \<Rightarrow> bool" where
  "prod_ok q PIdle \<longleftrightarrow> True"
| "prod_ok q (PLoaded l r) \<longleftrightarrow>
     (if write_ix q < r then r \<le> watermark_ix q \<and> (write_ix q < read_ix q \<longrightarrow> r \<le> read_ix q)
      else r \<le> read_ix q \<and> read_ix q \<le> write_ix q)"
| "prod_ok q (PGranted g) \<longleftrightarrow>
     reserve_ix q = first g + size_of g \<and> writable_at q (capacity q) (first g) (size_of g)"
| "prod_ok q (PMarked g n) \<longleftrightarrow>
     n \<le> size_of g \<and> reserve_ix q = first g + n \<and> writable_at q (watermark_ix q) (first g) n \<and>
     (first g \<noteq> write_ix q \<longrightarrow> write_ix q = watermark_ix q)"

definition loaded_ok :: "bip_queue \<Rightarrow> nat \<Rightarrow> nat \<Rightarrow> bool" where
  "loaded_ok q r w \<longleftrightarrow> r = read_ix q \<and>
     (if w < r then write_ix q < read_ix q
      else if write_ix q < read_ix q then w \<le> watermark_ix q else w \<le> write_ix q)"

definition readable_at :: "bip_queue \<Rightarrow> nat \<Rightarrow> nat \<Rightarrow> bool" where
  "readable_at q f n \<longleftrightarrow> f = read_ix q \<and>
     f + n \<le> (if write_ix q < read_ix q then watermark_ix q else write_ix q)"

fun cons_ok :: "bip_queue \<Rightarrow> consumer \<Rightarrow> bool" where
  "cons_ok q CIdle \<longleftrightarrow> True"
| "cons_ok q (CWrite r w) \<longleftrightarrow> loaded_ok q r w"
| "cons_ok q (CBoth r w m) \<longleftrightarrow> loaded_ok q r w \<and> (w < r \<longrightarrow> m = watermark_ix q)"
| "cons_ok q (CGranted g) \<longleftrightarrow> 0 < size_of g \<and> readable_at q (first g) (size_of g)"

definition spsc_inv :: "spsc \<Rightarrow> bool" where
  "spsc_inv s \<longleftrightarrow> shape (queue s) \<and> prod_ok (queue s) (prod s) \<and> cons_ok (queue s) (cons s) \<and>
     (write_granted (queue s) \<longleftrightarrow> prod s \<noteq> PIdle) \<and> (read_granted (queue s) \<longleftrightarrow> cons s \<noteq> CIdle) \<and>
     committed s = released s @ contents (queue s)"

lemmas bip_defs = shape_def writable_at_def loaded_ok_def readable_at_def

lemma contents_cong:
  assumes "storage q' = storage q" "read_ix q' = read_ix q" "write_ix q' = write_ix q"
    and "write_ix q < read_ix q \<Longrightarrow> watermark_ix q' = watermark_ix q"
  shows "contents q' = contents q"
  using assms by (simp add: contents_def)

text \<open>The producer's steps.\<close>

lemma grant_with_ok:
  assumes "shape q" and "prod_ok q (PLoaded l r)" and "grant_with q r l = Inr (Inr g, q')"
  shows "q' = q\<lparr>reserve_ix := first g + size_of g\<rparr> \<and> writable_at q (capacity q) (first g) (size_of g)"
  using assms
  by (auto simp: grant_with_def grant_start_def rbind_eq_Inr rust_simps bip_defs split: if_splits sum.splits)

lemma commit_mark_ok:
  assumes "shape q" and "prod_ok q (PGranted g)"
  shows "\<exists>q'. commit_mark q g n = Inr q' \<and> prod_ok q' (PMarked g (min n (size_of g))) \<and> shape q' \<and>
     storage q' = storage q \<and> read_ix q' = read_ix q \<and> write_ix q' = write_ix q \<and>
     write_granted q' = write_granted q \<and> read_granted q' = read_granted q \<and>
     (write_ix q < read_ix q \<longrightarrow> watermark_ix q' = watermark_ix q)"
proof -
  define m where "m = min n (size_of g)"
  have m: "m \<le> size_of g" by (simp add: m_def)
  let ?e = "first g + m"
  let ?mark = "if ?e < write_ix q \<and> write_ix q \<noteq> capacity q then write_ix q
     else if ?e > watermark_ix q then capacity q else watermark_ix q"
  let ?q = "q\<lparr>reserve_ix := ?e, watermark_ix := ?mark\<rparr>"
  have lt: "?e < 2 ^ 64" using assms m by (auto simp: bip_defs split: if_splits)
  have "reserve_ix q + 2 ^ 64 - (size_of g - m) = ?e + 2 ^ 64" using assms(2) m by simp
  then have r: "(reserve_ix q + 2 ^ 64 - (size_of g - m)) mod 2 ^ 64 = ?e" using lt by simp
  have "commit_mark q g n = Inr ?q"
    unfolding commit_mark_def Let_def m_def [symmetric] nsub_def if_P [OF m] rbind_simps bip_queue.simps r by simp
  moreover have "shape ?q" using assms m by (auto simp: shape_def writable_at_def)
  moreover have "prod_ok ?q (PMarked g m)"
    using assms m by (auto simp: shape_def writable_at_def)
  moreover have "write_ix q < read_ix q \<longrightarrow> ?mark = watermark_ix q"
    using assms m by (auto simp: shape_def writable_at_def)
  ultimately show ?thesis unfolding m_def [symmetric] by simp
qed

lemma grant_fill_ok:
  assumes "shape q" and "prod_ok q (PGranted g)"
  shows "capacity (grant_fill q g bs) = capacity q" and "contents (grant_fill q g bs) = contents q"
proof -
  define bs' where "bs' = take (size_of g) bs"
  have l: "length bs' \<le> size_of g" by (simp add: bs'_def)
  have fit: "first g + length bs' \<le> capacity q" using assms l by (auto simp: bip_defs split: if_splits)
  then show "capacity (grant_fill q g bs) = capacity q"
    by (simp add: grant_fill_def bs'_def)
  have "slice (storage (grant_fill q g bs)) a b = slice (storage q) a b"
    if "b \<le> first g \<or> first g + size_of g \<le> a" for a b
    using slice_update [OF fit, of b a] that l unfolding grant_fill_def bs'_def [symmetric] by auto
  then show "contents (grant_fill q g bs) = contents q"
    using assms by (auto simp: contents_def grant_fill_def writable_at_def split: if_splits)
qed

lemma commit_publish_ok:
  assumes "shape q" and "prod_ok q (PMarked g n)"
  shows "shape (commit_publish q)" and "contents (commit_publish q) = contents q @ take n (grant_buffer q g)"
proof -
  have b: "take n (grant_buffer q g) = slice (storage q) (first g) (first g + n)"
    using assms(2) by (simp add: grant_buffer_def slice_def min_absorb1)
  show "shape (commit_publish q)"
    using assms by (auto simp: commit_publish_def shape_def writable_at_def split: if_splits)
  show "contents (commit_publish q) = contents q @ take n (grant_buffer q g)"
  proof (cases "first g = write_ix q")
    case True
    then show ?thesis
      using assms slice_split [of "read_ix q" "write_ix q" "write_ix q + n" "storage q"]
        slice_split [of 0 "write_ix q" "write_ix q + n" "storage q"]
      unfolding b by (auto simp: commit_publish_def contents_def shape_def writable_at_def split: if_splits)
  next
    case False
    then show ?thesis
      using assms unfolding b by (auto simp: commit_publish_def contents_def shape_def writable_at_def split: if_splits)
  qed
qed

text \<open>The consumer's steps.\<close>

lemma read_with_ok:
  assumes "shape q" and "cons_ok q (CBoth r w m)"
  shows "\<exists>res q'. read_with q r w m = Inr (res, q') \<and> shape q' \<and> contents q' = contents q \<and>
     (case res of
        Inl e \<Rightarrow> e = NoBytes \<and> \<not> read_granted q'
      | Inr g \<Rightarrow> q' = q \<and> cons_ok q (CGranted g)) \<and>
     (q' = q \<or> q' = q\<lparr>read_granted := False\<rparr> \<or>
      write_ix q < read_ix q \<and> read_ix q = watermark_ix q \<and> q' = q\<lparr>read_ix := 0, read_granted := False\<rparr>)"
proof (cases "w < r")
  case True
  then have two: "r = read_ix q" "write_ix q < read_ix q" "m = watermark_ix q" "read_ix q \<le> watermark_ix q"
    using assms by (simp_all add: loaded_ok_def shape_def)
  show ?thesis
  proof (cases "r = m")
    case e: True
    then have "read_with q r w m = Inr (Inl NoBytes, q\<lparr>read_ix := 0, read_granted := False\<rparr>)"
      using True by (simp add: read_with_def nsub_def)
    moreover have "contents (q\<lparr>read_ix := 0, read_granted := False\<rparr>) = contents q"
      using two e by (simp add: contents_def)
    ultimately show ?thesis using assms(1) two e by (auto simp: shape_def)
  next
    case False
    then have "read_with q r w m = Inr (Inr \<lparr>first = r, size_of = m - r\<rparr>, q)"
      using True two by (simp add: read_with_def nsub_def)
    then show ?thesis using assms(1) two False by (auto simp: readable_at_def)
  qed
next
  case False
  have l: "r = read_ix q" "if write_ix q < read_ix q then w \<le> watermark_ix q else w \<le> write_ix q"
    using assms(2) False by (auto simp: loaded_ok_def)
  show ?thesis
  proof (cases "w = r")
    case True
    then have "read_with q r w m = Inr (Inl NoBytes, q\<lparr>read_granted := False\<rparr>)"
      by (simp add: read_with_def nsub_def)
    moreover have "contents (q\<lparr>read_granted := False\<rparr>) = contents q" by (simp add: contents_def)
    ultimately show ?thesis using assms(1) by (auto simp: shape_def)
  next
    case ne: False
    then have "read_with q r w m = Inr (Inr \<lparr>first = r, size_of = w - r\<rparr>, q)"
      using False by (simp add: read_with_def nsub_def)
    then show ?thesis using assms(1) False ne l by (auto simp: readable_at_def)
  qed
qed

lemma bip_release_ok:
  assumes "shape q" and "cons_ok q (CGranted g)"
  shows "bip_release q g n = q\<lparr>read_ix := read_ix q + min n (size_of g), read_granted := False\<rparr>"
    and "shape (bip_release q g n)"
    and "contents q = take n (grant_buffer q g) @ contents (bip_release q g n)"
proof -
  define k where "k = min n (size_of g)"
  have k: "read_ix q + k \<le> (if write_ix q < read_ix q then watermark_ix q else write_ix q)"
    using assms(2) by (auto simp: k_def readable_at_def)
  then have "read_ix q + k < 2 ^ 64" using assms(1) by (auto simp: shape_def split: if_splits)
  then show e: "bip_release q g n = q\<lparr>read_ix := read_ix q + min n (size_of g), read_granted := False\<rparr>"
    unfolding bip_release_def k_def [symmetric] by simp
  show "shape (bip_release q g n)"
    unfolding e k_def [symmetric] using assms(1) k by (auto simp: shape_def split: if_splits)
  have "take n (grant_buffer q g) = take k (drop (read_ix q) (storage q))"
    using assms(2) by (simp add: grant_buffer_def k_def readable_at_def min.commute)
  then show "contents q = take n (grant_buffer q g) @ contents (bip_release q g n)"
    unfolding e k_def [symmetric] using k slice_drop [of "read_ix q" k]
    by (auto simp: contents_def split: if_splits)
qed

subsection \<open>Every interleaving keeps the invariant\<close>

text \<open>A step of one side keeps the facts the other side relies on.\<close>

lemma cons_ok_mark:
  assumes "cons_ok q c" and "read_ix q' = read_ix q" "write_ix q' = write_ix q"
    and "write_ix q < read_ix q \<longrightarrow> watermark_ix q' = watermark_ix q"
  shows "cons_ok q' c"
  using assms by (cases c) (auto simp: loaded_ok_def readable_at_def split: if_splits)

lemma cons_ok_publish:
  assumes "shape q" and "prod_ok q (PMarked g n)" and "cons_ok q c"
  shows "cons_ok (commit_publish q) c"
  using assms
  by (cases c) (auto simp: commit_publish_def bip_defs split: if_splits)

lemma prod_ok_release:
  assumes "shape q" and "prod_ok q p" and "readable_at q (read_ix q) k"
  shows "prod_ok (q\<lparr>read_ix := read_ix q + k, read_granted := False\<rparr>) p"
  using assms by (cases p) (auto simp: bip_defs split: if_splits)

lemma prod_ok_wrap:
  assumes "shape q" and "prod_ok q p" and "write_ix q < read_ix q" and "read_ix q = watermark_ix q"
  shows "prod_ok (q\<lparr>read_ix := 0, read_granted := False\<rparr>) p"
  using assms by (cases p) (auto simp: bip_defs split: if_splits)

lemma ok_cong:
  assumes "read_ix q' = read_ix q" "write_ix q' = write_ix q" "watermark_ix q' = watermark_ix q"
    and "reserve_ix q' = reserve_ix q" "length (storage q') = length (storage q)"
  shows "prod_ok q' p \<longleftrightarrow> prod_ok q p" and "cons_ok q' c \<longleftrightarrow> cons_ok q c" and "shape q' \<longleftrightarrow> shape q"
  using assms by (cases p; cases c; simp add: bip_defs)+

lemma fill_cong:
  assumes "capacity (grant_fill q g bs) = capacity q"
  shows "prod_ok (grant_fill q g bs) p \<longleftrightarrow> prod_ok q p" and "cons_ok (grant_fill q g bs) c \<longleftrightarrow> cons_ok q c"
    and "shape (grant_fill q g bs) \<longleftrightarrow> shape q"
  by (rule ok_cong; (rule assms | simp add: grant_fill_def))+

lemma spsc_inv_init: "length uninit < 2 ^ 64 \<Longrightarrow> spsc_inv (spsc_init uninit)"
  by (simp add: spsc_inv_def spsc_init_def bip_new_def shape_def contents_def)

lemma spsc_step_producer:
  assumes "spsc_inv s" and "prod s = PGranted g" and "commit_mark (queue s) g n = Inr q"
  shows "spsc_inv (s\<lparr>queue := q, prod := PMarked g (min n (size_of g))\<rparr>)"
proof -
  have inv: "shape (queue s)" "prod_ok (queue s) (PGranted g)" using assms(1,2) by (simp_all add: spsc_inv_def)
  note m = commit_mark_ok [OF inv, of n, unfolded assms(3)]
  have "cons_ok q (cons s)" using m assms(1) cons_ok_mark [of "queue s" "cons s" q] by (auto simp: spsc_inv_def)
  moreover have "contents q = contents (queue s)" using m by (intro contents_cong) auto
  ultimately show ?thesis using m assms(1,2) by (auto simp: spsc_inv_def)
qed

lemma spsc_step_consumer:
  assumes "spsc_inv s" and "cons s = CBoth r w m" and "read_with (queue s) r w m = Inr (res, q)"
  shows "spsc_inv (s\<lparr>queue := q, cons := (case res of Inl e \<Rightarrow> CIdle | Inr g \<Rightarrow> CGranted g)\<rparr>)"
proof -
  have inv: "shape (queue s)" "cons_ok (queue s) (CBoth r w m)" "prod_ok (queue s) (prod s)"
    using assms(1,2) by (simp_all add: spsc_inv_def)
  note ok = read_with_ok [OF inv(1,2), unfolded assms(3)]
  have "prod_ok q (prod s)"
    using ok inv prod_ok_wrap [OF inv(1,3)] ok_cong(1) [of "(queue s)\<lparr>read_granted := False\<rparr>" "queue s"] by auto
  moreover have "write_granted q = write_granted (queue s)" using ok by auto
  ultimately show ?thesis
    using ok assms(1,2) by (auto simp: spsc_inv_def split: sum.splits)
qed

lemma spsc_step_inv:
  assumes "spsc_step s s'" and "spsc_inv s"
  shows "spsc_inv s'"
  using assms
proof (cases rule: spsc_step.cases)
  case (p_load l)
  then show ?thesis
    using assms(2) ok_cong [of "(queue s)\<lparr>write_granted := True\<rparr>" "queue s"]
    by (auto simp: spsc_inv_def contents_def bip_defs)
next
  case (p_grant l r g q)
  then have q: "q = (queue s)\<lparr>reserve_ix := first g + size_of g\<rparr>"
      "writable_at (queue s) (capacity (queue s)) (first g) (size_of g)"
    using grant_with_ok [of "queue s" l r g q] assms(2) by (simp_all add: spsc_inv_def)
  have "cons_ok q (cons s)" using assms(2) cons_ok_mark [of "queue s" "cons s" q] q(1) by (simp add: spsc_inv_def)
  moreover have "prod_ok q (PGranted g)" using q by (auto simp: writable_at_def split: if_splits)
  moreover have "shape q" and "contents q = contents (queue s)"
    using q assms(2) by (simp_all add: spsc_inv_def contents_def shape_def)
  ultimately show ?thesis using q(1) assms(2) p_grant by (simp add: spsc_inv_def)
next
  case (p_refuse l r e q)
  then have "q = (queue s)\<lparr>write_granted := False\<rparr>"
    by (auto simp: grant_with_def rbind_eq_Inr case_sum_eq)
  then show ?thesis
    using p_refuse assms(2) ok_cong [of q "queue s"] by (simp add: spsc_inv_def contents_def)
next
  case (p_fill g bs)
  have inv: "shape (queue s)" "prod_ok (queue s) (PGranted g)" using assms(2) p_fill by (simp_all add: spsc_inv_def)
  note f = grant_fill_ok [OF inv, of bs]
  have ok: "prod_ok (grant_fill (queue s) g bs) (PGranted g)" "cons_ok (grant_fill (queue s) g bs) (cons s)"
      "shape (grant_fill (queue s) g bs)"
    using fill_cong [OF f(1)] inv assms(2) by (simp_all only: spsc_inv_def)
  have "write_granted (grant_fill (queue s) g bs) = write_granted (queue s)"
      "read_granted (grant_fill (queue s) g bs) = read_granted (queue s)"
    by (simp_all add: grant_fill_def)
  then show ?thesis
    using p_fill assms(2) f(2) ok by (simp add: spsc_inv_def)
next
  case (p_mark g q n)
  then show ?thesis using spsc_step_producer [OF assms(2)] by simp
next
  case (p_publish g n)
  have inv: "shape (queue s)" "prod_ok (queue s) (PMarked g n)" "cons_ok (queue s) (cons s)"
    using assms(2) p_publish by (simp_all add: spsc_inv_def)
  show ?thesis
    using p_publish assms(2) commit_publish_ok [OF inv(1,2)] cons_ok_publish [OF inv]
    by (simp add: spsc_inv_def) (simp add: commit_publish_def)
next
  case (p_drop g)
  then show ?thesis
    using assms(2) ok_cong [of "write_grant_drop (queue s)" "queue s"]
    by (simp add: spsc_inv_def contents_def write_grant_drop_def)
next
  case c_write
  then show ?thesis
    using assms(2) ok_cong [of "(queue s)\<lparr>read_granted := True\<rparr>" "queue s"]
    by (auto simp: spsc_inv_def contents_def bip_defs)
next
  case (c_mark r w)
  then show ?thesis using assms(2) by (simp add: spsc_inv_def)
next
  case (c_grant r w m g q)
  then show ?thesis using spsc_step_consumer [OF assms(2)] by fastforce
next
  case (c_refuse r w m e q)
  then show ?thesis using spsc_step_consumer [OF assms(2)] by fastforce
next
  case (c_release g n)
  have inv: "shape (queue s)" "cons_ok (queue s) (CGranted g)" "prod_ok (queue s) (prod s)"
    using assms(2) c_release by (simp_all add: spsc_inv_def)
  have "readable_at (queue s) (read_ix (queue s)) (min n (size_of g))"
    using inv(2) by (auto simp: readable_at_def)
  then have "prod_ok (bip_release (queue s) g n) (prod s)"
    using prod_ok_release [OF inv(1,3)] unfolding bip_release_ok(1) [OF inv(1,2)] by blast
  then show ?thesis
    using c_release assms(2) bip_release_ok [OF inv(1,2), of n] by (simp add: spsc_inv_def)
next
  case (c_drop g)
  then show ?thesis
    using assms(2) ok_cong [of "read_grant_drop (queue s)" "queue s"]
    by (simp add: spsc_inv_def contents_def read_grant_drop_def)
qed

lemma spsc_reachable_inv:
  assumes "spsc_reachable uninit s" and "length uninit < 2 ^ 64"
  shows "spsc_inv s"
  using assms by induction (auto intro: spsc_inv_init spsc_step_inv)

subsection \<open>Properties\<close>

text \<open>The positions of the bytes that are in the queue.\<close>

definition unread_at :: "bip_queue \<Rightarrow> nat set" where
  "unread_at q =
     (if write_ix q < read_ix q then {read_ix q ..< watermark_ix q} \<union> {0 ..< write_ix q}
      else {read_ix q ..< write_ix q})"

abbreviation region :: "grant_region \<Rightarrow> nat set" where
  "region g \<equiv> {first g ..< first g + size_of g}"

text \<open>C20: in every interleaving of one producer and one consumer, at the granularity of their atomic
  accesses, the bytes committed so far are exactly the bytes released so far followed by the bytes in
  the queue: none is lost, duplicated, reordered or altered.\<close>

theorem bip_fifo:
  assumes "spsc_reachable uninit s" and "length uninit < 2 ^ 64"
  shows "committed s = released s @ contents (queue s)"
  using spsc_reachable_inv [OF assms] by (simp add: spsc_inv_def)

lemma reachable_commit:
  "spsc_reachable [0, 0] \<lparr>queue = \<lparr>storage = [7, 8], read_ix = 0, write_ix = 1, reserve_ix = 1, watermark_ix = 2,
     read_granted = False, write_granted = False\<rparr>, prod = PIdle, cons = CIdle, committed = [7], released = []\<rparr>"
proof -
  let ?g = "\<lparr>first = 0, size_of = 2\<rparr>"
  let ?q = "\<lambda>st w r b. \<lparr>storage = st, read_ix = 0, write_ix = w, reserve_ix = r, watermark_ix = 2,
     read_granted = False, write_granted = b\<rparr>"
  let ?s = "\<lambda>q p c. \<lparr>queue = q, prod = p, cons = CIdle, committed = c, released = []\<rparr>"
  have "spsc_step (spsc_init [0, 0]) (?s (?q [0, 0] 0 0 True) (PLoaded 2 0) [])"
    using p_load [of "spsc_init [0, 0]" 2] by (simp add: spsc_init_def bip_new_def numeral_2_eq_2)
  moreover have "spsc_step (?s (?q [0, 0] 0 0 True) (PLoaded 2 0) []) (?s (?q [0, 0] 0 2 True) (PGranted ?g) [])"
    using p_grant [of "?s (?q [0, 0] 0 0 True) (PLoaded 2 0) []" 2 0 ?g "?q [0, 0] 0 2 True"]
    by (simp add: grant_with_def grant_start_def nadd_def)
  moreover have "spsc_step (?s (?q [0, 0] 0 2 True) (PGranted ?g) []) (?s (?q [7, 8] 0 2 True) (PGranted ?g) [])"
    using p_fill [of "?s (?q [0, 0] 0 2 True) (PGranted ?g) []" ?g "[7, 8]"] by (simp add: grant_fill_def)
  moreover have "spsc_step (?s (?q [7, 8] 0 2 True) (PGranted ?g) []) (?s (?q [7, 8] 0 1 True) (PMarked ?g 1) [])"
    using p_mark [of "?s (?q [7, 8] 0 2 True) (PGranted ?g) []" ?g 1 "?q [7, 8] 0 1 True"]
    by (simp add: commit_mark_def nsub_def)
  moreover have "spsc_step (?s (?q [7, 8] 0 1 True) (PMarked ?g 1) []) (?s (?q [7, 8] 1 1 False) PIdle [7])"
    using p_publish [of "?s (?q [7, 8] 0 1 True) (PMarked ?g 1) []" ?g 1]
    by (simp add: commit_publish_def grant_buffer_def)
  ultimately show ?thesis by (meson spsc_reachable.intros)
qed

theorem bip_fifo_witness:
  "[7] = [] @ contents \<lparr>storage = [7, 8], read_ix = 0, write_ix = 1, reserve_ix = 1, watermark_ix = 2,
     read_granted = False, write_granted = False\<rparr>"
  using bip_fifo [OF reachable_commit] by simp

text \<open>C21: in every interleaving, the region granted to the producer lies within the buffer and meets
  neither a byte that is still to be read nor the region granted to the consumer, which holds bytes of
  the queue.\<close>

theorem bip_grants_disjoint:
  assumes "spsc_reachable uninit s" and "length uninit < 2 ^ 64" and "prod s = PGranted g"
  shows "region g \<subseteq> {0 ..< capacity (queue s)} \<and> region g \<inter> unread_at (queue s) = {} \<and>
     (\<forall>h. cons s = CGranted h \<longrightarrow> region h \<subseteq> unread_at (queue s) \<and> region g \<inter> region h = {})"
proof -
  have inv: "shape (queue s)" "prod_ok (queue s) (PGranted g)" "cons_ok (queue s) (cons s)"
    using spsc_reachable_inv [OF assms(1,2)] assms(3) by (simp_all add: spsc_inv_def)
  have g: "region g \<subseteq> {0 ..< capacity (queue s)}" "region g \<inter> unread_at (queue s) = {}"
    using inv(1,2) by (auto simp: bip_defs unread_at_def split: if_splits)
  moreover have "region h \<subseteq> unread_at (queue s)" if "cons s = CGranted h" for h
    using inv that by (auto simp: bip_defs unread_at_def split: if_splits)
  ultimately show ?thesis by blast
qed

lemma reachable_grant:
  "spsc_reachable [0, 0] ((spsc_init [0, 0])\<lparr>queue := (bip_new [0, 0])\<lparr>write_granted := True, reserve_ix := 2\<rparr>,
     prod := PGranted \<lparr>first = 0, size_of = 2\<rparr>\<rparr>)"
proof -
  let ?s = "(spsc_init [0, 0])\<lparr>queue := (bip_new [0, 0])\<lparr>write_granted := True\<rparr>, prod := PLoaded 2 0\<rparr>"
  have "spsc_step (spsc_init [0, 0]) ?s"
    using p_load [of "spsc_init [0, 0]" 2] by (simp add: spsc_init_def bip_new_def)
  moreover have "spsc_step ?s (?s\<lparr>queue := (bip_new [0, 0])\<lparr>write_granted := True, reserve_ix := 2\<rparr>,
      prod := PGranted \<lparr>first = 0, size_of = 2\<rparr>\<rparr>)"
    by (rule p_grant [of _ 2 0]) (simp_all add: bip_new_def grant_with_def grant_start_def nadd_def)
  ultimately show ?thesis
    using spsc_reachable.intros [of "[0, 0]"] by (simp add: spsc_init_def) blast
qed

theorem bip_grants_disjoint_witness:
  "region \<lparr>first = 0, size_of = 2\<rparr> \<inter> unread_at ((bip_new [0, 0])\<lparr>write_granted := True, reserve_ix := 2\<rparr>) = {}"
  using bip_grants_disjoint [OF reachable_grant, of "\<lparr>first = 0, size_of = 2\<rparr>"] by simp

text \<open>C22: in every interleaving no operation panics on the way, except for a requested length that
  overflows the index type: a read always ends with a grant or with no bytes, a commit always succeeds.\<close>

theorem bip_no_panic:
  assumes "spsc_reachable uninit s" and "length uninit < 2 ^ 64"
  shows "(\<forall>g n. prod s = PGranted g \<longrightarrow> (\<exists>q. commit_mark (queue s) g n = Inr q)) \<and>
     (\<forall>r w m. cons s = CBoth r w m \<longrightarrow> (\<exists>res q. read_with (queue s) r w m = Inr (res, q))) \<and>
     (\<forall>l r. prod s = PLoaded l r \<and> write_ix (queue s) + l < 2 ^ 64 \<longrightarrow>
       (\<exists>res q. grant_with (queue s) r l = Inr (res, q)))"
proof -
  have inv: "shape (queue s)" "prod_ok (queue s) (prod s)" "cons_ok (queue s) (cons s)"
    using spsc_reachable_inv [OF assms] by (simp_all add: spsc_inv_def)
  have "\<exists>q. commit_mark (queue s) g n = Inr q" if "prod s = PGranted g" for g n
    using commit_mark_ok [OF inv(1), of g n] inv(2) that by auto
  moreover have "\<exists>res q. read_with (queue s) r w m = Inr (res, q)" if "cons s = CBoth r w m" for r w m
    using read_with_ok [OF inv(1), of r w m] inv(3) that by auto
  moreover have "\<exists>res q. grant_with (queue s) r l = Inr (res, q)" if "write_ix (queue s) + l < 2 ^ 64" for l r
    using that by (auto simp: grant_with_def grant_start_def nadd_def)
  ultimately show ?thesis by blast
qed

theorem bip_no_panic_witness:
  "\<exists>q. commit_mark ((bip_new [0, 0])\<lparr>write_granted := True, reserve_ix := 2\<rparr>) \<lparr>first = 0, size_of = 2\<rparr> 1 = Inr q"
  using bip_no_panic [OF reachable_grant] by simp

text \<open>Writing through a grant and committing appends exactly the written bytes to the queue.\<close>

lemma bip_write_appends:
  assumes "shape q" and "bip_grant q l = Inr (Inr g, q')" and "length bs = l" and "n \<le> l"
  shows "\<exists>q''. bip_commit (grant_fill q' g bs) g n = Inr q'' \<and> contents q'' = contents q @ take n bs \<and>
     shape q'' \<and> \<not> write_granted q''"
proof -
  let ?q = "q\<lparr>write_granted := True\<rparr>"
  have s: "shape ?q" "prod_ok ?q (PLoaded l (read_ix q))"
    using assms(1) by (auto simp: shape_def split: if_splits)
  have "grant_with ?q (read_ix q) l = Inr (Inr g, q')" using assms(2) by (auto simp: bip_grant_def split: if_splits)
  note g = grant_with_ok [OF s this]
  have size: "size_of g = l" using assms(2)
    by (auto simp: bip_grant_def grant_with_def rbind_eq_Inr case_sum_eq split: if_splits)
  have sg: "shape q'" "prod_ok q' (PGranted g)" "contents q' = contents q"
    using g assms(1) by (auto simp: shape_def writable_at_def contents_def split: if_splits)
  note f = grant_fill_ok [OF sg(1,2), of bs]
  let ?f = "grant_fill q' g bs"
  have sf: "shape ?f" "prod_ok ?f (PGranted g)"
    using fill_cong [OF f(1)] sg by (simp_all only:)
  have min: "min n (size_of g) = n" using assms(4) size by simp
  obtain m where m: "commit_mark ?f g n = Inr m" "prod_ok m (PMarked g n)" "shape m" "storage m = storage ?f"
      "read_ix m = read_ix ?f" "write_ix m = write_ix ?f"
      "write_ix ?f < read_ix ?f \<longrightarrow> watermark_ix m = watermark_ix ?f"
    using commit_mark_ok [OF sf, of n] unfolding min by blast
  have c: "contents m = contents ?f" using m(4-7) by (intro contents_cong) blast+
  have "first g + l \<le> capacity q'"
    using g size assms(1) by (auto simp: shape_def writable_at_def split: if_splits)
  then have "take n (grant_buffer m g) = take n bs"
    using assms(3,4) size m(4) by (simp add: grant_buffer_def grant_fill_def min_absorb1)
  then show ?thesis
    using m(1) c commit_publish_ok [OF m(3,2)] f(2) sg(3) by (simp add: bip_commit_def) (simp add: commit_publish_def)
qed

text \<open>C35: a read that finds the upper region used up reports that there are no bytes even when the lower
  region holds some; only the next attempt returns them.\<close>

theorem bip_read_spurious:
  assumes "shape q" and "\<not> read_granted q" and "0 < write_ix q" and "write_ix q < read_ix q"
    and "read_ix q = watermark_ix q"
  shows "contents q \<noteq> [] \<and>
     (\<exists>q'. bip_read q = Inr (Inl NoBytes, q') \<and> contents q' = contents q \<and>
       (\<exists>g q''. bip_read q' = Inr (Inr g, q'') \<and> grant_buffer q'' g = contents q))"
  using assms
  by (auto simp: bip_read_def read_with_def nsub_def contents_def grant_buffer_def slice_def shape_def)

theorem bip_read_spurious_witness:
  "bip_read \<lparr>storage = [1, 2, 3, 4], read_ix = 3, write_ix = 2, reserve_ix = 2, watermark_ix = 3,
     read_granted = False, write_granted = False\<rparr> =
   Inr (Inl NoBytes, \<lparr>storage = [1, 2, 3, 4], read_ix = 0, write_ix = 2, reserve_ix = 2, watermark_ix = 3,
     read_granted = False, write_granted = False\<rparr>)"
  using bip_read_spurious [of "\<lparr>storage = [1, 2, 3, 4], read_ix = 3, write_ix = 2, reserve_ix = 2, watermark_ix = 3,
     read_granted = False, write_granted = False\<rparr>"]
  by (simp add: shape_def bip_read_def read_with_def nsub_def)

end
