(* ===== verification/Hal_Page_Tables.thy ===== *)
theory Hal_Page_Tables
  imports Fallible_State Allocator_Spec Bit_Fields
begin

text \<open>
  What the page tables of \<open>lib/hal_x86_64/src/paging.rs\<close> and \<open>lib/hal_riscv/src/paging.rs\<close> have in
  common.  The two files repeat the code of tables, of the descent through them, of translation, mapping
  and unmapping and of the mapping of ranges and areas word for word; they differ in the format of an
  entry, which is the record \<open>paging_format\<close> here, and in the number of levels.

  A reference to a table is the virtual address at which the table is accessed: physical memory is
  mapped from \<open>physical_base\<close>, and the store \<open>memory\<close> holds the entries of the table at each such
  address.  The frame allocator is a parameter with a state of its own.  Flushes of the translation
  buffer have no effect in the model.
\<close>

subsection \<open>Tables\<close>

record 'a paging =
  memory :: "vaddr \<Rightarrow> nat \<Rightarrow> u64"
  frames :: 'a

record paging_format =
  fmt_target :: target
  fmt_levels :: nat
  fmt_address :: "u64 \<Rightarrow> panic + paddr option"   \<comment> \<open>\<open>Entry::address\<close>\<close>
  fmt_is_leaf :: "u64 \<Rightarrow> bool"                   \<comment> \<open>the check for a larger page in \<open>next_table_create\<close>\<close>
  fmt_in_use :: "u64 \<Rightarrow> bool"                    \<comment> \<open>the check of \<open>map\<close>\<close>
  fmt_table :: "paddr \<Rightarrow> u64"                    \<comment> \<open>the entry \<open>next_table_create\<close> writes\<close>
  fmt_mapping :: "frame_size \<Rightarrow> paddr \<Rightarrow> flags \<Rightarrow> u64"  \<comment> \<open>the entry \<open>map\<close> writes\<close>
  fmt_ends :: "nat \<Rightarrow> u64 \<Rightarrow> bool"               \<comment> \<open>where the processor's walk ends, by the level\<close>

type_synonym ('a, 'b) paging_op = "('a paging, paging_error, 'b) sys"
type_synonym 'a map_page = "frame_size \<Rightarrow> vaddr \<Rightarrow> paddr \<Rightarrow> flags \<Rightarrow> ('a, unit) paging_op"
type_synonym 'a frame_alloc = "'a \<Rightarrow> panic + (paddr \<times> 'a)"

definition ENTRY_COUNT :: nat where
  "ENTRY_COUNT = 512"

definition table_index :: "vaddr \<Rightarrow> usize \<Rightarrow> ('a, u64) paging_op" where
  "table_index table index =
     sget (\<lambda>st. if unat index < ENTRY_COUNT then Inr (memory st table (unat index)) else Inl IndexOutOfBounds)"

definition table_set :: "vaddr \<Rightarrow> usize \<Rightarrow> u64 \<Rightarrow> ('a, unit) paging_op" where
  "table_set table index e =
     supdate (\<lambda>st. if unat index < ENTRY_COUNT
       then Inr (st\<lparr>memory := (memory st)(table := (memory st table)(unat index := e))\<rparr>)
       else Inl IndexOutOfBounds)"

definition table_zero :: "vaddr \<Rightarrow> ('a, unit) paging_op" where
  "table_zero table = smodify (\<lambda>st. st\<lparr>memory := (memory st)(table := \<lambda>_. 0)\<rparr>)"

definition allocate_frame :: "'a frame_alloc \<Rightarrow> ('a, paddr) paging_op" where
  "allocate_frame alloc = (\<lambda>st. rbind (alloc (frames st)) (\<lambda>(f, a). Inr (Inr f, st\<lparr>frames := a\<rparr>)))"

definition next_table :: "paging_format \<Rightarrow> vaddr \<Rightarrow> usize \<Rightarrow> vaddr \<Rightarrow> ('a, vaddr option) paging_op" where
  "next_table fmt table index physical_base =
     sbind (table_index table index) (\<lambda>e.
     sbind (slift (fmt_address fmt e)) (\<lambda>a.
       case a of
         None \<Rightarrow> sreturn None
       | Some physical_address \<Rightarrow>
           sbind (slift (vaddr_add (fmt_target fmt) physical_base physical_address)) (\<lambda>v. sreturn (Some v))))"

definition next_table_create ::
  "paging_format \<Rightarrow> 'a frame_alloc \<Rightarrow> vaddr \<Rightarrow> usize \<Rightarrow> vaddr \<Rightarrow> ('a, vaddr) paging_op" where
  "next_table_create fmt alloc table index physical_base =
     sbind (next_table fmt table index physical_base) (\<lambda>present.
       if present = None then
         sbind (allocate_frame alloc) (\<lambda>f.
         sbind (table_set table index (fmt_table fmt f)) (\<lambda>_.
         sbind (next_table fmt table index physical_base) (\<lambda>n.
         sbind (slift (runwrap n)) (\<lambda>t.
         sbind (table_zero t) (\<lambda>_. sreturn t)))))
       else
         sbind (table_index table index) (\<lambda>e.
           if fmt_is_leaf fmt e then sfail AlreadyMapped
           else sbind (next_table fmt table index physical_base) (\<lambda>n. slift (runwrap n))))"

subsection \<open>Indices\<close>

definition p4_index :: "bit_field_ops \<Rightarrow> vaddr \<Rightarrow> panic + usize" where
  "p4_index ops a = get_bits ops a 39 48"

definition p3_index :: "bit_field_ops \<Rightarrow> vaddr \<Rightarrow> panic + usize" where
  "p3_index ops a = get_bits ops a 30 39"

definition p2_index :: "bit_field_ops \<Rightarrow> vaddr \<Rightarrow> panic + usize" where
  "p2_index ops a = get_bits ops a 21 30"

definition p1_index :: "bit_field_ops \<Rightarrow> vaddr \<Rightarrow> panic + usize" where
  "p1_index ops a = get_bits ops a 12 21"

definition from_indices :: "bit_field_ops \<Rightarrow> target \<Rightarrow> usize \<Rightarrow> usize \<Rightarrow> usize \<Rightarrow> usize \<Rightarrow> panic + vaddr" where
  "from_indices ops t p4 p3 p2 p1 =
     rbind (set_bits ops 0 12 21 p1) (\<lambda>address.
     rbind (set_bits ops address 21 30 p2) (\<lambda>address.
     rbind (set_bits ops address 30 39 p3) (\<lambda>address.
     rbind (set_bits ops address 39 48 p4) (\<lambda>address. Inr (vaddr_new t address)))))"

subsection \<open>The last two levels\<close>

definition translate_p2 ::
  "paging_format \<Rightarrow> bit_field_ops \<Rightarrow> vaddr \<Rightarrow> vaddr \<Rightarrow> vaddr \<Rightarrow> ('a, paddr option) paging_op" where
  "translate_p2 fmt ops physical_base p2 address =
     sbind (slift (p2_index ops address)) (\<lambda>i2.
     sbind (table_index p2 i2) (\<lambda>p2_entry.
       if fmt_is_leaf fmt p2_entry then
         sbind (slift (fmt_address fmt p2_entry)) (\<lambda>a. case a of None \<Rightarrow> sreturn None | Some a \<Rightarrow>
         sbind (slift (rbind (urem address (SIZE Size2MiB)) (paddr_add (fmt_target fmt) a))) (\<lambda>p. sreturn (Some p)))
       else
         sbind (next_table fmt p2 i2 physical_base) (\<lambda>p1. case p1 of None \<Rightarrow> sreturn None | Some p1 \<Rightarrow>
         sbind (slift (p1_index ops address)) (\<lambda>i1.
         sbind (table_index p1 i1) (\<lambda>e.
         sbind (slift (fmt_address fmt e)) (\<lambda>a. case a of None \<Rightarrow> sreturn None | Some a \<Rightarrow>
         sbind (slift (rbind (urem address (SIZE Size4KiB)) (paddr_add (fmt_target fmt) a))) (\<lambda>p. sreturn (Some p))))))))"

definition map_entry ::
  "paging_format \<Rightarrow> vaddr \<Rightarrow> usize \<Rightarrow> frame_size \<Rightarrow> paddr \<Rightarrow> flags \<Rightarrow> ('a, unit) paging_op" where
  "map_entry fmt table i s frame fl =
     sbind (table_index table i) (\<lambda>e.
       if fmt_in_use fmt e then sfail AlreadyMapped
       else table_set table i (fmt_mapping fmt s frame fl))"

definition unmap_p2 ::
  "paging_format \<Rightarrow> bit_field_ops \<Rightarrow> vaddr \<Rightarrow> vaddr \<Rightarrow> vaddr \<Rightarrow> ('a, paddr option) paging_op" where
  "unmap_p2 fmt ops physical_base p2 page =
     sbind (slift (p2_index ops page)) (\<lambda>i2.
     sbind (next_table fmt p2 i2 physical_base) (\<lambda>p1. case p1 of None \<Rightarrow> sreturn None | Some p1 \<Rightarrow>
     sbind (slift (p1_index ops page)) (\<lambda>i1.
     sbind (table_index p1 i1) (\<lambda>e.
     sbind (slift (fmt_address fmt e)) (\<lambda>a. case a of None \<Rightarrow> sreturn None | Some a \<Rightarrow>
     sbind (slift (frame_starts_with Size4KiB a)) (\<lambda>frame.
     sbind (table_set p1 i1 0) (\<lambda>_. sreturn (Some frame))))))))"

subsection \<open>Four levels\<close>

definition page_table_new :: "paging_format \<Rightarrow> paddr \<Rightarrow> vaddr \<Rightarrow> ('a, unit) paging_op" where
  "page_table_new fmt top_frame physical_base =
     sbind (slift (vaddr_add (fmt_target fmt) physical_base top_frame)) table_zero"

definition translate_4 ::
  "paging_format \<Rightarrow> bit_field_ops \<Rightarrow> vaddr \<Rightarrow> paddr \<Rightarrow> vaddr \<Rightarrow> ('a, paddr option) paging_op" where
  "translate_4 fmt ops physical_base top_frame address =
     sbind (slift (vaddr_add (fmt_target fmt) physical_base top_frame)) (\<lambda>p4.
     sbind (slift (p4_index ops address)) (\<lambda>i4.
     sbind (next_table fmt p4 i4 physical_base) (\<lambda>p3. case p3 of None \<Rightarrow> sreturn None | Some p3 \<Rightarrow>
     sbind (slift (p3_index ops address)) (\<lambda>i3.
     sbind (next_table fmt p3 i3 physical_base) (\<lambda>p2. case p2 of None \<Rightarrow> sreturn None | Some p2 \<Rightarrow>
       translate_p2 fmt ops physical_base p2 address)))))"

definition map_4 ::
  "paging_format \<Rightarrow> bit_field_ops \<Rightarrow> 'a frame_alloc \<Rightarrow> vaddr \<Rightarrow> paddr \<Rightarrow> 'a map_page" where
  "map_4 fmt ops alloc physical_base top_frame s page frame fl =
     sbind (slift (vaddr_add (fmt_target fmt) physical_base top_frame)) (\<lambda>p4.
     sbind (slift (p4_index ops page)) (\<lambda>i4.
     sbind (next_table_create fmt alloc p4 i4 physical_base) (\<lambda>p3.
     case s of
       Size4KiB \<Rightarrow>
         sbind (slift (p3_index ops page)) (\<lambda>i3.
         sbind (next_table_create fmt alloc p3 i3 physical_base) (\<lambda>p2.
         sbind (slift (p2_index ops page)) (\<lambda>i2.
         sbind (next_table_create fmt alloc p2 i2 physical_base) (\<lambda>p1.
         sbind (slift (p1_index ops page)) (\<lambda>i1. map_entry fmt p1 i1 s frame fl)))))
     | Size2MiB \<Rightarrow>
         sbind (slift (p3_index ops page)) (\<lambda>i3.
         sbind (next_table_create fmt alloc p3 i3 physical_base) (\<lambda>p2.
         sbind (slift (p2_index ops page)) (\<lambda>i2. map_entry fmt p2 i2 s frame fl)))
     | Size1GiB \<Rightarrow>
         sbind (slift (p3_index ops page)) (\<lambda>i3. map_entry fmt p3 i3 s frame fl))))"

definition unmap_4 ::
  "paging_format \<Rightarrow> bit_field_ops \<Rightarrow> vaddr \<Rightarrow> paddr \<Rightarrow> frame_size \<Rightarrow> vaddr \<Rightarrow> ('a, paddr option) paging_op" where
  "unmap_4 fmt ops physical_base top_frame s page =
     (if s = Size4KiB then
        sbind (slift (vaddr_add (fmt_target fmt) physical_base top_frame)) (\<lambda>p4.
        sbind (slift (p4_index ops page)) (\<lambda>i4.
        sbind (next_table fmt p4 i4 physical_base) (\<lambda>p3. case p3 of None \<Rightarrow> sreturn None | Some p3 \<Rightarrow>
        sbind (slift (p3_index ops page)) (\<lambda>i3.
        sbind (next_table fmt p3 i3 physical_base) (\<lambda>p2. case p2 of None \<Rightarrow> sreturn None | Some p2 \<Rightarrow>
          unmap_p2 fmt ops physical_base p2 page)))))
      else slift (Inl Unimplemented))"

subsection \<open>Three levels\<close>

definition translate_3 ::
  "paging_format \<Rightarrow> bit_field_ops \<Rightarrow> vaddr \<Rightarrow> paddr \<Rightarrow> vaddr \<Rightarrow> ('a, paddr option) paging_op" where
  "translate_3 fmt ops physical_base top_frame address =
     sbind (slift (vaddr_add (fmt_target fmt) physical_base top_frame)) (\<lambda>p3.
     sbind (slift (p3_index ops address)) (\<lambda>i3.
     sbind (next_table fmt p3 i3 physical_base) (\<lambda>p2. case p2 of None \<Rightarrow> sreturn None | Some p2 \<Rightarrow>
       translate_p2 fmt ops physical_base p2 address)))"

definition map_3 ::
  "paging_format \<Rightarrow> bit_field_ops \<Rightarrow> 'a frame_alloc \<Rightarrow> vaddr \<Rightarrow> paddr \<Rightarrow> 'a map_page" where
  "map_3 fmt ops alloc physical_base top_frame s page frame fl =
     sbind (slift (vaddr_add (fmt_target fmt) physical_base top_frame)) (\<lambda>p3.
     sbind (slift (p3_index ops page)) (\<lambda>i3.
     case s of
       Size4KiB \<Rightarrow>
         sbind (next_table_create fmt alloc p3 i3 physical_base) (\<lambda>p2.
         sbind (slift (p2_index ops page)) (\<lambda>i2.
         sbind (next_table_create fmt alloc p2 i2 physical_base) (\<lambda>p1.
         sbind (slift (p1_index ops page)) (\<lambda>i1. map_entry fmt p1 i1 s frame fl))))
     | Size2MiB \<Rightarrow>
         sbind (next_table_create fmt alloc p3 i3 physical_base) (\<lambda>p2.
         sbind (slift (p2_index ops page)) (\<lambda>i2. map_entry fmt p2 i2 s frame fl))
     | Size1GiB \<Rightarrow> map_entry fmt p3 i3 s frame fl))"

definition unmap_3 ::
  "paging_format \<Rightarrow> bit_field_ops \<Rightarrow> vaddr \<Rightarrow> paddr \<Rightarrow> frame_size \<Rightarrow> vaddr \<Rightarrow> ('a, paddr option) paging_op" where
  "unmap_3 fmt ops physical_base top_frame s page =
     (if s = Size4KiB then
        sbind (slift (vaddr_add (fmt_target fmt) physical_base top_frame)) (\<lambda>p3.
        sbind (slift (p3_index ops page)) (\<lambda>i3.
        sbind (next_table fmt p3 i3 physical_base) (\<lambda>p2. case p2 of None \<Rightarrow> sreturn None | Some p2 \<Rightarrow>
          unmap_p2 fmt ops physical_base p2 page)))
      else slift (Inl Unimplemented))"

subsection \<open>Mapping a range\<close>

text \<open>\<open>for (page, frame) in pages.zip(frames)\<close>: each range yields its start and advances by one
  step, the pages first.\<close>

function map_range ::
  "target \<Rightarrow> 'a map_page \<Rightarrow> frame_size \<Rightarrow> vaddr \<Rightarrow> vaddr \<Rightarrow> paddr \<Rightarrow> paddr \<Rightarrow> flags \<Rightarrow> ('a, unit) paging_op" where
  "map_range t map_page s page page_end frame frame_end fl =
     (if page < page_end then
        sbind (slift (runwrap (page_forward_checked t s page 1))) (\<lambda>next_page.
          if frame < frame_end then
            (case frame_forward_checked t s frame 1 of
               None \<Rightarrow> slift (Inl UnwrapFailed)
             | Some next_frame \<Rightarrow>
                 sbind (map_page s page frame fl) (\<lambda>_.
                   map_range t map_page s next_page page_end next_frame frame_end fl))
          else sreturn ())
      else sreturn ())"
  by pat_completeness auto
termination
proof (relation "measure (\<lambda>(t, map_page, s, page, page_end, frame, frame_end, fl). unat frame_end - unat frame)")
  fix t s and frame frame_end next_frame :: paddr
  assume "frame < frame_end" and "frame_forward_checked t s frame 1 = Some next_frame"
  then have "unat frame_end - unat next_frame < unat frame_end - unat frame"
    using frame_forward_checked_greater [of t s frame next_frame] SIZE_pos [of s]
    by (simp add: word_less_nat_alt del: SIZE_pos)
  then show "((t, map_page :: 'a map_page, s, next_page, page_end, next_frame, frame_end, fl),
      t, map_page, s, page, page_end, frame, frame_end, fl)
      \<in> measure (\<lambda>(t, map_page, s, page, page_end, frame, frame_end, fl). unat frame_end - unat frame)"
    for map_page next_page page page_end fl by simp
qed simp

declare map_range.simps [simp del]

subsection \<open>Mapping an area\<close>

text \<open>One round of the loop of \<open>map_area\<close>: the new value of \<open>cursor\<close>.\<close>

definition map_bytes ::
  "target \<Rightarrow> 'a map_page \<Rightarrow> frame_size \<Rightarrow> vaddr \<Rightarrow> paddr \<Rightarrow> usize \<Rightarrow> flags \<Rightarrow> ('a, vaddr) paging_op" where
  "map_bytes t map_page s cursor cursor_physical bytes_to_map fl =
     sbind (slift (page_starts_with s cursor)) (\<lambda>page.
     sbind (slift (rbind (vaddr_add t cursor bytes_to_map) (page_starts_with s))) (\<lambda>page_end.
     sbind (slift (frame_starts_with s cursor_physical)) (\<lambda>frame.
     sbind (slift (rbind (paddr_add t cursor_physical bytes_to_map) (frame_starts_with s))) (\<lambda>frame_end.
     sbind (map_range t map_page s page page_end frame frame_end fl) (\<lambda>_.
       slift (vaddr_add t cursor bytes_to_map))))))"

definition fits_page :: "frame_size \<Rightarrow> vaddr \<Rightarrow> paddr \<Rightarrow> usize \<Rightarrow> panic + bool" where
  "fits_page s cursor cursor_physical bytes_left =
     rbind (vaddr_is_aligned cursor (SIZE s)) (\<lambda>v.
       if v then rbind (paddr_is_aligned cursor_physical (SIZE s)) (\<lambda>p. Inr (p \<and> bytes_left \<ge> SIZE s)) else Inr False)"

definition map_area_step ::
  "target \<Rightarrow> 'a map_page \<Rightarrow> vaddr \<Rightarrow> paddr \<Rightarrow> vaddr \<Rightarrow> flags \<Rightarrow> vaddr \<Rightarrow> ('a, vaddr) paging_op" where
  "map_area_step t map_page virtual_start physical_start virtual_end fl cursor =
     sbind (slift (rbind (uadd physical_start cursor) (\<lambda>s. rbind (usub s virtual_start) (\<lambda>a.
       runwrap (paddr_new t a))))) (\<lambda>cursor_physical.
     sbind (slift (usub virtual_end cursor)) (\<lambda>bytes_left.
     sbind (slift (fits_page Size1GiB cursor cursor_physical bytes_left)) (\<lambda>huge.
       if huge then
         sbind (slift (align_down bytes_left (SIZE Size1GiB))) (\<lambda>bytes_to_map.
           map_bytes t map_page Size1GiB cursor cursor_physical bytes_to_map fl)
       else
         sbind (slift (fits_page Size2MiB cursor cursor_physical bytes_left)) (\<lambda>large.
           if large then
             sbind (slift (align_down bytes_left (SIZE Size2MiB))) (\<lambda>bytes_to_map.
               map_bytes t map_page Size2MiB cursor cursor_physical bytes_to_map fl)
           else
             sbind (slift (rbind (vaddr_add t cursor 1) (\<lambda>c. vaddr_align_up c (SIZE Size2MiB)))) (\<lambda>next_boundary.
             sbind (slift (usub next_boundary cursor)) (\<lambda>to_boundary.
             sbind (slift (usub virtual_end cursor)) (\<lambda>to_end.
               map_bytes t map_page Size4KiB cursor cursor_physical (min to_boundary to_end) fl)))))))"

text \<open>The loop; \<open>None\<close> would be a loop that does not end.\<close>

partial_function (option) map_area_loop ::
  "target \<Rightarrow> 'a map_page \<Rightarrow> vaddr \<Rightarrow> paddr \<Rightarrow> vaddr \<Rightarrow> flags \<Rightarrow> vaddr \<Rightarrow> 'a paging \<Rightarrow>
     (panic + ((paging_error + vaddr) \<times> 'a paging)) option" where
  "map_area_loop t map_page virtual_start physical_start virtual_end fl cursor st =
     (if cursor < virtual_end then
        (case map_area_step t map_page virtual_start physical_start virtual_end fl cursor st of
           Inl p \<Rightarrow> Some (Inl p)
         | Inr r \<Rightarrow>
             (case fst r of
                Inl e \<Rightarrow> Some (Inr (Inl e, snd r))
              | Inr cursor' \<Rightarrow>
                  map_area_loop t map_page virtual_start physical_start virtual_end fl cursor' (snd r)))
      else Some (Inr (Inr cursor, st)))"

definition map_area_checks ::
  "target \<Rightarrow> vaddr \<Rightarrow> paddr \<Rightarrow> usize \<Rightarrow> panic + bool" where
  "map_area_checks t virtual_start physical_start bytes =
     rbind (vaddr_is_aligned virtual_start (SIZE Size4KiB)) (\<lambda>a. rbind (rassert a) (\<lambda>_.
     rbind (paddr_is_aligned physical_start (SIZE Size4KiB)) (\<lambda>a. rbind (rassert a) (\<lambda>_.
     rbind (urem bytes (SIZE Size4KiB)) (\<lambda>r. rbind (rassert (r = 0)) (\<lambda>_.
     rbind (abs_difference physical_start virtual_start) (\<lambda>d.
     rbind (urem d (SIZE Size2MiB)) (\<lambda>phase. Inr (bytes < SIZE Size2MiB \<or> phase \<noteq> 0)))))))))"

definition pt_map_area ::
  "target \<Rightarrow> 'a map_page \<Rightarrow> vaddr \<Rightarrow> paddr \<Rightarrow> usize \<Rightarrow> flags \<Rightarrow> 'a paging \<Rightarrow>
     (panic + ((paging_error + unit) \<times> 'a paging)) option" where
  "pt_map_area t map_page virtual_start physical_start bytes fl st =
     (case map_area_checks t virtual_start physical_start bytes of
        Inl p \<Rightarrow> Some (Inl p)
      | Inr small \<Rightarrow>
          if small then
            Some (sbind (slift (page_starts_with Size4KiB virtual_start)) (\<lambda>page.
              sbind (slift (rbind (vaddr_add t virtual_start bytes) (page_starts_with Size4KiB))) (\<lambda>page_end.
              sbind (slift (frame_starts_with Size4KiB physical_start)) (\<lambda>frame.
              sbind (slift (rbind (paddr_add t physical_start bytes) (frame_starts_with Size4KiB))) (\<lambda>frame_end.
                map_range t map_page Size4KiB page page_end frame frame_end fl)))) st)
          else
            (case vaddr_add t virtual_start bytes of
               Inl p \<Rightarrow> Some (Inl p)
             | Inr virtual_end \<Rightarrow>
                 map_option (\<lambda>r. rbind r (\<lambda>(r, st'). case r of
                     Inl e \<Rightarrow> Inr (Inl e, st')
                   | Inr cursor \<Rightarrow> rbind (rassert (cursor = virtual_end)) (\<lambda>_. Inr (Inr (), st'))))
                   (map_area_loop t map_page virtual_start physical_start virtual_end fl virtual_start st)))"

end
