(* ===== verification/Page_Geometry.thy ===== *)
theory Page_Geometry
  imports Hal_Page_Tables
begin

text \<open>
  Virtual addresses as page tables see them: the indices of each level, the path of indices to an entry,
  and canonical addresses.  Two canonical addresses have the same path to the level of a page exactly
  when they are in the same page.
\<close>

definition index_word :: "nat \<Rightarrow> vaddr \<Rightarrow> usize" where
  "index_word l va = field va (12 + 9 * l) (21 + 9 * l)"

definition idx :: "nat \<Rightarrow> vaddr \<Rightarrow> nat" where
  "idx l va = unat (index_word l va)"

lemma unat_index_word [simp]: "unat (index_word l va) = idx l va"
  by (simp add: idx_def)

definition path :: "nat \<Rightarrow> nat \<Rightarrow> vaddr \<Rightarrow> nat list" where
  "path n l va = map (\<lambda>j. idx j va) (rev [l ..< n])"

text \<open>The level whose entries map pages of a size.\<close>

definition lev :: "frame_size \<Rightarrow> nat" where
  "lev s = (case s of Size4KiB \<Rightarrow> 0 | Size2MiB \<Rightarrow> 1 | Size1GiB \<Rightarrow> 2)"

lemma SIZE_lev: "unat (SIZE s) = 2 ^ (12 + 9 * lev s)" and lev_less: "lev s < 3"
  by (cases s; simp add: lev_def)+

lemma idx_less: "idx l va < 512"
proof -
  have "unat (take_bit 9 w) < 2 ^ 9" for w :: usize
    using take_bit_nat_less_exp [of 9 "unat w"] by (simp add: unsigned_take_bit_eq)
  then show ?thesis unfolding idx_def index_word_def field_def by simp
qed

lemma path_self [simp]: "path n n va = []"
  and length_path [simp]: "length (path n l va) = n - l"
  and path_step: "l < n \<Longrightarrow> path n l va = path n (Suc l) va @ [idx l va]"
  by (simp_all add: path_def upt_conv_Cons)

lemma take_path: "k + l \<le> n \<Longrightarrow> take k (path n l va) = path n (n - k) va"
  by (simp add: path_def take_map take_rev)

lemma nth_path:
  assumes "k + l < n"
  shows "path n l va ! k = idx (n - Suc k) va"
proof -
  have "k < length [l ..< n]" using assms by simp
  then have "rev [l ..< n] ! k = n - Suc k" by (subst rev_nth) auto
  moreover have "path n l va ! k = idx (rev [l ..< n] ! k) va" using assms by (simp add: path_def)
  ultimately show ?thesis by simp
qed


definition canon :: "nat \<Rightarrow> vaddr \<Rightarrow> bool" where
  "canon n va \<longleftrightarrow> signed_take_bit (11 + 9 * n) va = va"

lemma idx_eq_iff: "idx j a = idx j b \<longleftrightarrow> (\<forall>k < 9. bit a (12 + 9 * j + k) \<longleftrightarrow> bit b (12 + 9 * j + k))"
proof -
  have "idx j a = idx j b \<longleftrightarrow> field a (12 + 9 * j) (21 + 9 * j) = field b (12 + 9 * j) (21 + 9 * j)"
    by (simp add: idx_def index_word_def word_unat_eq_iff)
  also have "\<dots> \<longleftrightarrow> (\<forall>k. k < 9 \<and> bit a (12 + 9 * j + k) \<longleftrightarrow> k < 9 \<and> bit b (12 + 9 * j + k))"
    unfolding word_eq_bits bit_field_bit by simp
  finally show ?thesis by blast
qed

lemma path_eq_iff:
  "path n l a = path n l b \<longleftrightarrow> (\<forall>k. 12 + 9 * l \<le> k \<and> k < 12 + 9 * n \<longrightarrow> (bit a k \<longleftrightarrow> bit b k))"
proof -
  have "path n l a = path n l b \<longleftrightarrow> (\<forall>j. l \<le> j \<and> j < n \<longrightarrow> idx j a = idx j b)"
    by (auto simp: path_def)
  also have "\<dots> \<longleftrightarrow> (\<forall>k. 12 + 9 * l \<le> k \<and> k < 12 + 9 * n \<longrightarrow> (bit a k \<longleftrightarrow> bit b k))" (is "?L \<longleftrightarrow> ?R")
  proof
    assume L: ?L
    show ?R
    proof (intro allI impI)
      fix k assume k: "12 + 9 * l \<le> k \<and> k < 12 + 9 * n"
      have "(k - 12) div 9 * 9 + (k - 12) mod 9 = k - 12" by (rule div_mult_mod_eq)
      then have e: "12 + 9 * ((k - 12) div 9) + (k - 12) mod 9 = k" using k by simp
      have "l \<le> (k - 12) div 9" "(k - 12) div 9 < n" using k by linarith+
      then have "idx ((k - 12) div 9) a = idx ((k - 12) div 9) b" using L by blast
      then have "bit a (12 + 9 * ((k - 12) div 9) + (k - 12) mod 9) \<longleftrightarrow> bit b (12 + 9 * ((k - 12) div 9) + (k - 12) mod 9)"
        unfolding idx_eq_iff by (metis mod_less_divisor zero_less_numeral)
      then show "bit a k \<longleftrightarrow> bit b k" unfolding e .
    qed
  next
    assume ?R
    then show ?L unfolding idx_eq_iff by auto
  qed
  finally show ?thesis .
qed

lemma canon_bits:
  assumes "canon n a" and "k < 64" and "11 + 9 * n \<le> k"
  shows "bit a k \<longleftrightarrow> bit a (11 + 9 * n)"
proof -
  have "bit (signed_take_bit (11 + 9 * n) a) k \<longleftrightarrow> bit a (11 + 9 * n)"
    using assms(2,3) by (simp add: bit_signed_take_bit_iff min_def)
  then show ?thesis using assms(1) by (simp add: canon_def)
qed

lemma drop_bit_unat: "unat (drop_bit k a) = unat a div 2 ^ k" for a :: "'w::len word"
  by (metis unsigned_drop_bit_eq take_bit_drop_bit drop_bit_eq_div unsigned_take_bit_eq take_bit_length_eq drop_bit_take_bit)

lemma drop_bits_eq:
  assumes "canon n a" "canon n b" and "0 < n" and "l < n" and "path n l a = path n l b"
  shows "drop_bit (12 + 9 * l) a = drop_bit (12 + 9 * l) b"
proof (rule bit_eqI)
  fix k
  have p: "bit a j \<longleftrightarrow> bit b j" if "12 + 9 * l \<le> j" "j < 12 + 9 * n" for j
    using assms(5) that unfolding path_eq_iff by blast
  have top: "bit a (11 + 9 * n) \<longleftrightarrow> bit b (11 + 9 * n)" using assms(3,4) by (intro p) simp_all
  consider "64 \<le> 12 + 9 * l + k" | "12 + 9 * l + k < 12 + 9 * n" | "12 + 9 * l + k < 64" "11 + 9 * n \<le> 12 + 9 * l + k"
    by linarith
  then have "bit a (12 + 9 * l + k) \<longleftrightarrow> bit b (12 + 9 * l + k)"
  proof cases
    case 1
    then show ?thesis by (simp add: impossible_bit)
  next
    case 2
    then show ?thesis by (intro p) simp_all
  next
    case 3
    then show ?thesis using canon_bits [OF assms(1) 3] canon_bits [OF assms(2) 3] top by simp
  qed
  then show "bit (drop_bit (12 + 9 * l) a) k \<longleftrightarrow> bit (drop_bit (12 + 9 * l) b) k" by (simp add: bit_drop_bit_eq)
qed

abbreviation vrange :: "vaddr \<Rightarrow> nat \<Rightarrow> vaddr set" where
  "vrange a n \<equiv> {va. unat a \<le> unat va \<and> unat va < unat a + n}"

lemma same_page:
  assumes c: "canon n va" "canon n page" and l: "l < n" and al: "2 ^ (12 + 9 * l) dvd unat page"
  shows "path n l va = path n l page \<longleftrightarrow> va \<in> vrange page (2 ^ (12 + 9 * l))" (is "?P \<longleftrightarrow> ?A")
    and "path n l va = path n l page \<Longrightarrow> page + take_bit (12 + 9 * l) va = va"
proof -
  let ?K = "12 + 9 * l"
  obtain q where q: "unat page = 2 ^ ?K * q" using al by (elim dvdE)
  have pos: "(0::nat) < 2 ^ ?K" by simp
  have d: "drop_bit ?K va = drop_bit ?K page \<longleftrightarrow> unat va div 2 ^ ?K = q"
  proof -
    have "drop_bit ?K va = drop_bit ?K page \<longleftrightarrow> unat (drop_bit ?K va) = unat (drop_bit ?K page)" by (rule word_unat_eq_iff)
    also have "\<dots> \<longleftrightarrow> unat va div 2 ^ ?K = unat page div 2 ^ ?K"
      by (simp add: drop_bit_unat)
    also have "unat page div 2 ^ ?K = q" unfolding q using pos by (rule nonzero_mult_div_cancel_left [OF less_imp_neq [THEN not_sym]])
    finally show ?thesis .
  qed
  have a: "unat va div 2 ^ ?K = q \<longleftrightarrow> ?A"
  proof
    assume v: "unat va div 2 ^ ?K = q"
    have "unat va = 2 ^ ?K * q + unat va mod 2 ^ ?K" using v mult_div_mod_eq [of "2 ^ ?K" "unat va"] by simp
    then show ?A using mod_less_divisor [OF pos, of "unat va"] by (simp only: q mem_Collect_eq) linarith
  next
    assume A: ?A
    show "unat va div 2 ^ ?K = q"
    proof (rule div_nat_eqI)
      show "2 ^ ?K * q \<le> unat va" "unat va < 2 ^ ?K * Suc q" using A by (simp_all only: q mem_Collect_eq mult_Suc_right) linarith+
    qed
  qed
  have p: "?P \<longleftrightarrow> drop_bit ?K va = drop_bit ?K page"
  proof
    assume ?P
    then show "drop_bit ?K va = drop_bit ?K page" using c l by (intro drop_bits_eq) simp_all
  next
    assume e: "drop_bit ?K va = drop_bit ?K page"
    have "bit va k \<longleftrightarrow> bit page k" if "?K \<le> k" for k
      using arg_cong [OF e, of "\<lambda>w. bit w (k - ?K)"] that by (simp add: bit_drop_bit_eq)
    then show ?P unfolding path_eq_iff by simp
  qed
  show "?P \<longleftrightarrow> ?A" using p d a by simp
  show "page + take_bit ?K va = va" if ?P
  proof -
    have "take_bit ?K va + push_bit ?K (drop_bit ?K va) = va" by (rule bits_ident [THEN trans [OF add.commute]])
    moreover have "push_bit ?K (drop_bit ?K va) = page"
    proof -
      have "take_bit ?K page = 0"
      proof -
        have "unat (take_bit ?K page) = unat page mod 2 ^ ?K" unfolding unsigned_take_bit_eq by (rule take_bit_eq_mod)
        also have "\<dots> = 0" using al by (rule dvd_imp_mod_0)
        finally show ?thesis by (simp add: word_unat_eq_iff)
      qed
      then have "push_bit ?K (drop_bit ?K page) = page" using bits_ident [of ?K page] by simp
      then show ?thesis using that p by simp
    qed
    ultimately show ?thesis by (simp add: add.commute)
  qed
qed

end
