(* ===== verification/Page_Tree.thy ===== *)
theory Page_Tree
  imports Page_Geometry
begin

text \<open>
  A set of page tables as a tree.  A path is the list of indices that leads from the top level table to
  another table, and \<open>mmu\<close> is the walk of the processor: the physical address it finds for a virtual
  one.  The tables are well formed (\<open>tree_ok\<close>) when no table is reached by two paths, none of them
  lies in memory that is still free, and every entry is unused, leads to a table or is a mapping.  Then
  creating a table changes no translation, and writing an unused entry changes exactly the translations
  of one page.
\<close>

subsection \<open>Paths and translations\<close>

type_synonym mem = "vaddr \<Rightarrow> nat \<Rightarrow> u64"

definition entry_addr :: "paging_format \<Rightarrow> u64 \<Rightarrow> paddr option" where
  "entry_addr fmt e = (case fmt_address fmt e of Inl p \<Rightarrow> None | Inr a \<Rightarrow> a)"

definition child :: "paging_format \<Rightarrow> vaddr \<Rightarrow> mem \<Rightarrow> paddr \<Rightarrow> nat \<Rightarrow> paddr option" where
  "child fmt pb m f i = (if fmt_is_leaf fmt (m (pb + f) i) then None else entry_addr fmt (m (pb + f) i))"

primrec walk :: "paging_format \<Rightarrow> vaddr \<Rightarrow> mem \<Rightarrow> paddr \<Rightarrow> nat list \<Rightarrow> paddr option" where
  "walk fmt pb m f [] = Some f"
| "walk fmt pb m f (i # q) = Option.bind (child fmt pb m f i) (\<lambda>g. walk fmt pb m g q)"

primrec mmu :: "paging_format \<Rightarrow> vaddr \<Rightarrow> mem \<Rightarrow> nat \<Rightarrow> paddr \<Rightarrow> vaddr \<Rightarrow> paddr option" where
  "mmu fmt pb m 0 f va = None"
| "mmu fmt pb m (Suc l) f va =
     (case entry_addr fmt (m (pb + f) (idx l va)) of
        None \<Rightarrow> None
      | Some p \<Rightarrow>
          if fmt_ends fmt l (m (pb + f) (idx l va)) then Some (p + take_bit (12 + 9 * l) va)
          else mmu fmt pb m l p va)"

definition window :: "paging_format \<Rightarrow> vaddr \<Rightarrow> paddr \<Rightarrow> bool" where
  "window fmt pb f \<longleftrightarrow> vaddr_add (fmt_target fmt) pb f = Inr (pb + f)"

definition slot_ok :: "paging_format \<Rightarrow> vaddr \<Rightarrow> nat \<Rightarrow> u64 \<Rightarrow> bool" where
  "slot_ok fmt pb l e \<longleftrightarrow>
     (fmt_in_use fmt e \<longleftrightarrow> entry_addr fmt e \<noteq> None) \<and>
     (\<forall>p. entry_addr fmt e = Some p \<longrightarrow>
        (l = 0 \<longrightarrow> fmt_ends fmt 0 e) \<and>
        (0 < l \<longrightarrow> window fmt pb p) \<and>
        (fmt_ends fmt l e \<longrightarrow> l < 3 \<and> 2 ^ (12 + 9 * l) dvd unat p))"

definition tree_ok :: "paging_format \<Rightarrow> vaddr \<Rightarrow> paddr \<Rightarrow> nat set \<Rightarrow> mem \<Rightarrow> bool" where
  "tree_ok fmt pb root F m \<longleftrightarrow>
     (\<forall>q f. length q < fmt_levels fmt \<longrightarrow> walk fmt pb m root q = Some f \<longrightarrow>
        4096 dvd unat f \<and> window fmt pb f \<and> frame_memory f \<inter> F = {} \<and>
        (\<forall>i. slot_ok fmt pb (fmt_levels fmt - 1 - length q) (m (pb + f) i))) \<and>
     (\<forall>q q' f. length q < fmt_levels fmt \<longrightarrow> length q' < fmt_levels fmt \<longrightarrow>
        walk fmt pb m root q = Some f \<longrightarrow> walk fmt pb m root q' = Some f \<longrightarrow> q = q')"

lemma walk_snoc: "walk fmt pb m f (q @ [i]) = Option.bind (walk fmt pb m f q) (\<lambda>g. child fmt pb m g i)"
proof (induction q arbitrary: f)
  case Nil
  then show ?case by (cases "child fmt pb m f i") simp_all
next
  case (Cons j q)
  then show ?case by (cases "child fmt pb m f j") simp_all
qed

text \<open>What is assumed of the format of entries.\<close>

locale entry_format =
  fixes fmt :: paging_format
  assumes canonical: "vaddr_valid (fmt_target fmt) va \<longleftrightarrow> canon (fmt_levels fmt) va"
    and addr_room: "entry_addr fmt e = Some p \<Longrightarrow> 2 ^ k dvd unat p \<Longrightarrow> k \<le> 30 \<Longrightarrow> unat x < 2 ^ k \<Longrightarrow>
      unat p + unat x < 2 ^ 64 \<and> paddr_valid (fmt_target fmt) (p + x)"
    and address_total: "\<exists>a. fmt_address fmt e = Inr a"
    and unused: "fmt_address fmt 0 = Inr None" "\<not> fmt_in_use fmt 0" "\<not> fmt_is_leaf fmt 0"
    and ends_leaf: "fmt_ends fmt (Suc l) e = fmt_is_leaf fmt e"
    and table: "entry_addr fmt (fmt_table fmt f) = Some f \<Longrightarrow> \<not> fmt_is_leaf fmt (fmt_table fmt f) \<and> fmt_in_use fmt (fmt_table fmt f)"
    and mapping: "entry_addr fmt (fmt_table fmt f) = Some f \<Longrightarrow>
      entry_addr fmt (fmt_mapping fmt s f fl) = Some f \<and> fmt_in_use fmt (fmt_mapping fmt s f fl) \<and>
      fmt_ends fmt (lev s) (fmt_mapping fmt s f fl)"
begin

lemma address_eq: "fmt_address fmt e = Inr (entry_addr fmt e)"
  using address_total [of e] by (auto simp: entry_addr_def)

lemma addr_zero [simp]: "entry_addr fmt 0 = None"
  using unused(1) by (simp add: entry_addr_def)

lemma slot_zero: "slot_ok fmt pb l 0"
  using unused(2) by (simp add: slot_ok_def)

text \<open>Memory that agrees with another one on every table that is reached, apart from one entry.\<close>

definition agrees :: "vaddr \<Rightarrow> paddr \<Rightarrow> paddr \<Rightarrow> nat \<Rightarrow> mem \<Rightarrow> mem \<Rightarrow> bool" where
  "agrees pb root f i m m' \<longleftrightarrow>
     (\<forall>q g j. length q < fmt_levels fmt \<longrightarrow> walk fmt pb m root q = Some g \<longrightarrow> (g, j) \<noteq> (f, i) \<longrightarrow>
        m' (pb + g) j = m (pb + g) j)"

lemma agreesD:
  "agrees pb root f i m m' \<Longrightarrow> length q < fmt_levels fmt \<Longrightarrow> walk fmt pb m root q = Some g \<Longrightarrow> (g, j) \<noteq> (f, i) \<Longrightarrow>
    m' (pb + g) j = m (pb + g) j"
  unfolding agrees_def by blast

lemma walk_agrees:
  assumes ok: "tree_ok fmt pb root F m" and p: "walk fmt pb m root p = Some f" "length p < fmt_levels fmt"
    and a: "agrees pb root f i m m'"
    and q: "length q \<le> fmt_levels fmt" "\<nexists>s. q = (p @ [i]) @ s"
  shows "walk fmt pb m' root q = walk fmt pb m root q"
  using q
proof (induction q rule: rev_induct)
  case (snoc j q)
  have IH: "walk fmt pb m' root q = walk fmt pb m root q"
    using snoc.prems by (intro snoc.IH) auto
  show ?case
  proof (cases "walk fmt pb m root q")
    case None
    then show ?thesis using IH by (simp add: walk_snoc)
  next
    case (Some g)
    have "(g, j) \<noteq> (f, i)"
    proof
      assume "(g, j) = (f, i)"
      then have "walk fmt pb m root q = Some f" "j = i" using Some by simp_all
      moreover have "q = p" using ok p calculation(1) snoc.prems(1) unfolding tree_ok_def by (metis length_append_singleton Suc_le_lessD)
      ultimately show False using snoc.prems(2) by auto
    qed
    then have "m' (pb + g) j = m (pb + g) j"
      using snoc.prems(1) by (intro agreesD [OF a _ Some]) simp_all
    then show ?thesis using Some IH by (simp add: walk_snoc child_def)
  qed
qed simp

lemma mmu_agrees:
  assumes ok: "tree_ok fmt pb root F m" and p: "walk fmt pb m root p = Some f" "length p < fmt_levels fmt"
    and a: "agrees pb root f i m m'" and l: "length p = fmt_levels fmt - Suc l" "l < fmt_levels fmt"
    and va: "path (fmt_levels fmt) l va \<noteq> p @ [i]"
  shows "mmu fmt pb m' (fmt_levels fmt) root va = mmu fmt pb m (fmt_levels fmt) root va"
proof -
  let ?n = "fmt_levels fmt"
  have "mmu fmt pb m' k g va = mmu fmt pb m k g va"
    if "k \<le> ?n" "walk fmt pb m root (path ?n k va) = Some g" for k g
    using that
  proof (induction k arbitrary: g)
    case (Suc k)
    have len: "length (path ?n (Suc k) va) < ?n" using Suc.prems(1) by simp
    have "(g, idx k va) \<noteq> (f, i)"
    proof
      assume eq: "(g, idx k va) = (f, i)"
      then have "path ?n (Suc k) va = p"
        using ok p len Suc.prems(2) unfolding tree_ok_def by (metis prod.inject)
      moreover from this have "k = l" using l Suc.prems(1) by (metis length_path diff_diff_cancel Suc_leI Suc_inject)
      ultimately show False using va eq path_step [OF l(2), of va] by simp
    qed
    then have e: "m' (pb + g) (idx k va) = m (pb + g) (idx k va)"
      by (rule agreesD [OF a len Suc.prems(2)])
    have "mmu fmt pb m' k h va = mmu fmt pb m k h va"
      if h: "entry_addr fmt (m (pb + g) (idx k va)) = Some h" "\<not> fmt_ends fmt k (m (pb + g) (idx k va))" for h
    proof (cases k)
      case (Suc k')
      then have "\<not> fmt_is_leaf fmt (m (pb + g) (idx k va))" using h(2) ends_leaf by simp
      then have "child fmt pb m g (idx k va) = Some h" using h(1) by (simp add: child_def)
      then show ?thesis using Suc.prems by (intro Suc.IH) (simp_all add: path_step walk_snoc)
    qed simp
    then show ?case by (simp add: e split: option.split)
  qed simp
  from this [of ?n root] show ?thesis by simp
qed

lemma mmu_below:
  assumes "walk fmt pb m root (path n k va) = Some g" and "k \<le> n" and "0 < k"
  shows "mmu fmt pb m n root va = mmu fmt pb m k g va"
  using assms
proof (induction "n - k" arbitrary: k g)
  case (Suc d)
  then have k: "k < n" "Suc k \<le> n" "d = n - Suc k" by simp_all
  then obtain h where h: "walk fmt pb m root (path n (Suc k) va) = Some h" "child fmt pb m h (idx k va) = Some g"
    using Suc.prems(1) by (auto simp: path_step walk_snoc bind_eq_Some_conv)
  have "mmu fmt pb m n root va = mmu fmt pb m (Suc k) h va" using Suc.hyps(1) [OF k(3) h(1) k(2)] by simp
  also have "\<dots> = mmu fmt pb m k g va"
    using h(2) Suc.prems(3) ends_leaf [of "k - 1"] by (simp add: child_def split: if_splits)
  finally show ?case .
qed simp

text \<open>The table that holds the entry of level \<open>l\<close> for a page.\<close>

lemma tree_okD:
  assumes "tree_ok fmt pb root F m" and "walk fmt pb m root q = Some f" and "length q < fmt_levels fmt"
  shows "4096 dvd unat f" "window fmt pb f" "frame_memory f \<inter> F = {}"
    "slot_ok fmt pb (fmt_levels fmt - 1 - length q) (m (pb + f) i)"
  using assms unfolding tree_ok_def by blast+

lemma tree_ok_once:
  "tree_ok fmt pb root F m \<Longrightarrow> walk fmt pb m root q = Some f \<Longrightarrow> walk fmt pb m root q' = Some f \<Longrightarrow>
    length q < fmt_levels fmt \<Longrightarrow> length q' < fmt_levels fmt \<Longrightarrow> q = q'"
  unfolding tree_ok_def by blast

lemma tree_ok_shrink: "tree_ok fmt pb root F m \<Longrightarrow> F' \<subseteq> F \<Longrightarrow> tree_ok fmt pb root F' m"
  unfolding tree_ok_def by (meson disjoint_iff subsetD)

subsection \<open>Writing a mapping\<close>

abbreviation put :: "vaddr \<Rightarrow> paddr \<Rightarrow> nat \<Rightarrow> u64 \<Rightarrow> mem \<Rightarrow> mem" where
  "put pb f i e m \<equiv> m(pb + f := (m (pb + f))(i := e))"

lemma put_agrees: "agrees pb root f i m (put pb f i e m)"
  by (auto simp: agrees_def)

lemma walk_append: "walk fmt pb m f (q @ s) = Option.bind (walk fmt pb m f q) (\<lambda>g. walk fmt pb m g s)"
proof (induction q arbitrary: f)
  case (Cons j q)
  then show ?case by (cases "child fmt pb m f j") simp_all
qed simp

lemma walk_blocked:
  assumes "walk fmt pb m root p = Some f" and "child fmt pb m f i = None" and "q = (p @ [i]) @ s"
  shows "walk fmt pb m root q = None"
  using assms by (simp add: walk_append)

lemma walk_put_leaf:
  assumes ok: "tree_ok fmt pb root F m" and p: "walk fmt pb m root p = Some f" "length p = fmt_levels fmt - Suc l" "l < fmt_levels fmt"
    and u: "entry_addr fmt (m (pb + f) i) = None" and e: "fmt_ends fmt l e" and q: "length q < fmt_levels fmt"
  shows "walk fmt pb (put pb f i e m) root q = walk fmt pb m root q"
proof (cases "\<exists>s. q = (p @ [i]) @ s")
  case True
  then obtain s where s: "q = (p @ [i]) @ s" by blast
  then obtain l' where l: "l = Suc l'" using p(2,3) q by (cases l) auto
  have old: "child fmt pb m f i = None" using u by (simp add: child_def)
  have len: "length p < fmt_levels fmt" using p(2,3) by simp
  have "walk fmt pb (put pb f i e m) root p = Some f"
    using walk_agrees [OF ok p(1) len put_agrees, of p i e] p(1) len by simp
  moreover have "child fmt pb (put pb f i e m) f i = None" using e by (simp add: child_def l ends_leaf)
  ultimately show ?thesis using walk_blocked [OF _ _ s] old p(1) by metis
next
  case False
  then show ?thesis using p q by (intro walk_agrees [OF ok p(1) _ put_agrees]) simp_all
qed

lemma tree_ok_put_leaf:
  assumes ok: "tree_ok fmt pb root F m" and p: "walk fmt pb m root p = Some f" "length p = fmt_levels fmt - Suc l" "l < fmt_levels fmt"
    and u: "entry_addr fmt (m (pb + f) i) = None" and e: "fmt_ends fmt l e" "slot_ok fmt pb l e"
  shows "tree_ok fmt pb root F (put pb f i e m)"
proof -
  note w = walk_put_leaf [OF ok p u e(1)]
  have "slot_ok fmt pb (fmt_levels fmt - 1 - length q) (put pb f i e m (pb + g) j)"
    if q: "length q < fmt_levels fmt" "walk fmt pb m root q = Some g" for q g j
  proof (cases "(g, j) = (f, i)")
    case True
    then have "q = p" using tree_ok_once [OF ok q(2), of p] p q(1) by simp
    then show ?thesis using True e p by simp
  next
    case False
    then have "put pb f i e m (pb + g) j = m (pb + g) j" by auto
    then show ?thesis using tree_okD(4) [OF ok q(2,1)] by simp
  qed
  then show ?thesis
    unfolding tree_ok_def by (auto simp: w dest: tree_okD [OF ok] tree_ok_once [OF ok])
qed

lemma mmu_entry:
  assumes p: "walk fmt pb m root p = Some f" and va: "path (fmt_levels fmt) l va = p @ [i]" and l: "l < fmt_levels fmt"
  shows "mmu fmt pb m (fmt_levels fmt) root va = mmu fmt pb m (Suc l) f va" and "idx l va = i"
proof -
  have eq: "path (fmt_levels fmt) (Suc l) va = p" "idx l va = i" using va path_step [OF l, of va] by simp_all
  then show "idx l va = i" by simp
  show "mmu fmt pb m (fmt_levels fmt) root va = mmu fmt pb m (Suc l) f va"
    using p l by (intro mmu_below) (simp_all add: eq)
qed

lemma mmu_put_leaf:
  assumes ok: "tree_ok fmt pb root F m" and p: "walk fmt pb m root p = Some f" "length p = fmt_levels fmt - Suc l" "l < fmt_levels fmt"
    and u: "entry_addr fmt (m (pb + f) i) = None" and e: "fmt_ends fmt l e" "entry_addr fmt e = Some frame"
  shows "mmu fmt pb (put pb f i e m) (fmt_levels fmt) root va =
    (if path (fmt_levels fmt) l va = p @ [i] then Some (frame + take_bit (12 + 9 * l) va)
     else mmu fmt pb m (fmt_levels fmt) root va)"
proof (cases "path (fmt_levels fmt) l va = p @ [i]")
  case True
  have len: "length p < fmt_levels fmt" using p(2,3) by simp
  have "walk fmt pb (put pb f i e m) root p = Some f"
    using walk_put_leaf [OF ok p u e(1), of p] p(1) len by simp
  then show ?thesis using mmu_entry [OF _ True p(3)] True e by simp
next
  case False
  then show ?thesis using mmu_agrees [OF ok p(1) _ put_agrees p(2,3)] p by simp
qed

lemma mmu_unused:
  assumes "walk fmt pb m root p = Some f" "path (fmt_levels fmt) l va = p @ [i]" "l < fmt_levels fmt"
    and "entry_addr fmt (m (pb + f) i) = None"
  shows "mmu fmt pb m (fmt_levels fmt) root va = None"
  using mmu_entry [OF assms(1-3)] assms(4) by simp

text \<open>Clearing an entry of the last level.\<close>

lemma put_clear:
  assumes ok: "tree_ok fmt pb root F m" and p: "walk fmt pb m root p = Some f" "length p = fmt_levels fmt - 1" "0 < fmt_levels fmt"
  shows "tree_ok fmt pb root F (put pb f i 0 m)"
    and "mmu fmt pb (put pb f i 0 m) (fmt_levels fmt) root va =
      (if path (fmt_levels fmt) 0 va = p @ [i] then None else mmu fmt pb m (fmt_levels fmt) root va)"
proof -
  have len: "length p < fmt_levels fmt" using p(2,3) by simp
  have w: "walk fmt pb (put pb f i 0 m) root q = walk fmt pb m root q" if "length q < fmt_levels fmt" for q
    using that p by (intro walk_agrees [OF ok p(1) len put_agrees]) auto
  have "slot_ok fmt pb (fmt_levels fmt - 1 - length q) (put pb f i 0 m (pb + g) j)"
    if q: "length q < fmt_levels fmt" "walk fmt pb m root q = Some g" for q g j
    using tree_okD(4) [OF ok q(2,1)] slot_zero by auto
  then show "tree_ok fmt pb root F (put pb f i 0 m)"
    unfolding tree_ok_def by (auto simp: w dest: tree_okD [OF ok] tree_ok_once [OF ok])
  show "mmu fmt pb (put pb f i 0 m) (fmt_levels fmt) root va =
      (if path (fmt_levels fmt) 0 va = p @ [i] then None else mmu fmt pb m (fmt_levels fmt) root va)"
  proof (cases "path (fmt_levels fmt) 0 va = p @ [i]")
    case True
    then show ?thesis using mmu_entry [OF _ True p(3)] w [OF len] p(1) by simp
  next
    case False
    then show ?thesis using mmu_agrees [OF ok p(1) len put_agrees _ p(3) False] p(2) by simp
  qed
qed

subsection \<open>Adding a table\<close>

abbreviation link :: "vaddr \<Rightarrow> paddr \<Rightarrow> nat \<Rightarrow> paddr \<Rightarrow> mem \<Rightarrow> mem" where
  "link pb f i g m \<equiv> (put pb f i (fmt_table fmt g) m)(pb + g := \<lambda>_. 0)"

lemma fresh_table:
  assumes "tree_ok fmt pb root F m" and "frame_memory g \<subseteq> F" and "walk fmt pb m root q = Some f" and "length q < fmt_levels fmt"
  shows "f \<noteq> g"
proof
  assume "f = g"
  moreover have "unat g \<in> frame_memory g" by simp
  ultimately show False using tree_okD(3) [OF assms(1,3,4)] assms(2) by blast
qed

lemma link_agrees:
  assumes "tree_ok fmt pb root F m" and "frame_memory g \<subseteq> F"
  shows "agrees pb root f i m (link pb f i g m)"
  using fresh_table [OF assms] by (auto simp: agrees_def)

lemma walk_link:
  assumes ok: "tree_ok fmt pb root F m" and g: "frame_memory g \<subseteq> F" "entry_addr fmt (fmt_table fmt g) = Some g"
    and p: "walk fmt pb m root p = Some f" "length p < fmt_levels fmt"
    and u: "entry_addr fmt (m (pb + f) i) = None" and q: "length q < fmt_levels fmt"
  shows "walk fmt pb (link pb f i g m) root q = (if q = p @ [i] then Some g else walk fmt pb m root q)"
proof (cases "\<exists>s. q = (p @ [i]) @ s")
  case True
  then obtain s where s: "q = (p @ [i]) @ s" by blast
  let ?m = "link pb f i g m"
  have fg: "f \<noteq> g" using fresh_table [OF ok g(1) p] .
  have "walk fmt pb ?m root p = Some f"
    using walk_agrees [OF ok p link_agrees [OF ok g(1)], of p i] p by simp
  moreover have "child fmt pb ?m f i = Some g" using fg g(2) table [OF g(2)] by (simp add: child_def)
  ultimately have "walk fmt pb ?m root q = walk fmt pb ?m g s" by (simp add: s walk_append)
  moreover have "walk fmt pb ?m g s = None" if "s \<noteq> []"
    using that by (cases s) (simp_all add: child_def)
  moreover have "walk fmt pb m root q = None"
    using walk_blocked [OF p(1) _ s] u by (simp add: child_def)
  ultimately show ?thesis using s by (cases "s = []") simp_all
next
  case False
  then show ?thesis
    using walk_agrees [OF ok p link_agrees [OF ok g(1)] _ False] q by (metis append_Nil2 less_imp_le_nat)
qed

lemma tree_ok_link:
  assumes ok: "tree_ok fmt pb root F m" and g: "frame_memory g \<subseteq> F" "entry_addr fmt (fmt_table fmt g) = Some g"
      "4096 dvd unat g" "window fmt pb g"
    and p: "walk fmt pb m root p = Some f" "length p = fmt_levels fmt - Suc l" "0 < l" "l < fmt_levels fmt"
    and u: "entry_addr fmt (m (pb + f) i) = None"
  shows "tree_ok fmt pb root (F - frame_memory g) (link pb f i g m)"
proof -
  let ?m = "link pb f i g m" and ?n = "fmt_levels fmt"
  have len: "length p < ?n" using p by simp
  note w = walk_link [OF ok g(1,2) p(1) len u]
  have e: "slot_ok fmt pb l (fmt_table fmt g)"
    using table [OF g(2)] g(2,4) p(3) ends_leaf [of "l - 1"] by (simp add: slot_ok_def)
  have slots: "slot_ok fmt pb (?n - 1 - length q) (?m (pb + h) j)"
    if q: "length q < ?n" "walk fmt pb m root q = Some h" for q h j
  proof (cases "(h, j) = (f, i)")
    case True
    then have "q = p" using tree_ok_once [OF ok q(2), of p] p len q(1) by simp
    then show ?thesis using True e p fresh_table [OF ok g(1) p(1) len] by simp
  next
    case False
    then have "?m (pb + h) j = m (pb + h) j"
      by (intro agreesD [OF link_agrees [OF ok g(1)] q])
    then show ?thesis using tree_okD(4) [OF ok q(2,1)] by simp
  qed
  show ?thesis
    unfolding tree_ok_def
  proof (intro conjI allI impI)
    fix q h i' assume q: "length q < ?n" "walk fmt pb ?m root q = Some h"
    show "4096 dvd unat h" "window fmt pb h" "frame_memory h \<inter> (F - frame_memory g) = {}"
      using q g(3,4) tree_okD(1,2,3) [OF ok _ q(1)] by (auto simp: w split: if_splits)
    have "h = g \<or> walk fmt pb m root q = Some h" using q by (auto simp: w split: if_splits)
    then show "slot_ok fmt pb (?n - 1 - length q) (?m (pb + h) i')"
    proof
      assume "h = g"
      then show ?thesis using slot_zero by simp
    qed (rule slots [OF q(1)])
  next
    fix q q' h assume q: "length q < ?n" "length q' < ?n" "walk fmt pb ?m root q = Some h" "walk fmt pb ?m root q' = Some h"
    then show "q = q'"
      using tree_ok_once [OF ok, of q h q'] fresh_table [OF ok g(1)] by (auto simp: w split: if_splits)
  qed
qed

lemma mmu_link:
  assumes ok: "tree_ok fmt pb root F m" and g: "frame_memory g \<subseteq> F" "entry_addr fmt (fmt_table fmt g) = Some g"
    and p: "walk fmt pb m root p = Some f" "length p = fmt_levels fmt - Suc l" "0 < l" "l < fmt_levels fmt"
    and u: "entry_addr fmt (m (pb + f) i) = None"
  shows "mmu fmt pb (link pb f i g m) (fmt_levels fmt) root va = mmu fmt pb m (fmt_levels fmt) root va"
proof (cases "path (fmt_levels fmt) l va = p @ [i]")
  case True
  have len: "length p < fmt_levels fmt" using p by simp
  have w: "walk fmt pb (link pb f i g m) root p = Some f"
    using walk_link [OF ok g p(1) len u, of p] p(1) len by simp
  obtain l' where l': "l = Suc l'" using p(3) by (cases l) auto
  have "\<not> fmt_ends fmt l (fmt_table fmt g)" using table [OF g(2)] by (simp add: l' ends_leaf)
  then have "mmu fmt pb (link pb f i g m) (fmt_levels fmt) root va = None"
    using mmu_entry [OF w True p(4)] g(2) fresh_table [OF ok g(1) p(1) len] by (simp add: l')
  then show ?thesis using mmu_unused [OF p(1) True p(4) u] by simp
next
  case False
  then show ?thesis using mmu_agrees [OF ok p(1) _ link_agrees [OF ok g(1)] p(2,4)] p by simp
qed

end

end
