(* ===== verification/Page_Mapping.thy ===== *)
theory Page_Mapping
  imports Page_Tree
begin

text \<open>
  The operations on page tables, over any format of entries and any source of frames: descending through
  the tables, creating those that are missing, and writing an entry.  The locale \<open>page_tables\<close>
  combines the contracts of an entry format and of a frame source; the implementations for each
  processor interpret it.
\<close>

definition frames_fit :: "paging_format \<Rightarrow> vaddr \<Rightarrow> nat set \<Rightarrow> bool" where
  "frames_fit fmt pb F \<longleftrightarrow>
     (\<forall>f. 4096 dvd unat f \<longrightarrow> frame_memory f \<subseteq> F \<longrightarrow> window fmt pb f \<and> entry_addr fmt (fmt_table fmt f) = Some f)"

definition pt_inv ::
  "paging_format \<Rightarrow> ('a \<Rightarrow> bool) \<Rightarrow> ('a \<Rightarrow> nat set) \<Rightarrow> vaddr \<Rightarrow> paddr \<Rightarrow> 'a paging \<Rightarrow> bool" where
  "pt_inv fmt ainv free pb root st \<longleftrightarrow>
     ainv (frames st) \<and> tree_ok fmt pb root (free (frames st)) (memory st) \<and> frames_fit fmt pb (free (frames st))"

abbreviation translation :: "paging_format \<Rightarrow> vaddr \<Rightarrow> paddr \<Rightarrow> 'a paging \<Rightarrow> vaddr \<Rightarrow> paddr option" where
  "translation fmt pb root st va \<equiv> mmu fmt pb (memory st) (fmt_levels fmt) root va"

text \<open>The memory that belongs to the tables or may become a table.\<close>

definition may_write :: "paging_format \<Rightarrow> ('a \<Rightarrow> nat set) \<Rightarrow> vaddr \<Rightarrow> paddr \<Rightarrow> 'a paging \<Rightarrow> vaddr set" where
  "may_write fmt free pb root st =
     {pb + f | f. (\<exists>q. length q < fmt_levels fmt \<and> walk fmt pb (memory st) root q = Some f) \<or>
        4096 dvd unat f \<and> frame_memory f \<subseteq> free (frames st)}"

text \<open>Room for \<open>k\<close> more frames, unless a panic is allowed.\<close>

definition room :: "bool \<Rightarrow> ('a \<Rightarrow> nat set) \<Rightarrow> nat \<Rightarrow> 'a paging \<Rightarrow> bool" where
  "room b free k st \<longleftrightarrow> b \<or> 4096 * k \<le> card (free (frames st))"

lemma room_mono: "room b free k st \<Longrightarrow> j \<le> k \<Longrightarrow> room b free j st"
  by (auto simp: room_def)

lemma sbind_simps:
  "sbind (sreturn x) f = f x" "sbind (slift (Inr x)) f = f x" "sbind (sfail e) f = sfail e"
  "sbind (sbind m g) h = sbind m (\<lambda>x. sbind (g x) h)"
  by (auto simp: fun_eq_iff sbind_def sreturn_def slift_def sfail_def rbind_def split: sum.split)

lemma wp_cases: "wp b m Q k \<Longrightarrow> (\<exists>p. m k = Inl p \<and> b) \<or> (\<exists>r k'. m k = Inr (r, k') \<and> Q r k')"
  by (auto simp: wp_def split: sum.splits)

primrec descend ::
  "paging_format \<Rightarrow> 'a frame_alloc \<Rightarrow> vaddr \<Rightarrow> vaddr \<Rightarrow> usize list \<Rightarrow> ('a, vaddr) paging_op" where
  "descend fmt alloc pb v [] = sreturn v"
| "descend fmt alloc pb v (i # is) =
     sbind (next_table_create fmt alloc v i pb) (\<lambda>w. descend fmt alloc pb w is)"

definition map_at ::
  "paging_format \<Rightarrow> 'a frame_alloc \<Rightarrow> vaddr \<Rightarrow> vaddr \<Rightarrow> usize list \<Rightarrow> usize \<Rightarrow> u64 \<Rightarrow> ('a, unit) paging_op" where
  "map_at fmt alloc pb v is i e =
     sbind (descend fmt alloc pb v is) (\<lambda>w.
     sbind (table_index w i) (\<lambda>old.
       if fmt_in_use fmt old then sfail AlreadyMapped else table_set w i e))"

locale page_tables =
  entry_format fmt + frame_source ainv free alloc good
  for fmt and ainv :: "'a \<Rightarrow> bool" and free alloc good +
  fixes pb :: vaddr and root :: paddr
begin

abbreviation inv :: "'a paging \<Rightarrow> bool" where
  "inv \<equiv> pt_inv fmt ainv free pb root"

abbreviation tr :: "'a paging \<Rightarrow> vaddr \<Rightarrow> paddr option" where
  "tr \<equiv> translation fmt pb root"

abbreviation at :: "'a paging \<Rightarrow> nat list \<Rightarrow> paddr option" where
  "at st \<equiv> walk fmt pb (memory st) root"

abbreviation own :: "'a paging \<Rightarrow> vaddr set" where
  "own \<equiv> may_write fmt free pb root"

abbreviation levels :: nat where
  "levels \<equiv> fmt_levels fmt"

text \<open>Only tables were added.\<close>

definition grown :: "'a paging \<Rightarrow> 'a paging \<Rightarrow> bool" where
  "grown st st' \<longleftrightarrow> inv st' \<and> tr st' = tr st \<and> free (frames st') \<subseteq> free (frames st) \<and>
     own st' \<subseteq> own st \<and> (\<forall>v. v \<notin> own st \<longrightarrow> memory st' v = memory st v)"

lemma invD:
  assumes "inv st"
  shows "ainv (frames st)" "tree_ok fmt pb root (free (frames st)) (memory st)" "frames_fit fmt pb (free (frames st))"
  using assms by (simp_all add: pt_inv_def)

lemma wp_table_index:
  "unat i < 512 \<Longrightarrow> wp b (table_index v i) Q st = Q (Inr (memory st v (unat i))) st"
  by (simp add: table_index_def wp_get ENTRY_COUNT_def)

lemma wp_table_set:
  "unat i < 512 \<Longrightarrow> wp b (table_set v i e) Q st =
    Q (Inr ()) (st\<lparr>memory := (memory st)(v := (memory st v)(unat i := e))\<rparr>)"
  by (simp add: table_set_def wp_update ENTRY_COUNT_def)

lemma wp_next_table:
  "unat i < 512 \<Longrightarrow> entry_addr fmt (memory st v (unat i)) = None \<Longrightarrow>
    wp b (next_table fmt v i pb) Q st = Q (Inr None) st"
  "unat i < 512 \<Longrightarrow> entry_addr fmt (memory st v (unat i)) = Some p \<Longrightarrow> window fmt pb p \<Longrightarrow>
    wp b (next_table fmt v i pb) Q st = Q (Inr (Some (pb + p))) st"
  by (simp_all add: next_table_def wp_simps wp_table_index wp_lift address_eq window_def)

lemma create_wp:
  assumes inv: "inv st" and p: "at st p = Some f" "length p = levels - Suc l" "0 < l" "l < levels"
    and i: "unat i < 512" and rm: "room b free (Suc k) st"
    and leaf: "\<And>a. entry_addr fmt (memory st (pb + f) (unat i)) = Some a \<Longrightarrow>
      fmt_is_leaf fmt (memory st (pb + f) (unat i)) \<Longrightarrow> Q (Inl AlreadyMapped) st"
    and go: "\<And>st' g. grown st st' \<Longrightarrow> at st' (p @ [unat i]) = Some g \<Longrightarrow> room b free k st' \<Longrightarrow>
      st' = st \<or> memory st' (pb + g) = (\<lambda>_. 0) \<Longrightarrow> Q (Inr (pb + g)) st'"
  shows "wp b (next_table_create fmt alloc (pb + f) i pb) Q st"
proof -
  note I = invD [OF inv]
  let ?e = "memory st (pb + f) (unat i)"
  have len: "length p < levels" using p by simp
  have slot: "slot_ok fmt pb l ?e" using tree_okD(4) [OF I(2) p(1) len, of "unat i"] p(2,4) by simp
  have win: "window fmt pb a" if "entry_addr fmt ?e = Some a" for a
    using slot that p(3) by (simp add: slot_ok_def)
  show ?thesis
  proof (cases "entry_addr fmt ?e")
    case (Some a)
    show ?thesis
    proof (cases "fmt_is_leaf fmt ?e")
      case True
      then show ?thesis
        using leaf [OF Some True] Some win i
        by (simp add: next_table_create_def wp_simps wp_next_table wp_table_index)
    next
      case False
      then have "at st (p @ [unat i]) = Some a" using Some p(1) by (simp add: walk_snoc child_def)
      moreover have "room b free k st" using rm by (auto simp: room_def)
      ultimately have "Q (Inr (pb + a)) st" using inv by (intro go) (simp_all add: grown_def)
      then show ?thesis
        using Some False win i by (simp add: next_table_create_def wp_simps wp_next_table wp_table_index wp_lift)
    qed
  next
    case None
    show ?thesis
    proof (cases "alloc (frames st)")
      case (Inl x)
      have b: b
      proof (rule ccontr)
        assume "\<not> b"
        then have "free (frames st) \<noteq> {}" using rm by (auto simp: room_def)
        then show False using allocate_ready [OF I(1)] Inl by auto
      qed
      have "wp b (allocate_frame alloc) R st" for R :: "paging_error + paddr \<Rightarrow> 'a paging \<Rightarrow> bool"
        using b Inl by (simp add: allocate_frame_def wp_def)
      then show ?thesis
        using None win i by (simp add: next_table_create_def wp_simps wp_next_table)
    next
      case (Inr x)
      then obtain g s where a: "alloc (frames st) = Inr (g, s)" by (cases x) simp
      have al: "ainv s" "4096 dvd unat g" "frame_memory g \<subseteq> free (frames st)" "free s = free (frames st) - frame_memory g"
        using allocate_law [OF I(1) a] by simp_all
      have g: "window fmt pb g" "entry_addr fmt (fmt_table fmt g) = Some g"
        using I(3) al(2,3) unfolding frames_fit_def by blast+
      let ?st = "st\<lparr>frames := s, memory := link pb f (unat i) g (memory st)\<rparr>"
      have fg: "f \<noteq> g" using fresh_table [OF I(2) al(3) p(1) len] .
      have "tree_ok fmt pb root (free s) (memory ?st)"
        unfolding al(4) using tree_ok_link [OF I(2) al(3) g(2) al(2) g(1) p None] by simp
      moreover have "frames_fit fmt pb (free s)" using I(3) unfolding frames_fit_def al(4) by (meson Diff_subset subset_trans)
      ultimately have "inv ?st" using al(1) by (simp add: pt_inv_def)
      moreover have "tr ?st = tr st" using mmu_link [OF I(2) al(3) g(2) p None] by (simp add: fun_eq_iff)
      moreover have "own ?st \<subseteq> own st"
        using walk_link [OF I(2) al(3) g(2) p(1) len None] al by (auto simp: may_write_def split: if_splits)
      moreover have "pb + f \<in> own st" "pb + g \<in> own st" using p(1) len al by (auto simp: may_write_def)
      ultimately have gr: "grown st ?st" by (auto simp: grown_def al(4))
      have "at ?st (p @ [unat i]) = Some g"
        using walk_link [OF I(2) al(3) g(2) p(1) len None, of "p @ [unat i]"] p(2,3,4) by simp
      moreover have "room b free k ?st" using rm allocate_room [OF I(1) a] by (auto simp: room_def)
      moreover have "memory ?st (pb + g) = (\<lambda>_. 0)" using fg by simp
      ultimately have "Q (Inr (pb + g)) ?st" by (intro go [OF gr]) simp_all
      moreover have "wp b (allocate_frame alloc) R st = R (Inr g) (st\<lparr>frames := s\<rparr>)"
        for R :: "paging_error + paddr \<Rightarrow> 'a paging \<Rightarrow> bool"
        using a by (simp add: allocate_frame_def wp_def)
      ultimately show ?thesis
        using None win i g fg
        by (simp add: next_table_create_def wp_simps wp_next_table wp_table_set wp_lift table_zero_def)
    qed
  qed
qed

lemma grown_trans: "grown st st' \<Longrightarrow> grown st' st'' \<Longrightarrow> grown st st''"
  unfolding grown_def by (metis subset_iff)

lemma grown_refl: "inv st \<Longrightarrow> grown st st"
  by (simp add: grown_def)

text \<open>An error says that a larger page covers the address.\<close>

lemma descend_wp:
  assumes "inv st" and "at st p = Some f" and "length p + length is + Suc l = levels"
    and "\<forall>i \<in> set is. unat i < 512" and "room b free (length is + k) st"
    and "\<And>st'. grown st st' \<Longrightarrow> room b free k st' \<Longrightarrow> (\<And>va. path levels (Suc l) va = p @ map unat is \<Longrightarrow> tr st va \<noteq> None) \<Longrightarrow>
      Q (Inl AlreadyMapped) st'"
    and "\<And>st' g. grown st st' \<Longrightarrow> at st' (p @ map unat is) = Some g \<Longrightarrow> room b free k st' \<Longrightarrow>
      at st (p @ map unat is) = Some g \<and> memory st' (pb + g) = memory st (pb + g) \<or> memory st' (pb + g) = (\<lambda>_. 0) \<Longrightarrow>
      Q (Inr (pb + g)) st'"
  shows "wp b (descend fmt alloc pb (pb + f) is) Q st"
  using assms
proof (induction "is" arbitrary: st p f)
  case Nil
  then show ?case by (simp add: wp_simps grown_refl)
next
  case (Cons i "is")
  let ?l = "Suc (l + length is)"
  have p: "length p = levels - Suc ?l" "0 < ?l" "?l < levels" using Cons.prems(3) by simp_all
  have i: "unat i < 512" and rm: "room b free (Suc (length is + k)) st" using Cons.prems(4,5) by simp_all
  show ?case
    unfolding descend.simps wp_simps
  proof (rule create_wp [OF Cons.prems(1,2) p i rm], goal_cases)
    case (1 a)
    have "tr st va \<noteq> None" if va: "path levels (Suc l) va = p @ map unat (i # is)" for va
    proof -
      have "take (length p) (path levels (Suc l) va) = p" "path levels (Suc l) va ! length p = unat i"
        using va by simp_all
      moreover have "levels - Suc (length p) = ?l" "levels - length p = Suc ?l" using Cons.prems(3) by simp_all
      then have "path levels (Suc l) va ! length p = idx ?l va"
        "take (length p) (path levels (Suc l) va) = path levels (Suc ?l) va"
        using Cons.prems(3) by (simp_all add: nth_path take_path)
      ultimately have "path levels (Suc ?l) va = p" "idx ?l va = unat i" by simp_all
      then have "path levels ?l va = p @ [unat i]" using path_step [OF p(3), of va] by simp
      note e = mmu_entry [OF Cons.prems(2) this p(3)]
      have "fmt_ends fmt ?l (memory st (pb + f) (unat i))" using 1(2) by (simp add: ends_leaf)
      then show ?thesis unfolding e(1) using 1(1) e(2) by simp
    qed
    moreover have "room b free k st" using rm by (rule room_mono) simp
    ultimately show ?case using Cons.prems(1) by (simp add: Cons.prems(6) grown_refl)
  next
    case (2 st' g)
    have tr: "tr st' = tr st" "inv st'" using 2(1) by (simp_all add: grown_def)
    show ?case
      unfolding post_simps
    proof (rule Cons.IH [OF tr(2) 2(2)], goal_cases)
      case (4 st'')
      then show ?case using grown_trans [OF 2(1)] tr(1) by (intro Cons.prems(6)) simp_all
    next
      case (5 st'' h)
      have "at st (p @ map unat (i # is)) = Some h \<and> memory st'' (pb + h) = memory st (pb + h) \<or> memory st'' (pb + h) = (\<lambda>_. 0)"
      proof (cases "st' = st")
        case False
        then have "memory st' (pb + g) = (\<lambda>_. 0)" using 2(4) by simp
        moreover have "at st' ((p @ [unat i]) @ map unat is) = walk fmt pb (memory st') g (map unat is)"
          using 2(2) by (simp only: walk_append Option.bind.simps)
        ultimately show ?thesis using 5(4) by (cases "is") (auto simp: child_def unused(3))
      qed (use 5(4) in simp)
      then show ?case using 5 grown_trans [OF 2(1)] by (intro Cons.prems(7)) simp_all
    qed (use Cons.prems(3,4) 2(3) in simp_all)
  qed
qed

lemma map_at_wp:
  assumes inv: "inv st" and l: "l < levels"
    and is': "map unat is = path levels (Suc l) page" and i: "unat i = idx l page"
    and e: "slot_ok fmt pb l e" "fmt_ends fmt l e" "entry_addr fmt e = Some frame"
    and rm: "room b free (levels - 1 - l + k) st"
    and bad: "\<And>st'. grown st st' \<Longrightarrow> room b free k st' \<Longrightarrow> tr st page \<noteq> None \<or> 0 < l \<and> at st (path levels l page) \<noteq> None \<Longrightarrow>
      Q (Inl AlreadyMapped) st'"
    and good: "\<And>st'. inv st' \<Longrightarrow> free (frames st') \<subseteq> free (frames st) \<Longrightarrow> room b free k st' \<Longrightarrow>
      (\<And>va. tr st' va = (if path levels l va = path levels l page then Some (frame + take_bit (12 + 9 * l) va) else tr st va)) \<Longrightarrow>
      (\<And>va. path levels l va = path levels l page \<Longrightarrow> tr st va = None) \<Longrightarrow>
      (\<exists>f. at st' (path levels (Suc l) page) = Some f \<and> memory st' (pb + f) (idx l page) = e) \<Longrightarrow>
      (\<And>v. v \<notin> own st \<Longrightarrow> memory st' v = memory st v) \<Longrightarrow> Q (Inr ()) st'"
  shows "wp b (map_at fmt alloc pb (pb + root) is i e) Q st"
proof -
  have len: "length is = levels - Suc l" using arg_cong [OF is', of length] by simp
  have top: "at st [] = Some root" by simp
  have pa: "path levels l page = map unat is @ [unat i]" using is' i path_step [OF l, of page] by simp
  have small: "unat j < 512" if "j \<in> set is" for j
  proof -
    have "unat j \<in> set (path levels (Suc l) page)" using that by (simp flip: is')
    then show ?thesis using idx_less by (auto simp: path_def)
  qed
  have i512: "unat i < 512" using i idx_less [of l page] by simp
  show ?thesis
    unfolding map_at_def wp_simps
  proof (rule descend_wp [OF inv top, where k = k and l = l], goal_cases)
    case (4 st')
    then show ?case using bad is' by simp
  next
    case (5 st' f)
    then have f: "at st' (map unat is) = Some f" and I: "inv st'" "tr st' = tr st" "free (frames st') \<subseteq> free (frames st)"
      by (simp_all add: grown_def)
    note J = invD [OF I(1)]
    have plen: "length (map unat is) = levels - Suc l" "length (map unat is) < levels" using len l by simp_all
    let ?e = "memory st' (pb + f) (unat i)"
    have slot: "slot_ok fmt pb l ?e" using tree_okD(4) [OF J(2) f plen(2), of "unat i"] len l by simp
    show ?case
    proof (cases "fmt_in_use fmt ?e")
      case True
      then obtain a where a: "entry_addr fmt ?e = Some a" using slot by (auto simp: slot_ok_def)
      have old: "at st (map unat is) = Some f" "memory st (pb + f) (unat i) = ?e"
        using 5(4) a by auto
      note m = mmu_entry [OF old(1) pa l]
      have "tr st page \<noteq> None \<or> 0 < l \<and> at st (path levels l page) \<noteq> None"
      proof (cases "fmt_ends fmt l ?e")
        case True
        then show ?thesis using m a old(2) by simp
      next
        case False
        then have "0 < l" using slot a by (cases l) (simp_all add: slot_ok_def)
        then have "\<not> fmt_is_leaf fmt ?e" using False ends_leaf [of "l - 1"] by simp
        with \<open>0 < l\<close> show ?thesis using a old pa by (simp add: walk_snoc child_def)
      qed
      then have "Q (Inl AlreadyMapped) st'" using bad [OF 5(1,3)] by simp
      then show ?thesis using True i512 by (simp add: wp_simps wp_table_index)
    next
      case False
      then have u: "entry_addr fmt ?e = None" using slot by (simp add: slot_ok_def)
      let ?st = "st'\<lparr>memory := put pb f (unat i) e (memory st')\<rparr>"
      have "inv ?st"
        using J tree_ok_put_leaf [OF J(2) f plen(1) l u e(2,1)] by (simp add: pt_inv_def)
      moreover have "tr ?st va = (if path levels l va = path levels l page then Some (frame + take_bit (12 + 9 * l) va) else tr st va)" for va
        using mmu_put_leaf [OF J(2) f plen(1) l u e(2,3), of va] I(2) by (simp add: pa)
      moreover have "tr st va = None" if "path levels l va = path levels l page" for va
        using mmu_unused [OF f _ l u, of va] I(2) that by (simp add: pa)
      moreover have "room b free k ?st" using 5(3) by (simp add: room_def)
      moreover have "at ?st (path levels (Suc l) page) = Some f \<and> memory ?st (pb + f) (idx l page) = e"
        using walk_put_leaf [OF J(2) f plen(1) l u e(2) plen(2)] f i by (simp flip: is')
      moreover have "memory ?st v = memory st v" if "v \<notin> own st" for v
      proof -
        have "pb + f \<in> own st'" using f plen(2) by (auto simp: may_write_def)
        then show ?thesis using 5(1) that by (auto simp: grown_def)
      qed
      ultimately have "Q (Inr ()) ?st" using I(3) by (intro good) auto
      then show ?thesis using False i512 by (simp add: wp_simps wp_table_index wp_table_set)
    qed
  qed (use len l small rm in simp_all)
qed

subsection \<open>The operations of the page table\<close>

lemma index_words:
  assumes "usize_bits ops"
  shows "p4_index ops va = Inr (index_word 3 va)" "p3_index ops va = Inr (index_word 2 va)"
    "p2_index ops va = Inr (index_word 1 va)" "p1_index ops va = Inr (index_word 0 va)"
  using get_field [OF assms] by (simp_all add: index_word_def p4_index_def p3_index_def p2_index_def p1_index_def)

lemma root_window: "inv st \<Longrightarrow> 0 < levels \<Longrightarrow> vaddr_add (fmt_target fmt) pb root = Inr (pb + root)"
  using tree_okD(2) [of pb root "free (frames st)" "memory st" "[]" root] by (simp add: pt_inv_def window_def)

abbreviation path_words :: "nat \<Rightarrow> vaddr \<Rightarrow> usize list" where
  "path_words l va \<equiv> map (\<lambda>j. index_word j va) (rev [l ..< levels])"

lemma path_words: "map unat (path_words l va) = path levels l va"
  by (simp add: path_def comp_def)

lemma map_4_eq:
  assumes "usize_bits ops" and "levels = 4" and "vaddr_add (fmt_target fmt) pb root = Inr (pb + root)"
  shows "map_4 fmt ops alloc pb root s page frame fl =
    map_at fmt alloc pb (pb + root) (path_words (Suc (lev s)) page) (index_word (lev s) page) (fmt_mapping fmt s frame fl)"
proof -
  have "rev [Suc 0 ..< 4] = [3, 2, 1]" "rev [Suc (Suc 0) ..< 4] = [3, 2]" "rev [3 ..< 4] = [3::nat]"
    by (simp_all add: upt_rec)
  then show ?thesis
    using assms(2,3)
    by (cases s) (simp_all add: map_4_def map_at_def map_entry_def index_words [OF assms(1)] lev_def sbind_simps)
qed

lemma map_3_eq:
  assumes "usize_bits ops" and "levels = 3" and "vaddr_add (fmt_target fmt) pb root = Inr (pb + root)"
  shows "map_3 fmt ops alloc pb root s page frame fl =
    map_at fmt alloc pb (pb + root) (path_words (Suc (lev s)) page) (index_word (lev s) page) (fmt_mapping fmt s frame fl)"
proof -
  have "rev [Suc 0 ..< 3] = [2, 1]" "rev [Suc (Suc 0) ..< 3] = [2]" "rev [3 ..< 3] = ([]::nat list)"
    by (simp_all add: upt_rec)
  then show ?thesis
    using assms(2,3)
    by (cases s) (simp_all add: map_3_def map_at_def map_entry_def index_words [OF assms(1)] lev_def sbind_simps)
qed

end

end
