(* ===== verification/Area_Mapping.thy ===== *)
theory Area_Mapping
  imports Page_Mapping
begin

text \<open>
  Mapping ranges and areas with an operation that maps one page.  The locale \<open>page_mapper\<close> is the
  contract of this operation: it changes the translations of one page and nothing else.  Then a range and
  an area are mapped completely, or up to the page where the error occurred.
\<close>

subsection \<open>Changes of a translation\<close>

definition mapped ::
  "target \<Rightarrow> (vaddr \<Rightarrow> paddr option) \<Rightarrow> vaddr \<Rightarrow> paddr \<Rightarrow> nat \<Rightarrow> (vaddr \<Rightarrow> paddr option) \<Rightarrow> bool" where
  "mapped t tr vs ps n tr' \<longleftrightarrow>
     (\<forall>va. vaddr_valid t va \<longrightarrow> tr' va = (if va \<in> vrange vs n then Some (ps + (va - vs)) else tr va))"

definition unmapped :: "target \<Rightarrow> (vaddr \<Rightarrow> paddr option) \<Rightarrow> vaddr \<Rightarrow> nat \<Rightarrow> bool" where
  "unmapped t tr vs n \<longleftrightarrow> (\<forall>va \<in> vrange vs n. vaddr_valid t va \<longrightarrow> tr va = None)"

text \<open>All of an area is mapped, or an error stopped it at an offset.\<close>

definition outcome ::
  "target \<Rightarrow> (vaddr \<Rightarrow> paddr option) \<Rightarrow> vaddr \<Rightarrow> paddr \<Rightarrow> nat \<Rightarrow> 'e + 'r \<Rightarrow> (vaddr \<Rightarrow> paddr option) \<Rightarrow> bool" where
  "outcome t tr vs ps n r tr' \<longleftrightarrow>
     (case r of
        Inr _ \<Rightarrow> mapped t tr vs ps n tr' \<and> unmapped t tr vs n
      | Inl _ \<Rightarrow> \<exists>j < n. mapped t tr vs ps j tr')"

lemma outcome_simps [simp]:
  "outcome t tr vs ps n (Inr x) tr' \<longleftrightarrow> mapped t tr vs ps n tr' \<and> unmapped t tr vs n"
  "outcome t tr vs ps n (Inl e) tr' \<longleftrightarrow> (\<exists>j < n. mapped t tr vs ps j tr')"
  by (simp_all add: outcome_def)

lemma outcome_error_mono: "outcome t tr vs ps n (Inl e) tr' \<Longrightarrow> n \<le> m \<Longrightarrow> outcome t tr vs ps m (Inl e) tr'"
  unfolding outcome_simps by (meson less_le_trans)

lemma mapped_0 [simp]: "mapped t tr vs ps 0 tr" and unmapped_0 [simp]: "unmapped t tr vs 0"
  by (auto simp: mapped_def unmapped_def)

lemma unat_shift:
  fixes vs :: usize
  assumes "unat vs + n < 2 ^ 64"
  shows "unat (vs + of_nat n) = unat vs + n"
proof -
  have "unat (of_nat n :: usize) = n" using assms by (simp add: unsigned_of_nat take_bit_nat_eq_self)
  then show ?thesis using assms by (subst unat_add_no_overflow) simp_all
qed

lemma vrange_append:
  "unat vs + n < 2 ^ 64 \<Longrightarrow> vrange vs (n + m) = vrange vs n \<union> vrange (vs + of_nat n) m"
  by (auto simp: unat_shift)

lemma mapped_append:
  assumes small: "unat vs + n < 2 ^ 64"
    and a: "mapped t tr vs ps n tr1" and b: "mapped t tr1 (vs + of_nat n) (ps + of_nat n) m tr2"
  shows "mapped t tr vs ps (n + m) tr2"
  unfolding mapped_def
proof (intro allI impI)
  fix va assume va: "vaddr_valid t va"
  have "tr2 va = (if va \<in> vrange (vs + of_nat n) m then Some (ps + (va - vs)) else tr1 va)"
    using b va by (simp add: mapped_def algebra_simps)
  then show "tr2 va = (if va \<in> vrange vs (n + m) then Some (ps + (va - vs)) else tr va)"
    using a va unfolding mapped_def vrange_append [OF small] by auto
qed

lemma unmapped_append:
  assumes small: "unat vs + n < 2 ^ 64"
    and a: "mapped t tr vs ps n tr1" and u: "unmapped t tr vs n" "unmapped t tr1 (vs + of_nat n) m"
  shows "unmapped t tr vs (n + m)"
  using a u unfolding unmapped_def mapped_def vrange_append [OF small] by (auto simp: unat_shift [OF small])

lemma outcome_append:
  assumes small: "unat vs + n < 2 ^ 64" and m: "mapped t tr vs ps n tr1" and u: "unmapped t tr vs n"
    and o: "outcome t tr1 (vs + of_nat n) (ps + of_nat n) m r tr2"
  shows "outcome t tr vs ps (n + m) r tr2"
proof (cases r)
  case (Inl e)
  then obtain j where "j < m" "mapped t tr1 (vs + of_nat n) (ps + of_nat n) j tr2" using o by auto
  then show ?thesis using mapped_append [OF small m] Inl by (auto intro!: exI [of _ "n + j"])
next
  case (Inr x)
  then show ?thesis using o mapped_append [OF small m] unmapped_append [OF small m u] u by simp
qed

text \<open>Where a range or an area may lie: within one half of the virtual address space, on physical
  addresses that fit an entry.\<close>

definition place_ok :: "target \<Rightarrow> (paddr \<Rightarrow> bool) \<Rightarrow> vaddr \<Rightarrow> paddr \<Rightarrow> nat \<Rightarrow> bool" where
  "place_ok t fits vs ps n \<longleftrightarrow>
     unat vs + n < 2 ^ 64 \<and> unat ps + n < 2 ^ 64 \<and> 4096 dvd unat vs \<and> 4096 dvd unat ps \<and> paddr_valid t (ps + of_nat n) \<and>
     (\<forall>x. unat vs \<le> unat x \<and> unat x \<le> unat vs + n \<longrightarrow> vaddr_valid t x) \<and>
     (\<forall>f. unat ps \<le> unat f \<and> unat f < unat ps + n \<and> 4096 dvd unat f \<longrightarrow> fits f)"

subsection \<open>The contract of \<open>map\<close>\<close>

text \<open>The arithmetic of a round of the loop of \<open>map_area\<close>.\<close>

lemma fits_page_eq:
  "fits_page s cursor phys left = Inr (unat (SIZE s) dvd unat cursor \<and> unat (SIZE s) dvd unat phys \<and> SIZE s \<le> left)"
  by (simp add: fits_page_def vaddr_is_aligned_SIZE paddr_is_aligned_SIZE)

lemma unat_of_nat_small: "n < 2 ^ 64 \<Longrightarrow> unat (of_nat n :: usize) = n"
  by (simp add: unsigned_of_nat take_bit_nat_eq_self)

lemma SIZE_power: "SIZE s = 2 ^ (12 + 9 * lev s)" "12 + 9 * lev s < 64"
  by (cases s; simp add: lev_def)+

lemma align_down_left:
  assumes "n < 2 ^ 64"
  shows "align_down (of_nat n) (SIZE s) = Inr (of_nat (n div unat (SIZE s) * unat (SIZE s)))"
proof -
  have k: "12 + 9 * lev s < LENGTH(64)" using SIZE_power(2) by simp
  have "unat (of_nat n AND NOT (mask (12 + 9 * lev s)) :: usize) = n div 2 ^ (12 + 9 * lev s) * 2 ^ (12 + 9 * lev s)"
    using assms by (simp add: unat_and_not_mask unat_of_nat_small)
  also have "\<dots> = unat (of_nat (n div 2 ^ (12 + 9 * lev s) * 2 ^ (12 + 9 * lev s)) :: usize)"
    using assms div_times_less_eq_dividend [of n "2 ^ (12 + 9 * lev s)"] by (intro unat_of_nat_small [symmetric]) linarith
  finally have e: "of_nat n AND NOT (mask (12 + 9 * lev s)) =
      (of_nat (n div 2 ^ (12 + 9 * lev s) * 2 ^ (12 + 9 * lev s)) :: usize)"
    by (simp only: word_unat_eq_iff)
  have "align_down (of_nat n) (SIZE s) = align_down (of_nat n) (2 ^ (12 + 9 * lev s))" by (simp only: SIZE_power(1))
  then show ?thesis unfolding align_down_power [OF k] e by (simp only: SIZE_lev)
qed

lemma next_boundary:
  fixes c :: vaddr
  assumes "unat c + 2 ^ 21 < 2 ^ 64"
  shows "\<exists>r. vaddr_align_up c (SIZE Size2MiB) = Inr r \<and> unat r = (unat c + 2 ^ 21 - 1) div 2 ^ 21 * 2 ^ 21"
proof -
  have "is_power_of_two (2 ^ 21 :: usize)" by (rule is_power_of_two_power) simp
  then have p: "is_power_of_two (SIZE Size2MiB)" by simp
  have "vaddr_align_up c (SIZE Size2MiB) = align_up c (2 ^ 21)"
    using p by (simp add: vaddr_align_up_def align_up_def vaddr_align_down_def align_down_def)
  then show ?thesis using align_up_power [of 21 c] assms by simp
qed

locale page_mapper =
  fixes t :: target and map_page :: "'a map_page" and inv :: "'a paging \<Rightarrow> bool"
    and tr :: "'a paging \<Rightarrow> vaddr \<Rightarrow> paddr option" and free :: "'a \<Rightarrow> nat set" and cost :: nat and fits :: "paddr \<Rightarrow> bool"
  assumes map_law:
    "inv st \<Longrightarrow> vaddr_valid t page \<Longrightarrow> unat (SIZE s) dvd unat page \<Longrightarrow> unat (SIZE s) dvd unat frame \<Longrightarrow> fits frame \<Longrightarrow>
     room b free (cost + k) st \<Longrightarrow>
     wp b (map_page s page frame fl)
       (\<lambda>r st'. inv st' \<and> room b free k st' \<and> outcome t (tr st) page frame (unat (SIZE s)) r (tr st')) st"
begin

lemma place_ok_split:
  assumes "place_ok t fits vs ps (n + m)" and "4096 dvd n"
  shows "place_ok t fits vs ps n" and "place_ok t fits (vs + of_nat n) (ps + of_nat n) m"
proof -
  have b: "unat vs + (n + m) < 2 ^ 64" "unat ps + (n + m) < 2 ^ 64" using assms(1) by (simp_all add: place_ok_def)
  then have u: "unat (vs + of_nat n) = unat vs + n" "unat (ps + of_nat n) = unat ps + n"
    "unat (ps + of_nat (n + m)) = unat ps + (n + m)"
    using unat_shift [of vs n] unat_shift [of ps n] unat_shift [of ps "n + m"] by simp_all
  show "place_ok t fits vs ps n"
    using assms(1) u paddr_valid_le [of t "ps + of_nat (n + m)" "ps + of_nat n"] by (auto simp: place_ok_def)
  show "place_ok t fits (vs + of_nat n) (ps + of_nat n) m"
    using assms u by (auto simp: place_ok_def add.assoc dvd_add)
qed

lemma forward_one:
  assumes "place_ok t fits page frame (unat (SIZE s))"
  shows "page_forward_checked t s page 1 = Some (page + SIZE s)"
    and "frame_forward_checked t s frame 1 = Some (frame + SIZE s)"
proof -
  have b: "unat page + unat (SIZE s) < 2 ^ 64" "unat frame + unat (SIZE s) < 2 ^ 64" "paddr_valid t (frame + SIZE s)"
    using assms by (simp_all add: place_ok_def)
  then have "vaddr_valid t (page + SIZE s)"
    using assms by (simp add: place_ok_def unat_add_no_overflow)
  then show "page_forward_checked t s page 1 = Some (page + SIZE s)"
    using b unsigned_less [of "SIZE s", where 'a = nat]
    by (simp add: page_forward_checked_def checked_mul_def vaddr_checked_add_def checked_add_def)
  show "frame_forward_checked t s frame 1 = Some (frame + SIZE s)"
    using b by (intro frame_forward_one [where e = "frame + SIZE s"]) (simp_all add: unat_add_no_overflow)
qed

lemma map_range_wp:
  assumes "inv st" and "place_ok t fits page frame (N * unat (SIZE s))"
    and "unat (SIZE s) dvd unat page" and "unat (SIZE s) dvd unat frame" and "room b free (N * cost + k) st"
  shows "wp b (map_range t map_page s page (page + of_nat (N * unat (SIZE s))) frame (frame + of_nat (N * unat (SIZE s))) fl)
    (\<lambda>r st'. inv st' \<and> room b free k st' \<and> outcome t (tr st) page frame (N * unat (SIZE s)) r (tr st')) st"
  using assms
proof (induction N arbitrary: st page frame)
  case 0
  then show ?case by (simp add: map_range.simps [of t map_page s page] wp_simps)
next
  case (Suc N)
  let ?S = "unat (SIZE s)" and ?n = "N * unat (SIZE s)"
  have n: "Suc N * ?S = ?S + ?n" by simp
  have "4096 dvd ?S" by (cases s) simp_all
  then have pl: "place_ok t fits page frame ?S" "place_ok t fits (page + of_nat ?S) (frame + of_nat ?S) ?n"
    using place_ok_split [of page frame ?S ?n] Suc.prems(2) by (simp_all only: n)
  have b: "unat page + (?S + ?n) < 2 ^ 64" "unat frame + (?S + ?n) < 2 ^ 64"
    using Suc.prems(2) unfolding n by (simp_all add: place_ok_def)
  then have b': "unat page + ?S < 2 ^ 64" "unat frame + ?S < 2 ^ 64" by simp_all
  have lt: "page < page + of_nat (?S + ?n)" "frame < frame + of_nat (?S + ?n)"
    using unat_shift [OF b(1)] unat_shift [OF b(2)] by (simp_all add: word_less_nat_alt)
  have e: "page + of_nat ?S = page + SIZE s" "frame + of_nat ?S = frame + SIZE s" by simp_all
  have pe: "page + of_nat (?S + ?n) = page + SIZE s + of_nat ?n" "frame + of_nat (?S + ?n) = frame + SIZE s + of_nat ?n"
    by (simp_all add: algebra_simps)
  have al: "?S dvd unat (page + SIZE s)" "?S dvd unat (frame + SIZE s)"
    using Suc.prems(3,4) b' by (simp_all add: unat_add_no_overflow)
  have valid: "vaddr_valid t page" "fits frame" using pl(1) by (auto simp: place_ok_def)
  have "room b free (cost + (N * cost + k)) st" using Suc.prems(5) by (simp add: add.assoc)
  note m = map_law [OF Suc.prems(1) valid(1) Suc.prems(3,4) valid(2) this, of fl]
  have step: "map_range t map_page s page (page + of_nat (?S + ?n)) frame (frame + of_nat (?S + ?n)) fl =
      sbind (map_page s page frame fl) (\<lambda>_.
        map_range t map_page s (page + SIZE s) (page + SIZE s + of_nat ?n) (frame + SIZE s) (frame + SIZE s + of_nat ?n) fl)"
    using lt forward_one [OF pl(1)] by (subst map_range.simps) (simp only: pe sbind_simps runwrap_simps if_True option.simps)
  show ?case
    unfolding n step wp_simps
  proof (rule wp_mono [OF m], elim conjE)
    fix r :: "paging_error + unit" and st' assume I: "inv st'" "room b free (N * cost + k) st'" and o: "outcome t (tr st) page frame ?S r (tr st')"
    show "onward b (\<lambda>_. map_range t map_page s (page + SIZE s) (page + SIZE s + of_nat ?n) (frame + SIZE s) (frame + SIZE s + of_nat ?n) fl)
        (\<lambda>r st'. inv st' \<and> room b free k st' \<and> outcome t (tr st) page frame (?S + ?n) r (tr st')) r st'"
    proof (cases r)
      case (Inl x)
      have "room b free k st'" using I(2) by (rule room_mono) simp
      moreover have "outcome t (tr st) page frame (?S + ?n) (Inl x :: paging_error + unit) (tr st')"
        by (rule outcome_error_mono [OF o [unfolded Inl] le_add1])
      ultimately show ?thesis using I(1) Inl by simp
    next
      case (Inr x)
      then have o': "mapped t (tr st) page frame ?S (tr st')" "unmapped t (tr st) page ?S" using o by simp_all
      show ?thesis
        unfolding Inr post_simps
      proof (rule wp_mono [OF Suc.IH [OF I(1) pl(2) [unfolded e] al I(2)]], elim conjE, intro conjI)
        fix r' :: "paging_error + unit" and st'' assume "outcome t (tr st') (page + SIZE s) (frame + SIZE s) ?n r' (tr st'')"
        then show "outcome t (tr st) page frame (?S + ?n) r' (tr st'')"
          using outcome_append [OF b'(1) o'] by (simp add: e)
      qed simp_all
    qed
  qed
qed

subsection \<open>Areas\<close>

lemma map_bytes_wp:
  assumes inv: "inv st" and pl: "place_ok t fits cursor phys n"
    and al: "unat (SIZE s) dvd unat cursor" "unat (SIZE s) dvd unat phys" "unat (SIZE s) dvd n"
    and rm: "room b free (n div 4096 * cost + k) st"
    and ok: "\<And>st'. inv st' \<Longrightarrow> room b free k st' \<Longrightarrow> mapped t (tr st) cursor phys n (tr st') \<Longrightarrow> unmapped t (tr st) cursor n \<Longrightarrow>
      Q (Inr (cursor + of_nat n)) st'"
    and err: "\<And>st' e j. inv st' \<Longrightarrow> room b free k st' \<Longrightarrow> j < n \<Longrightarrow> mapped t (tr st) cursor phys j (tr st') \<Longrightarrow> Q (Inl e) st'"
  shows "wp b (map_bytes t map_page s cursor phys (of_nat n) fl) Q st"
proof -
  let ?S = "unat (SIZE s)"
  obtain N where N: "n = N * ?S" using dvd_div_mult_self [OF al(3)] by metis
  have b: "unat cursor + n < 2 ^ 64" "unat phys + n < 2 ^ 64" using pl by (simp_all add: place_ok_def)
  have un: "unat (of_nat n :: usize) = n" using b(1) by (simp add: unsigned_of_nat take_bit_nat_eq_self)
  have v: "vaddr_add t cursor (of_nat n) = Inr (cursor + of_nat n)"
    using b(1) pl unat_shift [OF b(1)] by (simp add: vaddr_add_def uadd_def un place_ok_def)
  have p: "paddr_add t phys (of_nat n) = Inr (phys + of_nat n)"
    using b(2) pl by (simp add: paddr_add_def uadd_def un place_ok_def)
  have al': "?S dvd unat (cursor + of_nat n)" "?S dvd unat (phys + of_nat n)"
    using al by (simp_all add: unat_shift [OF b(1)] unat_shift [OF b(2)])
  have "N \<le> n div 4096"
  proof -
    have "4096 \<le> ?S" by (cases s) simp_all
    then have "N * 4096 \<le> n" unfolding N by simp
    then show ?thesis by (simp add: less_eq_div_iff_mult_less_eq)
  qed
  then have "N * cost + k \<le> n div 4096 * cost + k" by simp
  with rm have rm': "room b free (N * cost + k) st" by (rule room_mono)
  have pl': "place_ok t fits cursor phys (N * ?S)" using pl by (simp add: N)
  note m = map_range_wp [OF inv pl' al(1,2) rm', of fl, folded N]
  have "map_bytes t map_page s cursor phys (of_nat n) fl =
      sbind (map_range t map_page s cursor (cursor + of_nat n) phys (phys + of_nat n) fl) (\<lambda>_. sreturn (cursor + of_nat n))"
    using v p al al' by (simp add: map_bytes_def page_starts_with_eq frame_starts_with_eq sbind_simps)
      (simp add: slift_def sreturn_def)
  then have eq: "wp b (map_bytes t map_page s cursor phys (of_nat n) fl) Q st =
      wp b (map_range t map_page s cursor (cursor + of_nat n) phys (phys + of_nat n) fl)
        (onward b (\<lambda>_. sreturn (cursor + of_nat n)) Q) st"
    by (simp only: wp_bind)
  show ?thesis
    unfolding eq
  proof (rule wp_mono [OF m])
    fix r :: "paging_error + unit" and st'
    assume a: "inv st' \<and> room b free k st' \<and> outcome t (tr st) cursor phys n r (tr st')"
    then show "onward b (\<lambda>_. sreturn (cursor + of_nat n)) Q r st'"
      using ok err by (cases r) (auto simp: wp_simps)
  qed
qed

text \<open>One round of the loop.\<close>

lemma step_wp:
  assumes inv: "inv st" and pl: "place_ok t fits vs ps n" and n: "4096 dvd n"
    and ovf: "unat vs + n + 2 ^ 21 < 2 ^ 64" "unat ps + unat vs + n \<le> 2 ^ 64"
    and d: "d < n" "4096 dvd d" and rm: "room b free ((n - d) div 4096 * cost + k) st"
    and ok: "\<And>st' m. inv st' \<Longrightarrow> 0 < m \<Longrightarrow> d + m \<le> n \<Longrightarrow> 4096 dvd m \<Longrightarrow> room b free ((n - (d + m)) div 4096 * cost + k) st' \<Longrightarrow>
      mapped t (tr st) (vs + of_nat d) (ps + of_nat d) m (tr st') \<Longrightarrow> unmapped t (tr st) (vs + of_nat d) m \<Longrightarrow>
      Q (Inr (vs + of_nat (d + m))) st'"
    and err: "\<And>st' e j. inv st' \<Longrightarrow> room b free k st' \<Longrightarrow> j < n - d \<Longrightarrow>
      mapped t (tr st) (vs + of_nat d) (ps + of_nat d) j (tr st') \<Longrightarrow> Q (Inl e) st'"
  shows "wp b (map_area_step t map_page vs ps (vs + of_nat n) fl (vs + of_nat d)) Q st"
proof -
  let ?c = "vs + of_nat d" and ?p = "ps + of_nat d" and ?left = "of_nat (n - d) :: usize"
  have b: "unat vs + n < 2 ^ 64" "unat ps + n < 2 ^ 64" "4096 dvd unat vs" "4096 dvd unat ps"
    using pl by (simp_all add: place_ok_def)
  have bd: "unat vs + d < 2 ^ 64" "unat ps + d < 2 ^ 64" "n < 2 ^ 64" "n - d < 2 ^ 64" using b d by simp_all
  have u: "unat ?c = unat vs + d" "unat ?p = unat ps + d" "unat (vs + of_nat n) = unat vs + n" "unat (ps + of_nat n) = unat ps + n"
    "unat ?left = n - d"
    using unat_shift [OF bd(1)] unat_shift [OF bd(2)] unat_shift [OF b(1)] unat_shift [OF b(2)] unat_of_nat_small [OF bd(4)]
    by simp_all
  have "paddr_valid t ?p" by (rule paddr_valid_le [of t "ps + of_nat n"]) (use pl u d(1) in \<open>simp_all add: place_ok_def\<close>)
  moreover have "uadd ps ?c = Inr (ps + ?c)" using ovf(2) d(1) u(1) by (simp add: uadd_def)
  moreover have "usub (ps + ?c) vs = Inr ?p"
  proof -
    have "unat (ps + ?c) = unat ps + unat ?c" using ovf(2) d(1) u(1) by (intro unat_add_no_overflow) simp
    then have "vs \<le> ps + ?c" using u(1) by (simp add: word_le_nat_alt)
    then show ?thesis by (simp add: usub_def algebra_simps)
  qed
  ultimately have phys: "rbind (uadd ps ?c) (\<lambda>s. rbind (usub s vs) (\<lambda>a. runwrap (paddr_new t a))) = Inr ?p" by simp
  have left: "usub (vs + of_nat n) ?c = Inr ?left"
  proof -
    have "?c \<le> vs + of_nat n" using u d(1) by (simp add: word_le_nat_alt)
    moreover have "vs + of_nat n - ?c = ?left" using d(1) by (simp add: of_nat_diff)
    ultimately show ?thesis by (simp add: usub_def)
  qed
  have go: "wp b (map_bytes t map_page s ?c ?p (of_nat m) fl) Q st"
    if m: "0 < m" "d + m \<le> n" "unat (SIZE s) dvd m" "unat (SIZE s) dvd unat ?c" "unat (SIZE s) dvd unat ?p" for s m
  proof -
    have "4096 dvd unat (SIZE s)" by (cases s) simp_all
    then have dm: "4096 dvd m" using m(3) by (rule dvd_trans)
    have pl1: "place_ok t fits ?c ?p (n - d)"
      using place_ok_split(2) [of vs ps d "n - d"] pl d by simp
    have nd: "n - d = m + (n - (d + m))" using m(2) by simp
    have pl2: "place_ok t fits ?c ?p m"
      using place_ok_split(1) [of ?c ?p m "n - (d + m)"] pl1 dm nd by simp
    have "(n - d) div 4096 = m div 4096 + (n - (d + m)) div 4096"
      unfolding nd using dm by (simp add: div_plus_div_distrib_dvd_left)
    then have rm': "room b free (m div 4096 * cost + ((n - (d + m)) div 4096 * cost + k)) st"
      using rm by (simp add: algebra_simps)
    show ?thesis
    proof (rule map_bytes_wp [OF inv pl2 m(4,5,3) rm'], goal_cases)
      case (1 st')
      then show ?case using ok [of st' m] m(1,2) dm by (simp add: algebra_simps)
    next
      case (2 st' e j)
      moreover from 2(2) have "room b free k st'" by (rule room_mono) simp
      ultimately show ?case using m(2) by (intro err) simp_all
    qed
  qed
  have big: "wp b (map_bytes t map_page s ?c ?p (of_nat ((n - d) div unat (SIZE s) * unat (SIZE s))) fl) Q st"
    if s: "unat (SIZE s) dvd unat ?c" "unat (SIZE s) dvd unat ?p" "SIZE s \<le> ?left" for s
  proof (rule go [OF _ _ _ s(1,2)])
    have "unat (SIZE s) \<le> n - d" using s(3) u(5) by (simp add: word_le_nat_alt)
    then show "0 < (n - d) div unat (SIZE s) * unat (SIZE s)" by (simp add: div_greater_zero_iff)
    show "d + (n - d) div unat (SIZE s) * unat (SIZE s) \<le> n"
      using div_times_less_eq_dividend [of "n - d" "unat (SIZE s)"] d(1) by linarith
  qed simp
  obtain r where r: "vaddr_align_up (?c + 1) (SIZE Size2MiB) = Inr r" "unat r = (unat ?c + 1 + 2 ^ 21 - 1) div 2 ^ 21 * 2 ^ 21"
    and c1: "vaddr_add t ?c 1 = Inr (?c + 1)"
  proof -
    have uc: "unat (?c + 1) = unat ?c + 1" using u(1) ovf(1) d(1) by (subst unat_add_no_overflow) simp_all
    have "vaddr_valid t (?c + 1)" using pl uc u(1) d(1) by (simp add: place_ok_def)
    then have "vaddr_add t ?c 1 = Inr (?c + 1)" using u(1) ovf(1) d(1) by (simp add: vaddr_add_def uadd_def)
    moreover obtain r where "vaddr_align_up (?c + 1) (SIZE Size2MiB) = Inr r" "unat r = (unat (?c + 1) + 2 ^ 21 - 1) div 2 ^ 21 * 2 ^ 21"
      using next_boundary [of "?c + 1"] uc u(1) ovf(1) d(1) by auto
    ultimately show thesis using that uc by simp
  qed
  define m where "m = min (unat r - unat ?c) (n - d)"
  have rc: "unat ?c < unat r" "2 ^ 21 dvd unat r"
    using ceil_div_mult_bounds(1) [of "2 ^ 21" "unat ?c + 1"] r(2) by simp_all
  have "(4096::nat) dvd 2 ^ 21" by simp
  then have "4096 dvd unat r" using rc(2) by (rule dvd_trans)
  moreover have al: "4096 dvd unat ?c" "4096 dvd unat ?p" using b d u by simp_all
  ultimately have m4: "4096 dvd m" using n d by (simp add: m_def min_def)
  have m5: "0 < m" "d + m \<le> n" using rc(1) d(1) unfolding m_def by linarith+
  have small: "wp b (map_bytes t map_page Size4KiB ?c ?p (min (r - ?c) ?left) fl) Q st"
  proof -
    have le: "?c \<le> r" using rc(1) by (simp add: word_le_nat_alt)
    have "min (r - ?c) ?left = of_nat m"
      using le u(5) by (simp add: word_unat_eq_iff unat_sub_le min_def m_def word_le_nat_alt)
    then show ?thesis using go [of m Size4KiB] m4 m5 al by simp
  qed
  have sub: "usub r ?c = Inr (r - ?c)" using rc(1) by (simp add: usub_def word_le_nat_alt)
  show ?thesis
    using big [of Size1GiB] big [of Size2MiB] small
    unfolding map_area_step_def phys left fits_page_eq sbind_simps align_down_left [OF bd(4)] c1 rbind_simps r(1) sub wp_if
    by simp
qed

text \<open>The loop ends, at the end of the area.\<close>

lemma loop_ok:
  assumes pl: "place_ok t fits vs ps n" and n: "4096 dvd n"
    and ovf: "unat vs + n + 2 ^ 21 < 2 ^ 64" "unat ps + unat vs + n \<le> 2 ^ 64"
    and "inv st" and "d \<le> n" and "4096 dvd d" and "room b free ((n - d) div 4096 * cost + k) st"
  shows "\<exists>x. map_area_loop t map_page vs ps (vs + of_nat n) fl (vs + of_nat d) st = Some x \<and>
    (case x of Inl p \<Rightarrow> b | Inr (r, st') \<Rightarrow> inv st' \<and> room b free k st' \<and>
      outcome t (tr st) (vs + of_nat d) (ps + of_nat d) (n - d) r (tr st') \<and> (\<forall>c. r = Inr c \<longrightarrow> c = vs + of_nat n))"
  using assms(5-)
proof (induction "n - d" arbitrary: d st rule: less_induct)
  case less
  let ?c = "vs + of_nat d"
  have b: "unat vs + n < 2 ^ 64" using pl by (simp add: place_ok_def)
  then have bd: "unat vs + d < 2 ^ 64" using less.prems(2) by simp
  note u = unat_shift [OF b] unat_shift [OF bd]
  show ?case
  proof (cases "d < n")
    case False
    then have "d = n" using less.prems(2) by simp
    then show ?thesis using less.prems(1,4) by (simp add: map_area_loop.simps)
  next
    case True
    then have lt: "?c < vs + of_nat n" using u by (simp add: word_less_nat_alt)
    let ?G = "\<lambda>r st'. case r of
        Inl e \<Rightarrow> inv st' \<and> room b free k st' \<and> (\<exists>j < n - d. mapped t (tr st) ?c (ps + of_nat d) j (tr st'))
      | Inr c \<Rightarrow> \<exists>m. c = vs + of_nat (d + m) \<and> inv st' \<and> 0 < m \<and> d + m \<le> n \<and> 4096 dvd m \<and>
          room b free ((n - (d + m)) div 4096 * cost + k) st' \<and> mapped t (tr st) ?c (ps + of_nat d) m (tr st') \<and> unmapped t (tr st) ?c m"
    have w: "wp b (map_area_step t map_page vs ps (vs + of_nat n) fl ?c) ?G st"
      by (rule step_wp [OF less.prems(1) pl n ovf True less.prems(3,4)]) auto
    consider p where "map_area_step t map_page vs ps (vs + of_nat n) fl ?c st = Inl p" "b"
      | r st' where "map_area_step t map_page vs ps (vs + of_nat n) fl ?c st = Inr (r, st')" "?G r st'"
      using wp_cases [OF w] by blast
    then show ?thesis
    proof cases
      case 1
      then show ?thesis using lt by (simp add: map_area_loop.simps [of t map_page vs ps _ fl ?c])
    next
      case 2
      show ?thesis
      proof (cases r)
        case (Inl e)
        then show ?thesis using 2 lt by (simp add: map_area_loop.simps [of t map_page vs ps _ fl ?c])
      next
        case (Inr c)
        then obtain m where m: "c = vs + of_nat (d + m)" "inv st'" "0 < m" "d + m \<le> n" "4096 dvd m"
            "room b free ((n - (d + m)) div 4096 * cost + k) st'"
            "mapped t (tr st) ?c (ps + of_nat d) m (tr st')" "unmapped t (tr st) ?c m"
          using 2(2) by auto
        have dm: "4096 dvd d + m" "n - (d + m) < n - d" using m(3,4,5) less.prems(3) by simp_all
        have next': "map_area_loop t map_page vs ps (vs + of_nat n) fl ?c st =
            map_area_loop t map_page vs ps (vs + of_nat n) fl (vs + of_nat (d + m)) st'"
          using lt 2(1) Inr m(1) by (simp add: map_area_loop.simps [of t map_page vs ps _ fl ?c])
        have nd: "n - d = m + (n - (d + m))" using m(4) by simp
        have bm: "unat ?c + m < 2 ^ 64" using u(2) b m(4) by simp
        have "outcome t (tr st) ?c (ps + of_nat d) (n - d) r' tr2"
          if "outcome t (tr st') (vs + of_nat (d + m)) (ps + of_nat (d + m)) (n - (d + m)) r' tr2"
          for r' :: "paging_error + vaddr" and tr2
          using outcome_append [OF bm m(7,8), of "n - (d + m)" r' tr2] that nd by (simp add: algebra_simps)
        then show ?thesis
          unfolding next' using less.hyps [OF dm(2) m(2,4) dm(1) m(6)] by (fastforce split: sum.splits)
      qed
    qed
  qed
qed

lemma map_area_ok:
  assumes inv: "inv st" and pl: "place_ok t fits vs ps (unat bytes)" and n: "4096 dvd unat bytes"
    and ovf: "unat vs + unat bytes + 2 ^ 21 < 2 ^ 64" "unat ps + unat vs + unat bytes \<le> 2 ^ 64"
    and rm: "room b free (unat bytes div 4096 * cost + k) st"
  shows "\<exists>x. pt_map_area t map_page vs ps bytes fl st = Some x \<and>
    (case x of Inl p \<Rightarrow> b | Inr (r, st') \<Rightarrow> inv st' \<and> room b free k st' \<and> outcome t (tr st) vs ps (unat bytes) r (tr st'))"
proof -
  let ?n = "unat bytes"
  have b: "unat vs + ?n < 2 ^ 64" "unat ps + ?n < 2 ^ 64" "4096 dvd unat vs" "4096 dvd unat ps" "paddr_valid t (ps + bytes)"
    "vaddr_valid t (vs + bytes)"
    using pl by (simp_all add: place_ok_def unat_add_no_overflow)
  have "\<exists>d. abs_difference ps vs = Inr d" by (cases "vs < ps") (simp_all add: abs_difference_def usub_def)
  then obtain d where "abs_difference ps vs = Inr d" by blast
  then have checks: "map_area_checks t vs ps bytes = Inr (bytes < SIZE Size2MiB \<or> d mod SIZE Size2MiB \<noteq> 0)"
    using b n vaddr_is_aligned_SIZE [of vs Size4KiB] paddr_is_aligned_SIZE [of ps Size4KiB] word_mod_eq_0_iff_dvd [of bytes "SIZE Size4KiB"]
    by (simp add: map_area_checks_def urem_def)
  have va: "vaddr_add t vs bytes = Inr (vs + bytes)" and pa: "paddr_add t ps bytes = Inr (ps + bytes)"
    using b by (simp_all add: vaddr_add_def paddr_add_def uadd_def)
  show ?thesis
  proof (cases "bytes < SIZE Size2MiB \<or> d mod SIZE Size2MiB \<noteq> 0")
    case True
    obtain N where N: "?n = N * 4096" using dvd_div_mult_self [OF n] by metis
    have al: "unat (SIZE Size4KiB) dvd unat (vs + bytes)" "unat (SIZE Size4KiB) dvd unat (ps + bytes)"
      "unat (SIZE Size4KiB) dvd unat vs" "unat (SIZE Size4KiB) dvd unat ps"
      using b n by (simp_all add: unat_add_no_overflow)
    have eq: "pt_map_area t map_page vs ps bytes fl st =
        Some (map_range t map_page Size4KiB vs (vs + bytes) ps (ps + bytes) fl st)"
      using checks True va pa b al
      by (simp add: pt_map_area_def page_starts_with_eq frame_starts_with_eq sbind_simps del: SIZE.simps)
    have "bytes = of_nat (N * unat (SIZE Size4KiB))" by (simp flip: N)
    moreover have "wp b (map_range t map_page Size4KiB vs (vs + of_nat (N * unat (SIZE Size4KiB))) ps (ps + of_nat (N * unat (SIZE Size4KiB))) fl)
        (\<lambda>r st'. inv st' \<and> room b free k st' \<and> outcome t (tr st) vs ps (N * unat (SIZE Size4KiB)) r (tr st')) st"
      using pl rm N b by (intro map_range_wp [OF inv]) simp_all
    ultimately have "wp b (map_range t map_page Size4KiB vs (vs + bytes) ps (ps + bytes) fl)
        (\<lambda>r st'. inv st' \<and> room b free k st' \<and> outcome t (tr st) vs ps ?n r (tr st')) st"
      using N by simp
    then show ?thesis unfolding eq by (simp add: wp_def)
  next
    case False
    have "room b free ((?n - 0) div 4096 * cost + k) st" using rm by simp
    note l = loop_ok [OF pl n ovf inv _ _ this, of fl]
    have z: "vs + of_nat 0 = vs" "ps + of_nat 0 = ps" "?n - 0 = ?n" "of_nat ?n = bytes" by simp_all
    obtain x where x: "map_area_loop t map_page vs ps (vs + bytes) fl vs st = Some x"
      "case x of Inl p \<Rightarrow> b | Inr (r, st') \<Rightarrow> inv st' \<and> room b free k st' \<and>
        outcome t (tr st) vs ps ?n r (tr st') \<and> (\<forall>c. r = Inr c \<longrightarrow> c = vs + bytes)"
      using l [unfolded z] by auto
    have eq: "pt_map_area t map_page vs ps bytes fl st = map_option (\<lambda>r. rbind r (\<lambda>(r, st'). case r of
         Inl e \<Rightarrow> Inr (Inl e, st')
       | Inr cursor \<Rightarrow> rbind (rassert (cursor = vs + bytes)) (\<lambda>_. Inr (Inr (), st')))) (Some x)"
      using checks False va x(1) by (simp add: pt_map_area_def del: SIZE.simps)
    show ?thesis
      unfolding eq using x(2) by (cases x) (fastforce split: sum.splits)+
  qed
qed

end

subsection \<open>The page tables as a mapper\<close>

definition frame_fits :: "paging_format \<Rightarrow> vaddr \<Rightarrow> paddr \<Rightarrow> bool" where
  "frame_fits fmt pb f \<longleftrightarrow> window fmt pb f \<and> entry_addr fmt (fmt_table fmt f) = Some f"

context page_tables
begin

lemma page_outcome:
  assumes "vaddr_valid (fmt_target fmt) page" and "unat (SIZE s) dvd unat page" and "lev s < levels"
    and "\<And>va. tr' va = (if path levels (lev s) va = path levels (lev s) page then Some (frame + take_bit (12 + 9 * lev s) va) else tr0 va)"
    and "\<And>va. path levels (lev s) va = path levels (lev s) page \<Longrightarrow> tr0 va = None"
  shows "outcome (fmt_target fmt) tr0 page frame (unat (SIZE s)) (Inr ()) tr'"
proof -
  have al: "2 ^ (12 + 9 * lev s) dvd unat page" using assms(2) by (simp only: SIZE_lev)
  have c: "canon levels page" using assms(1) canonical by simp
  have eq: "path levels (lev s) va = path levels (lev s) page \<longleftrightarrow> va \<in> vrange page (unat (SIZE s))"
    "path levels (lev s) va = path levels (lev s) page \<Longrightarrow> take_bit (12 + 9 * lev s) va = va - page"
    if "vaddr_valid (fmt_target fmt) va" for va
  proof -
    have "canon levels va" using that canonical by simp
    note sp = same_page [OF this c assms(3) al]
    show "path levels (lev s) va = path levels (lev s) page \<longleftrightarrow> va \<in> vrange page (unat (SIZE s))"
      using sp(1) by (simp only: SIZE_lev)
    show "take_bit (12 + 9 * lev s) va = va - page" if "path levels (lev s) va = path levels (lev s) page"
      using sp(2) [OF that] by (simp add: eq_diff_eq add.commute)
  qed
  show ?thesis
    unfolding outcome_simps mapped_def unmapped_def using assms(4,5) eq by auto
qed

text \<open>The result of mapping one page.\<close>

definition page_result :: "frame_size \<Rightarrow> vaddr \<Rightarrow> paddr \<Rightarrow> flags \<Rightarrow> 'a paging \<Rightarrow> paging_error + unit \<Rightarrow> 'a paging \<Rightarrow> bool" where
  "page_result s page frame fl st r st' \<longleftrightarrow>
     (\<forall>v. v \<notin> own st \<longrightarrow> memory st' v = memory st v) \<and>
     (case r of
        Inl e \<Rightarrow> tr st' = tr st \<and> (tr st page \<noteq> None \<or> s \<noteq> Size4KiB \<and> at st (path levels (lev s) page) \<noteq> None)
      | Inr _ \<Rightarrow> mapped (fmt_target fmt) (tr st) page frame (unat (SIZE s)) (tr st') \<and>
          unmapped (fmt_target fmt) (tr st) page (unat (SIZE s)) \<and> 
          (\<exists>f. at st' (path levels (Suc (lev s)) page) = Some f \<and> memory st' (pb + f) (idx (lev s) page) = fmt_mapping fmt s frame fl))"

lemma page_result_outcome: "page_result s page frame fl st r st' \<Longrightarrow> outcome (fmt_target fmt) (tr st) page frame (unat (SIZE s)) r (tr st')"
  using mapped_0 [of "fmt_target fmt" "tr st" page frame] SIZE_pos [of s]
  by (cases r) (auto simp: page_result_def intro!: exI [of _ 0] simp del: SIZE_pos)

lemma map_page_wp:
  assumes inv: "inv st" and levels: "3 \<le> levels" and page: "vaddr_valid (fmt_target fmt) page" "unat (SIZE s) dvd unat page"
    and frame: "unat (SIZE s) dvd unat frame" "frame_fits fmt pb frame" and rm: "room b free (levels - 1 + k) st"
  shows "wp b (map_at fmt alloc pb (pb + root) (path_words (Suc (lev s)) page) (index_word (lev s) page) (fmt_mapping fmt s frame fl))
    (\<lambda>r st'. inv st' \<and> room b free k st' \<and> page_result s page frame fl st r st') st"
proof -
  have l: "lev s < levels" using lev_less [of s] levels by simp
  have fr: "window fmt pb frame" "entry_addr fmt (fmt_table fmt frame) = Some frame"
    using frame(2) by (simp_all add: frame_fits_def)
  note e = mapping [OF fr(2), of s fl]
  have slot: "slot_ok fmt pb (lev s) (fmt_mapping fmt s frame fl)"
    using e fr(1) frame(1) lev_less [of s] unfolding SIZE_lev slot_ok_def by auto
  have rm': "room b free (levels - 1 - lev s + k) st" using rm by (rule room_mono) simp
  show ?thesis
  proof (rule map_at_wp [OF inv l path_words unat_index_word slot _ _ rm', where frame = frame], goal_cases)
    case (3 st')
    then show ?case by (auto simp: grown_def page_result_def lev_def)
  next
    case (4 st')
    have "outcome (fmt_target fmt) (tr st) page frame (unat (SIZE s)) (Inr ()) (tr st')"
      by (rule page_outcome [OF page l 4(4,5)])
    then show ?case using 4(1,3,6,7) by (simp add: page_result_def)
  qed (use e in simp_all)
qed

lemma mapper:
  assumes "\<And>st s page frame fl. inv st \<Longrightarrow> map_page s page frame fl =
      map_at fmt alloc pb (pb + root) (path_words (Suc (lev s)) page) (index_word (lev s) page) (fmt_mapping fmt s frame fl)"
    and "3 \<le> levels"
  shows "page_mapper (fmt_target fmt) map_page inv tr free (levels - 1) (frame_fits fmt pb)"
proof (unfold_locales, goal_cases)
  case (1 st page s frame b k fl)
  show ?case
    unfolding assms(1) [OF 1(1)]
    by (rule wp_mono [OF map_page_wp [OF 1(1) assms(2) 1(2-)]]) (auto dest: page_result_outcome)
qed

lemma mapper_4: "usize_bits ops \<Longrightarrow> levels = 4 \<Longrightarrow>
    page_mapper (fmt_target fmt) (map_4 fmt ops alloc pb root) inv tr free 3 (frame_fits fmt pb)"
  using mapper [of "map_4 fmt ops alloc pb root"] by (simp add: map_4_eq root_window)

lemma mapper_3: "usize_bits ops \<Longrightarrow> levels = 3 \<Longrightarrow>
    page_mapper (fmt_target fmt) (map_3 fmt ops alloc pb root) inv tr free 2 (frame_fits fmt pb)"
  using mapper [of "map_3 fmt ops alloc pb root"] by (simp add: map_3_eq root_window numeral_2_eq_2)

end

end
