(* ===== verification/Page_Lookup.thy ===== *)
theory Page_Lookup
  imports Page_Mapping
begin

text \<open>
  Looking up and removing mappings, and new page tables.  \<open>translate\<close> agrees with the walk of the
  processor, and \<open>unmap\<close> removes exactly the mapping of one page, as long as no page that is too large
  for them covers the address: they follow the entry of such a page as if it led to a table.
\<close>

text \<open>A larger page, mapped by an entry of level \<open>l\<close>, covers an address.\<close>

definition covered :: "paging_format \<Rightarrow> vaddr \<Rightarrow> paddr \<Rightarrow> mem \<Rightarrow> nat \<Rightarrow> vaddr \<Rightarrow> bool" where
  "covered fmt pb root m l va \<longleftrightarrow>
     (\<exists>f. walk fmt pb m root (path (fmt_levels fmt) (Suc l) va) = Some f \<and>
        entry_addr fmt (m (pb + f) (idx l va)) \<noteq> None \<and> fmt_is_leaf fmt (m (pb + f) (idx l va)))"

context page_tables
begin

abbreviation large :: "'a paging \<Rightarrow> nat \<Rightarrow> vaddr \<Rightarrow> bool" where
  "large st l va \<equiv> covered fmt pb root (memory st) l va"

lemma next_wp:
  assumes inv: "inv st" and f: "at st (path levels (Suc l) va) = Some f" and l: "0 < l" "l < levels" and nl: "\<not> large st l va"
    and none: "tr st va = None \<Longrightarrow> Q (Inr None) st"
    and some: "\<And>p. at st (path levels l va) = Some p \<Longrightarrow> Q (Inr (Some (pb + p))) st"
  shows "wp b (next_table fmt (pb + f) (index_word l va) pb) Q st"
proof -
  note I = invD [OF inv]
  let ?e = "memory st (pb + f) (idx l va)"
  have len: "length (path levels (Suc l) va) < levels" using l by simp
  have slot: "slot_ok fmt pb l ?e" using tree_okD(4) [OF I(2) f len, of "idx l va"] l by simp
  show ?thesis
  proof (cases "entry_addr fmt ?e")
    case None
    then have "tr st va = None" using mmu_unused [OF f path_step [OF l(2)] l(2)] by simp
    then show ?thesis using None none by (simp add: wp_next_table idx_less)
  next
    case (Some p)
    then have "\<not> fmt_is_leaf fmt ?e" using nl f by (auto simp: covered_def)
    then have "at st (path levels l va) = Some p" using Some f l by (simp add: path_step walk_snoc child_def)
    moreover have "window fmt pb p" using slot Some l by (simp add: slot_ok_def)
    ultimately show ?thesis using Some some by (simp add: wp_next_table idx_less)
  qed
qed

lemma leaf_addr:
  assumes inv: "inv st" and f: "at st (path levels (Suc l) va) = Some f" and l: "l < levels"
    and e: "entry_addr fmt (memory st (pb + f) (idx l va)) = Some p" and ends: "fmt_ends fmt l (memory st (pb + f) (idx l va))"
  shows "tr st va = Some (p + take_bit (12 + 9 * l) va)"
    and "paddr_add (fmt_target fmt) p (take_bit (12 + 9 * l) va) = Inr (p + take_bit (12 + 9 * l) va)"
    and "l < 3" "2 ^ (12 + 9 * l) dvd unat p"
proof -
  note I = invD [OF inv]
  have len: "length (path levels (Suc l) va) < levels" using l by simp
  have slot: "slot_ok fmt pb l (memory st (pb + f) (idx l va))" using tree_okD(4) [OF I(2) f len, of "idx l va"] l by simp
  show l3: "l < 3" and al: "2 ^ (12 + 9 * l) dvd unat p" using slot e ends by (simp_all add: slot_ok_def)
  show "tr st va = Some (p + take_bit (12 + 9 * l) va)"
    using mmu_entry(1) [OF f path_step [OF l] l] e ends by simp
  have "unat (take_bit (12 + 9 * l) va) < 2 ^ (12 + 9 * l)" by (simp only: unsigned_take_bit_eq take_bit_nat_less_exp)
  then show "paddr_add (fmt_target fmt) p (take_bit (12 + 9 * l) va) = Inr (p + take_bit (12 + 9 * l) va)"
    using addr_room [OF e al, of "take_bit (12 + 9 * l) va"] l3 by (simp add: paddr_add_def uadd_def)
qed

lemma urem_SIZE: "urem va (SIZE s) = Inr (take_bit (12 + 9 * lev s) va)"
  by (cases s) (simp_all add: urem_def lev_def take_bit_eq_mod)

lemma translate_p2_wp:
  assumes ops: "usize_bits ops" and inv: "inv st" and f: "at st (path levels 2 va) = Some f" and l: "3 \<le> levels"
    and Q: "Q (Inr (tr st va)) st"
  shows "wp b (translate_p2 fmt ops pb (pb + f) va) Q st"
proof -
  note I = invD [OF inv]
  let ?e = "memory st (pb + f) (idx 1 va)"
  have f': "at st (path levels (Suc 1) va) = Some f" using f by (simp add: numeral_2_eq_2)
  have len: "length (path levels (Suc 1) va) < levels" and l1: "1 < levels" "0 < levels" using l by simp_all
  have slot: "slot_ok fmt pb 1 ?e" using tree_okD(4) [OF I(2) f' len, of "idx 1 va"] l by simp
  show ?thesis
  proof (cases "fmt_is_leaf fmt ?e")
    case True
    show ?thesis
    proof (cases "entry_addr fmt ?e")
      case None
      then have "tr st va = None" using mmu_unused [OF f' path_step [OF l1(1)] l1(1)] by simp
      then show ?thesis using Q True None
        by (simp add: translate_p2_def index_words [OF ops] sbind_simps wp_simps wp_table_index idx_less
            wp_lift address_eq del: One_nat_def)
    next
      case (Some p)
      have ends: "fmt_ends fmt 1 ?e" using True ends_leaf [of 0] by simp
      note la = leaf_addr [OF inv f' l1(1) Some ends]
      show ?thesis using Q True Some la(1,2)
        by (simp add: translate_p2_def index_words [OF ops] sbind_simps wp_simps wp_table_index idx_less
            wp_lift address_eq urem_SIZE lev_def del: One_nat_def SIZE.simps)
    qed
  next
    case False
    then have nl: "\<not> large st 1 va" using f' by (auto simp: covered_def)
    let ?F = "\<lambda>p1. case p1 of None \<Rightarrow> sreturn None | Some p1 \<Rightarrow> sbind (slift (p1_index ops va)) (\<lambda>i1.
          sbind (table_index p1 i1) (\<lambda>e. sbind (slift (fmt_address fmt e)) (\<lambda>a. case a of None \<Rightarrow> sreturn None | Some a \<Rightarrow>
          sbind (slift (rbind (urem va (SIZE Size4KiB)) (paddr_add (fmt_target fmt) a))) (\<lambda>p. sreturn (Some p)))))"
    have "wp b (next_table fmt (pb + f) (index_word 1 va) pb) (onward b ?F Q) st"
    proof (rule next_wp [OF inv f' _ l1(1) nl], goal_cases)
      case 2
      then show ?case using Q by (simp add: wp_simps)
    next
      case (3 p)
      then have p: "at st (path levels (Suc 0) va) = Some p" by simp
      let ?e = "memory st (pb + p) (idx 0 va)"
      have slot: "slot_ok fmt pb 0 ?e" using tree_okD(4) [OF I(2) p, of "idx 0 va"] l by simp
      show ?case
      proof (cases "entry_addr fmt ?e")
        case None
        then have "tr st va = None" using mmu_unused [OF p path_step [OF l1(2)] l1(2)] by simp
        then show ?thesis using Q None
          by (simp add: index_words [OF ops] sbind_simps wp_simps wp_table_index idx_less wp_lift address_eq)
      next
        case (Some a)
        have "fmt_ends fmt 0 ?e" using slot Some by (simp add: slot_ok_def)
        note la = leaf_addr [OF inv p l1(2) Some this]
        show ?thesis using Q Some la(1,2)
          by (simp add: index_words [OF ops] sbind_simps wp_simps wp_table_index idx_less wp_lift address_eq
              urem_SIZE lev_def del: SIZE.simps)
      qed
    qed simp
    then show ?thesis
      using False by (simp add: translate_p2_def index_words(3) [OF ops] sbind_simps wp_simps wp_table_index idx_less del: One_nat_def SIZE.simps)
  qed
qed

lemma translate_4_wp:
  assumes ops: "usize_bits ops" and inv: "inv st" and l: "levels = 4" and nl: "\<not> large st 2 va" and Q: "Q (Inr (tr st va)) st"
  shows "wp b (translate_4 fmt ops pb root va) Q st"
proof -
  have f0: "at st (path levels (Suc 3) va) = Some root" and p3: "0 < (3::nat)" "3 < levels" "0 < (2::nat)" "2 < levels"
    using l by simp_all
  have n3: "\<not> large st 3 va"
  proof
    assume "large st 3 va"
    then obtain a where "entry_addr fmt (memory st (pb + root) (idx 3 va)) = Some a" "fmt_is_leaf fmt (memory st (pb + root) (idx 3 va))"
      using l by (auto simp: covered_def)
    then show False using leaf_addr(3) [OF inv f0 p3(2)] ends_leaf [of 2] by simp
  qed
  show ?thesis
    unfolding translate_4_def root_window [OF inv less_trans [OF p3(1,2)]] index_words [OF ops] sbind_simps wp_bind
  proof (rule next_wp [OF inv f0 p3(1,2) n3], goal_cases)
    case 1
    then show ?case using Q by (simp add: wp_simps)
  next
    case (2 f)
    then have f: "at st (path levels (Suc 2) va) = Some f" by simp
    show ?case
      unfolding post_simps option.simps sbind_simps wp_bind
    proof (rule next_wp [OF inv f p3(3,4) nl], goal_cases)
      case 1
      then show ?case using Q by (simp add: wp_simps)
    next
      case (2 g)
      then show ?case using translate_p2_wp [where Q = Q, OF ops inv 2 _ Q] l by simp
    qed
  qed
qed

lemma translate_3_wp:
  assumes ops: "usize_bits ops" and inv: "inv st" and l: "levels = 3" and nl: "\<not> large st 2 va" and Q: "Q (Inr (tr st va)) st"
  shows "wp b (translate_3 fmt ops pb root va) Q st"
proof -
  have f0: "at st (path levels (Suc 2) va) = Some root" and p2: "0 < (2::nat)" "2 < levels" "0 < levels"
    using l by simp_all
  show ?thesis
    unfolding translate_3_def root_window [OF inv p2(3)] index_words [OF ops] sbind_simps wp_bind
  proof (rule next_wp [OF inv f0 p2(1,2) nl], goal_cases)
    case 1
    then show ?case using Q by (simp add: wp_simps)
  next
    case (2 g)
    then show ?case using translate_p2_wp [where Q = Q, OF ops inv 2 _ Q] l by simp
  qed
qed

lemma unmap_p2_wp:
  assumes ops: "usize_bits ops" and inv: "inv st" and f: "at st (path levels 2 page) = Some f" and l: "3 \<le> levels"
    and nl: "\<not> large st 1 page" and page: "take_bit 12 page = 0"
    and none: "tr st page = None \<Longrightarrow> Q (Inr None) st"
    and some: "\<And>p st'. tr st page = Some p \<Longrightarrow> inv st' \<Longrightarrow> frames st' = frames st \<Longrightarrow>
      (\<And>va. tr st' va = (if path levels 0 va = path levels 0 page then None else tr st va)) \<Longrightarrow> Q (Inr (Some p)) st'"
  shows "wp b (unmap_p2 fmt ops pb (pb + f) page) Q st"
proof -
  note I = invD [OF inv]
  have f': "at st (path levels (Suc 1) page) = Some f" using f by (simp add: numeral_2_eq_2)
  have l1: "0 < (1::nat)" "1 < levels" "0 < levels" using l by simp_all
  show ?thesis
    unfolding unmap_p2_def index_words [OF ops] sbind_simps wp_bind
  proof (rule next_wp [OF inv f' l1(1,2) nl], goal_cases)
    case 1
    then show ?case using none by (simp add: wp_simps)
  next
    case (2 g)
    then have g: "at st (path levels (Suc 0) page) = Some g" by simp
    let ?e = "memory st (pb + g) (idx 0 page)"
    have len: "length (path levels (Suc 0) page) < levels" using l by simp
    have slot: "slot_ok fmt pb 0 ?e" using tree_okD(4) [OF I(2) g len, of "idx 0 page"] l by simp
    show ?case
    proof (cases "entry_addr fmt ?e")
      case None
      then have "tr st page = None" using mmu_unused [OF g path_step [OF l1(3)] l1(3)] by simp
      then show ?thesis using none None
        by (simp add: sbind_simps wp_simps wp_table_index idx_less wp_lift address_eq)
    next
      case (Some a)
      have "fmt_ends fmt 0 ?e" using slot Some by (simp add: slot_ok_def)
      note la = leaf_addr [OF inv g l1(3) Some this]
      have a: "tr st page = Some a" "4096 dvd unat a" using la(1,4) page by simp_all
      let ?st = "st\<lparr>memory := put pb g (idx 0 page) 0 (memory st)\<rparr>"
      note c = put_clear [OF I(2) g _ l1(3), of "idx 0 page"]
      have "inv ?st" using I c(1) by (simp add: pt_inv_def)
      moreover have "tr ?st va = (if path levels 0 va = path levels 0 page then None else tr st va)" for va
        using c(2) [of va] path_step [OF l1(3), of page] by simp
      ultimately have "Q (Inr (Some a)) ?st" using a(1) by (intro some) simp_all
      then show ?thesis using Some a(2)
        by (simp add: sbind_simps wp_simps wp_table_index wp_table_set idx_less wp_lift address_eq frame_starts_with_eq)
    qed
  qed
qed

lemma unmap_4_wp:
  assumes ops: "usize_bits ops" and inv: "inv st" and l: "levels = 4"
    and nl: "\<not> large st 1 page" "\<not> large st 2 page" and page: "take_bit 12 page = 0"
    and none: "tr st page = None \<Longrightarrow> Q (Inr None) st"
    and some: "\<And>p st'. tr st page = Some p \<Longrightarrow> inv st' \<Longrightarrow> frames st' = frames st \<Longrightarrow>
      (\<And>va. tr st' va = (if path levels 0 va = path levels 0 page then None else tr st va)) \<Longrightarrow> Q (Inr (Some p)) st'"
  shows "wp b (unmap_4 fmt ops pb root Size4KiB page) Q st"
proof -
  have f0: "at st (path levels (Suc 3) page) = Some root" and p3: "0 < (3::nat)" "3 < levels" "0 < (2::nat)" "2 < levels" "3 \<le> levels"
    using l by simp_all
  have n3: "\<not> large st 3 page"
  proof
    assume "large st 3 page"
    then obtain a where "entry_addr fmt (memory st (pb + root) (idx 3 page)) = Some a" "fmt_is_leaf fmt (memory st (pb + root) (idx 3 page))"
      using l by (auto simp: covered_def)
    then show False using leaf_addr(3) [OF inv f0 p3(2)] ends_leaf [of 2] by simp
  qed
  show ?thesis
    unfolding unmap_4_def root_window [OF inv less_trans [OF p3(1,2)]] index_words [OF ops] sbind_simps simp_thms if_True wp_bind
  proof (rule next_wp [OF inv f0 p3(1,2) n3], goal_cases)
    case 1
    then show ?case using none by (simp add: wp_simps)
  next
    case (2 f)
    then have f: "at st (path levels (Suc 2) page) = Some f" by simp
    show ?case
      unfolding post_simps option.simps sbind_simps wp_bind
    proof (rule next_wp [OF inv f p3(3,4) nl(2)], goal_cases)
      case 1
      then show ?case using none by (simp add: wp_simps)
    next
      case (2 g)
      show ?case
        unfolding post_simps option.simps
        by (rule unmap_p2_wp [OF ops inv 2 p3(5) nl(1) page]) (rule none some; assumption)+
    qed
  qed
qed

lemma unmap_3_wp:
  assumes ops: "usize_bits ops" and inv: "inv st" and l: "levels = 3"
    and nl: "\<not> large st 1 page" "\<not> large st 2 page" and page: "take_bit 12 page = 0"
    and none: "tr st page = None \<Longrightarrow> Q (Inr None) st"
    and some: "\<And>p st'. tr st page = Some p \<Longrightarrow> inv st' \<Longrightarrow> frames st' = frames st \<Longrightarrow>
      (\<And>va. tr st' va = (if path levels 0 va = path levels 0 page then None else tr st va)) \<Longrightarrow> Q (Inr (Some p)) st'"
  shows "wp b (unmap_3 fmt ops pb root Size4KiB page) Q st"
proof -
  have f0: "at st (path levels (Suc 2) page) = Some root" and p2: "0 < (2::nat)" "2 < levels" "0 < levels" "3 \<le> levels"
    using l by simp_all
  show ?thesis
    unfolding unmap_3_def root_window [OF inv p2(3)] index_words [OF ops] sbind_simps simp_thms if_True wp_bind
  proof (rule next_wp [OF inv f0 p2(1,2) nl(2)], goal_cases)
    case 1
    then show ?case using none by (simp add: wp_simps)
  next
    case (2 g)
    show ?case
      unfolding post_simps option.simps
      by (rule unmap_p2_wp [OF ops inv 2 p2(4) nl(1) page]) (rule none some; assumption)+
  qed
qed

lemma new_ok:
  assumes "ainv (frames st)" and "frames_fit fmt pb (free (frames st))"
    and root: "window fmt pb root" "4096 dvd unat root" "frame_memory root \<inter> free (frames st) = {}" and l: "0 < levels"
  shows "\<exists>st'. page_table_new fmt root pb st = Inr (Inr (), st') \<and> inv st' \<and> frames st' = frames st \<and> tr st' = (\<lambda>_. None)"
proof -
  let ?st = "st\<lparr>memory := (memory st)(pb + root := \<lambda>_. 0)\<rparr>"
  have w: "at ?st q = Some f \<longleftrightarrow> q = [] \<and> f = root" for q f by (cases q) (auto simp: child_def)
  have "tree_ok fmt pb root (free (frames st)) (memory ?st)"
    using root slot_zero unfolding tree_ok_def w by simp
  then have "inv ?st" using assms(1,2) by (simp add: pt_inv_def)
  moreover have "tr ?st va = None" for va using l by (cases levels) simp_all
  moreover have "page_table_new fmt root pb st = Inr (Inr (), ?st)"
    using root(1) by (simp add: page_table_new_def window_def sbind_simps table_zero_def smodify_def)
  ultimately show ?thesis by (simp add: fun_eq_iff)
qed

end

end
