(* ===== verification/Page_Tables_Spec.thy ===== *)
theory Page_Tables_Spec
  imports Area_Mapping Page_Lookup
begin

text \<open>
  The operations of page tables together, for three and for four levels: what \<open>map\<close>, \<open>map_area\<close>,
  \<open>translate\<close> and \<open>unmap\<close> do to the translations, in the form in which the properties of each
  processor state it.
\<close>

context page_tables
begin

lemma room_False: "room False free k st \<longleftrightarrow> 4096 * k \<le> card (free (frames st))"
  by (simp add: room_def)

lemma not_covered:
  assumes "at st (path levels l va) \<noteq> None" and "l \<le> j" and "j < levels"
  shows "\<not> large st j va"
proof -
  have "at st (path levels j va) \<noteq> None"
    using assms
  proof (induction "j - l" arbitrary: j)
    case (Suc d)
    then obtain i where i: "j = Suc i" "l \<le> i" by (cases j) auto
    then have "at st (path levels i va) \<noteq> None" using Suc.hyps(1) [of i] Suc.hyps(2) Suc.prems by simp
    then show ?case using path_step [of i levels va] i Suc.prems by (auto simp: walk_snoc bind_eq_None_conv)
  qed simp
  then show ?thesis using path_step [OF assms(3), of va] by (auto simp: covered_def walk_snoc child_def)
qed

lemma map_total:
  assumes map: "map_page s page frame fl =
      map_at fmt alloc pb (pb + root) (path_words (Suc (lev s)) page) (index_word (lev s) page) (fmt_mapping fmt s frame fl)"
    and inv: "inv st" and l: "3 \<le> levels" and page: "vaddr_valid (fmt_target fmt) page" "unat (SIZE s) dvd unat page"
    and frame: "unat (SIZE s) dvd unat frame" "frame_fits fmt pb frame"
    and enough: "4096 * (levels - 1) \<le> card (free (frames st))"
  shows "\<exists>r st'. map_page s page frame fl st = Inr (r, st') \<and> inv st' \<and> page_result s page frame fl st r st'"
proof -
  have "room False free (levels - 1 + 0) st" using enough by (simp add: room_False)
  from wp_total [OF map_page_wp [OF inv l page frame this]] show ?thesis unfolding map by blast
qed

lemma map_partial:
  assumes map: "map_page s page frame fl =
      map_at fmt alloc pb (pb + root) (path_words (Suc (lev s)) page) (index_word (lev s) page) (fmt_mapping fmt s frame fl)"
    and inv: "inv st" and l: "3 \<le> levels" and page: "vaddr_valid (fmt_target fmt) page" "unat (SIZE s) dvd unat page"
    and frame: "unat (SIZE s) dvd unat frame" "frame_fits fmt pb frame"
    and run: "map_page s page frame fl st = Inr (r, st')"
  shows "inv st'" "page_result s page frame fl st r st'"
proof -
  have "room True free (levels - 1 + 0) st" by (simp add: room_def)
  from wp_partial [OF map_page_wp [OF inv l page frame this]] run
  show "inv st'" "page_result s page frame fl st r st'" unfolding map by blast+
qed

lemma page_offset:
  assumes "vaddr_valid (fmt_target fmt) page" and "4096 dvd unat page"
  shows "take_bit 12 page = 0"
proof -
  have "unat (take_bit 12 page) = unat page mod 2 ^ 12" unfolding unsigned_take_bit_eq by (rule take_bit_eq_mod)
  then show ?thesis using assms(2) by (simp add: word_unat_eq_iff)
qed

text \<open>Unmapping a page that was mapped gives the old translation.\<close>

lemma unmap_result:
  assumes page: "vaddr_valid (fmt_target fmt) page" "4096 dvd unat page" and l: "0 < levels"
    and m: "page_result Size4KiB page frame fl st (Inr ()) st'"
    and u: "\<And>va. tr st'' va = (if path levels 0 va = path levels 0 page then None else tr st' va)"
    and va: "vaddr_valid (fmt_target fmt) va"
  shows "tr st'' va = tr st va"
proof -
  have c: "canon levels va" "canon levels page" using canonical va page(1) by simp_all
  have "2 ^ (12 + 9 * 0) dvd unat page" using page(2) by simp
  note sp = same_page(1) [OF c l this]
  show ?thesis
    using m u [of va] va sp unfolding page_result_def by (auto simp: mapped_def unmapped_def)
qed

lemma map_unmap:
  assumes map: "map_page Size4KiB page frame fl =
      map_at fmt alloc pb (pb + root) (path_words (Suc (lev Size4KiB)) page) (index_word (lev Size4KiB) page) (fmt_mapping fmt Size4KiB frame fl)"
    and inv: "inv st" and l: "3 \<le> levels" and page: "vaddr_valid (fmt_target fmt) page" "4096 dvd unat page"
    and frame: "4096 dvd unat frame" "frame_fits fmt pb frame"
    and run: "map_page Size4KiB page frame fl st = Inr (Inr (), st')"
    and un: "\<And>Q. inv st' \<Longrightarrow> \<not> large st' 1 page \<Longrightarrow> \<not> large st' 2 page \<Longrightarrow> take_bit 12 page = 0 \<Longrightarrow>
      (tr st' page = None \<Longrightarrow> Q (Inr None) st') \<Longrightarrow>
      (\<And>p st2. tr st' page = Some p \<Longrightarrow> inv st2 \<Longrightarrow> frames st2 = frames st' \<Longrightarrow>
        (\<And>va. tr st2 va = (if path levels 0 va = path levels 0 page then None else tr st' va)) \<Longrightarrow> Q (Inr (Some p)) st2) \<Longrightarrow>
      wp False (un_page page) Q st'"
  shows "\<exists>st''. un_page page st' = Inr (Inr (Some frame), st'') \<and> inv st'' \<and>
    (\<forall>va. vaddr_valid (fmt_target fmt) va \<longrightarrow> tr st'' va = tr st va)"
proof -
  have frame': "unat (SIZE Size4KiB) dvd unat page" "unat (SIZE Size4KiB) dvd unat frame" using page frame by simp_all
  note I = map_partial [where map_page = map_page, OF map inv l page(1) frame' frame(2) run]
  have m: "mapped (fmt_target fmt) (tr st) page frame 4096 (tr st')" and "at st' (path levels (Suc 0) page) \<noteq> None"
    using I(2) by (auto simp: page_result_def lev_def)
  then have nl: "\<not> large st' 1 page" "\<not> large st' 2 page" using not_covered [of st' "Suc 0" page] l by simp_all
  have at: "tr st' page = Some frame" using m page(1) by (simp add: mapped_def)
  have "wp False (un_page page) (\<lambda>r st''. r = Inr (Some frame) \<and> inv st'' \<and>
      (\<forall>va. vaddr_valid (fmt_target fmt) va \<longrightarrow> tr st'' va = tr st va)) st'"
  proof (rule un [OF I(1) nl page_offset [OF page]], goal_cases)
    case 1
    then show ?case using at by simp
  next
    case (2 p st2)
    have "tr st2 va = tr st va" if "vaddr_valid (fmt_target fmt) va" for va
      using l by (intro unmap_result [OF page _ I(2) 2(4) that]) simp
    then show ?case using 2(1,2) at by simp
  qed
  then show ?thesis using wp_total by fastforce
qed

text \<open>\<open>translate\<close> takes the frame of a page of 1GiB for a table.\<close>

lemma giant_next:
  assumes inv: "inv st" and f: "at st (path levels (Suc 2) va) = Some f" and l: "2 < levels"
    and e: "entry_addr fmt (memory st (pb + f) (idx 2 va)) = Some p" and z: "memory st (pb + p) = (\<lambda>_. 0)"
    and ops: "usize_bits ops"
  shows "sbind (next_table fmt (pb + f) (index_word 2 va) pb)
      (\<lambda>p2. case p2 of None \<Rightarrow> sreturn None | Some p2 \<Rightarrow> translate_p2 fmt ops pb p2 va) st = Inr (Inr None, st)"
proof -
  note I = invD [OF inv]
  have len: "length (path levels (Suc 2) va) < levels" using l by simp
  have "slot_ok fmt pb 2 (memory st (pb + f) (idx 2 va))" using tree_okD(4) [OF I(2) f len, of "idx 2 va"] l by simp
  then have w: "window fmt pb p" using e by (simp add: slot_ok_def)
  have "wp False (translate_p2 fmt ops pb (pb + p) va) (\<lambda>r st'. r = Inr None \<and> st' = st) st"
    using z unused(3)
    by (simp add: translate_p2_def index_words [OF ops] sbind_simps wp_simps wp_table_index idx_less wp_next_table del: One_nat_def)
  then have "wp False (sbind (next_table fmt (pb + f) (index_word 2 va) pb)
      (\<lambda>p2. case p2 of None \<Rightarrow> sreturn None | Some p2 \<Rightarrow> translate_p2 fmt ops pb p2 va)) (\<lambda>r st'. r = Inr None \<and> st' = st) st"
    using e w by (simp add: wp_simps wp_next_table idx_less)
  then show ?thesis using wp_total by fastforce
qed

lemma giant_entry:
  assumes map: "map_page Size1GiB page frame fl =
      map_at fmt alloc pb (pb + root) (path_words (Suc (lev Size1GiB)) page) (index_word (lev Size1GiB) page) (fmt_mapping fmt Size1GiB frame fl)"
    and inv: "inv st" and l: "3 \<le> levels" and page: "vaddr_valid (fmt_target fmt) page" "2 ^ 30 dvd unat page"
    and frame: "2 ^ 30 dvd unat frame" "frame_fits fmt pb frame"
    and run: "map_page Size1GiB page frame fl st = Inr (Inr (), st')"
    and va: "vaddr_valid (fmt_target fmt) va" "va \<in> vrange page (2 ^ 30)"
  obtains f where "inv st'" "at st' (path levels (Suc 2) va) = Some f"
    "entry_addr fmt (memory st' (pb + f) (idx 2 va)) = Some frame" "tr st' va = Some (frame + (va - page))"
proof -
  have al: "unat (SIZE Size1GiB) dvd unat page" "unat (SIZE Size1GiB) dvd unat frame" using page frame by simp_all
  note I = map_partial [where map_page = map_page, OF map inv l page(1) al frame(2) run]
  obtain f where f: "at st' (path levels (Suc 2) page) = Some f" "memory st' (pb + f) (idx 2 page) = fmt_mapping fmt Size1GiB frame fl"
    and m: "mapped (fmt_target fmt) (tr st) page frame (2 ^ 30) (tr st')"
    using I(2) by (auto simp: page_result_def lev_def)
  have c: "canon levels va" "canon levels page" using canonical va(1) page(1) by simp_all
  have "2 ^ (12 + 9 * 2) dvd unat page" using page(2) by simp
  then have "path levels 2 va = path levels 2 page"
    using same_page(1) [OF c _ \<open>2 ^ (12 + 9 * 2) dvd unat page\<close>] va(2) l by simp
  then have "path levels (Suc 2) va = path levels (Suc 2) page" "idx 2 va = idx 2 page"
    using path_step [of 2 levels va] path_step [of 2 levels page] l by simp_all
  moreover have "entry_addr fmt (fmt_mapping fmt Size1GiB frame fl) = Some frame"
    using mapping [of frame Size1GiB fl] frame(2) by (simp add: frame_fits_def)
  moreover have "tr st' va = Some (frame + (va - page))" using m va by (simp add: mapped_def)
  ultimately show thesis using that [of f] f I(1) by simp
qed

lemma giant_4:
  assumes map: "map_page Size1GiB page frame fl =
      map_at fmt alloc pb (pb + root) (path_words (Suc (lev Size1GiB)) page) (index_word (lev Size1GiB) page) (fmt_mapping fmt Size1GiB frame fl)"
    and inv: "inv st" and l: "levels = 4" and page: "vaddr_valid (fmt_target fmt) page" "2 ^ 30 dvd unat page"
    and frame: "2 ^ 30 dvd unat frame" "frame_fits fmt pb frame"
    and run: "map_page Size1GiB page frame fl st = Inr (Inr (), st')" and z: "memory st' (pb + frame) = (\<lambda>_. 0)"
    and va: "vaddr_valid (fmt_target fmt) va" "va \<in> vrange page (2 ^ 30)" and ops: "usize_bits ops"
  shows "tr st' va = Some (frame + (va - page)) \<and> translate_4 fmt ops pb root va st' = Inr (Inr None, st')"
proof -
  have l3: "3 \<le> levels" "2 < levels" "3 < levels" "0 < levels" using l by simp_all
  obtain f where f: "inv st'" "at st' (path levels (Suc 2) va) = Some f"
    "entry_addr fmt (memory st' (pb + f) (idx 2 va)) = Some frame" "tr st' va = Some (frame + (va - page))"
    by (rule giant_entry [where map_page = map_page, OF map inv l3(1) page frame run va])
  have f0: "at st' (path levels (Suc 3) va) = Some root" using l by simp
  have n3: "\<not> large st' 3 va" using not_covered [of st' 3 va 3] f(2) l by simp
  note g = giant_next [OF f(1,2) l3(2) f(3) z ops]
  have "wp False (translate_4 fmt ops pb root va) (\<lambda>r s. r = Inr None \<and> s = st') st'"
    unfolding translate_4_def root_window [OF f(1) l3(4)] index_words [OF ops] sbind_simps wp_bind [of False "next_table fmt (pb + root) _ _"]
  proof (rule next_wp [OF f(1) f0 _ l3(3) n3], goal_cases)
    case (3 p)
    then have "p = f" using f(2) by simp
    then show ?case using g by (simp add: wp_def)
  qed (simp_all add: wp_simps)
  then show ?thesis using wp_total f(4) by fastforce
qed

lemma giant_3:
  assumes map: "map_page Size1GiB page frame fl =
      map_at fmt alloc pb (pb + root) (path_words (Suc (lev Size1GiB)) page) (index_word (lev Size1GiB) page) (fmt_mapping fmt Size1GiB frame fl)"
    and inv: "inv st" and l: "levels = 3" and page: "vaddr_valid (fmt_target fmt) page" "2 ^ 30 dvd unat page"
    and frame: "2 ^ 30 dvd unat frame" "frame_fits fmt pb frame"
    and run: "map_page Size1GiB page frame fl st = Inr (Inr (), st')" and z: "memory st' (pb + frame) = (\<lambda>_. 0)"
    and va: "vaddr_valid (fmt_target fmt) va" "va \<in> vrange page (2 ^ 30)" and ops: "usize_bits ops"
  shows "tr st' va = Some (frame + (va - page)) \<and> translate_3 fmt ops pb root va st' = Inr (Inr None, st')"
proof -
  have l3: "3 \<le> levels" "2 < levels" "0 < levels" using l by simp_all
  obtain f where f: "inv st'" "at st' (path levels (Suc 2) va) = Some f"
    "entry_addr fmt (memory st' (pb + f) (idx 2 va)) = Some frame" "tr st' va = Some (frame + (va - page))"
    by (rule giant_entry [where map_page = map_page, OF map inv l3(1) page frame run va])
  have "f = root" using f(2) l by simp
  then show ?thesis
    using giant_next [OF f(1,2) l3(2) f(3) z ops] f(4)
    by (simp add: translate_3_def root_window [OF f(1) l3(3)] index_words [OF ops] sbind_simps)
qed

end

end
