(* ===== verification/Blank_Tables.thy ===== *)
theory Blank_Tables
  imports Page_Tables_Spec Kernel_Pmm
begin

text \<open>
  Page tables with no mapping: physical memory is all zero and mapped from address 0, the physical memory
  manager has 16MiB of frames, and the top level table is above them.  For every format of entries whose
  frames fit, the tables are well formed and every page can be mapped in them.
\<close>

definition blank_paging :: "pmm paging" where
  "blank_paging = \<lparr>memory = (\<lambda>_ _. 0), frames = \<lparr>buddy = one_block\<rparr>\<rparr>"

abbreviation blank_root :: paddr where
  "blank_root \<equiv> 0x1000000"

lemma blank_fields: "memory blank_paging = (\<lambda>_ _. 0)" "pmm_memory (frames blank_paging) = {0 ..< 2 ^ 24}"
  by (simp_all add: blank_paging_def one_block_pmm_memory)

locale blank_tables = entry_format fmt for fmt +
  assumes low_fits: "4096 dvd unat f \<Longrightarrow> unat f < 2 ^ 38 \<Longrightarrow> frame_fits fmt 0 f"
    and levels: "3 \<le> fmt_levels fmt" "fmt_levels fmt \<le> 4"
begin

sublocale pt: page_tables fmt "pmm_inv (fmt_target fmt)" pmm_memory "pmm_allocate (fmt_target fmt) Size4KiB"
  "paddr_valid (fmt_target fmt)" 0 blank_root
  by (intro page_tables.intro entry_format_axioms pmm.frame_source_axioms)

lemma blank_walk: "pt.at blank_paging q = Some g \<Longrightarrow> q = [] \<and> g = blank_root"
  by (cases q) (simp_all add: blank_paging_def child_def unused(3))

lemma blank_inv: "pt.inv blank_paging" and blank_none: "pt.tr blank_paging = (\<lambda>_. None)"
proof -
  have fit: "frame_fits fmt 0 f" if "4096 dvd unat f" "frame_memory f \<subseteq> {0 ..< 2 ^ 24}" for f
  proof -
    have "unat f \<in> frame_memory f" by simp
    then have "unat f < 2 ^ 24" using that(2) by auto
    then show ?thesis using that(1) by (intro low_fits) simp_all
  qed
  have w: "window fmt 0 blank_root" using low_fits [of blank_root] by (simp add: frame_fits_def)
  have ok: "pmm_inv (fmt_target fmt) (frames blank_paging)" by (simp add: blank_paging_def one_block_pmm)
  have ff: "frames_fit fmt 0 (pmm_memory (frames blank_paging))"
    using fit unfolding frames_fit_def blank_fields by (auto simp: frame_fits_def)
  have "\<exists>st'. page_table_new fmt blank_root 0 blank_paging = Inr (Inr (), st') \<and> pt.inv st' \<and>
      frames st' = frames blank_paging \<and> pt.tr st' = (\<lambda>_. None)"
    using levels by (intro pt.new_ok [OF ok ff w]) (auto simp: blank_fields)
  moreover have "page_table_new fmt blank_root 0 blank_paging = Inr (Inr (), blank_paging)"
    using w by (simp add: page_table_new_def window_def sbind_simps table_zero_def smodify_def blank_paging_def fun_eq_iff)
  ultimately show "pt.inv blank_paging" "pt.tr blank_paging = (\<lambda>_. None)" by auto
qed

lemma blank_uncovered: "\<not> covered fmt 0 blank_root (memory blank_paging) l va"
  by (auto simp: covered_def blank_paging_def)

lemma blank_write: "4096 dvd unat f \<Longrightarrow> 0x1000000 < unat f \<Longrightarrow> f \<notin> pt.own blank_paging"
proof -
  assume f: "4096 dvd unat f" "0x1000000 < unat f"
  have "unat f \<in> frame_memory f" by simp
  then have "\<not> frame_memory f \<subseteq> pmm_memory (frames blank_paging)" using f by (auto simp: blank_fields)
  moreover have "f \<noteq> blank_root" using f(2) by auto
  ultimately show ?thesis using blank_walk unfolding may_write_def by force
qed

lemma blank_mapped:
  assumes map: "map_page s page frame fl = map_at fmt (pmm_allocate (fmt_target fmt) Size4KiB) 0 (0 + blank_root)
      (pt.path_words (Suc (lev s)) page) (index_word (lev s) page) (fmt_mapping fmt s frame fl)"
    and page: "vaddr_valid (fmt_target fmt) page" "unat (SIZE s) dvd unat page"
    and frame: "unat (SIZE s) dvd unat frame" "unat frame < 2 ^ 38"
  obtains st' where "map_page s page frame fl blank_paging = Inr (Inr (), st')"
    and "\<And>v. 4096 dvd unat v \<Longrightarrow> 0x1000000 < unat v \<Longrightarrow> memory st' v = (\<lambda>_. 0)"
proof -
  have "4096 dvd unat (SIZE s)" by (cases s) simp_all
  then have fit: "frame_fits fmt 0 frame" using frame dvd_trans by (intro low_fits) blast+
  have n: "4096 * (fmt_levels fmt - 1) \<le> card (pmm_memory (frames blank_paging))" using levels by (simp add: blank_fields)
  obtain r st' where r: "map_page s page frame fl blank_paging = Inr (r, st')" "pt.page_result s page frame fl blank_paging r st'"
    using pt.map_total [where map_page = map_page, OF map blank_inv levels(1) page frame(1) fit n] by blast
  have "path (fmt_levels fmt) (lev s) page \<noteq> []" using lev_less [of s] levels by (simp add: path_def)
  then have "r = Inr ()"
    using r(2) fun_cong [OF blank_none, of page] blank_walk [of "path (fmt_levels fmt) (lev s) page"]
    by (cases r) (auto simp: pt.page_result_def)
  moreover have "memory st' v = (\<lambda>_. 0)" if "4096 dvd unat v" "0x1000000 < unat v" for v
    using blank_write [OF that] r(2) by (simp add: pt.page_result_def blank_fields)
  ultimately show thesis using that r(1) by blast
qed

end

end
