(* ===== verification/Bit_Flags.thy ===== *)
theory Bit_Flags
  imports Mulch_Bitmap
begin

text \<open>
  Sets of flags declared with the macro of the crate \<open>bitflags\<close>, which is not part of the
  repository: its operations are parameters, and the locale states what the crate documents about them.
  A set of flags is the word of its bits.
\<close>

lemma flag_bit: "n < 64 \<Longrightarrow> bit (push_bit n 1 :: u64) k \<longleftrightarrow> k = n"
  by (auto simp: bit_simps)

text \<open>Physical addresses of frames and their bits.\<close>

lemma paddr_room:
  assumes "p < 2 ^ B" and "2 ^ k dvd p" and "k \<le> B" and "x < 2 ^ k"
  shows "p + x < (2::nat) ^ B"
proof -
  obtain q where q: "p = 2 ^ k * q" using assms(2) by (elim dvdE)
  have B: "(2::nat) ^ B = 2 ^ k * 2 ^ (B - k)" using assms(3) by (simp flip: power_add)
  have "q < 2 ^ (B - k)" using assms(1) unfolding q B by simp
  then have "2 ^ k * Suc q \<le> 2 ^ B" unfolding B by (intro mult_le_mono) simp_all
  then show ?thesis using assms(4) unfolding q by simp
qed

lemma frame_bits:
  assumes "4096 dvd unat f" and "unat f < 2 ^ B" and "bit (f :: u64) k"
  shows "12 \<le> k \<and> k < B"
proof -
  have "unat (take_bit 12 f) = unat f mod 2 ^ 12" unfolding unsigned_take_bit_eq by (rule take_bit_eq_mod)
  then have lo: "take_bit 12 f = 0" using assms(1) by (simp add: word_unat_eq_iff)
  have hi: "take_bit B f = f" using assms(2) by (rule take_bit_unat_small)
  show ?thesis
    using arg_cong [OF lo, of "\<lambda>w. bit w k"] arg_cong [OF hi, of "\<lambda>w. bit w k"] assms(3) by (auto simp: bit_take_bit_iff)
qed

record flag_ops =
  fl_contains :: "u64 \<Rightarrow> u64 \<Rightarrow> bool"
  fl_intersects :: "u64 \<Rightarrow> u64 \<Rightarrow> bool"
  fl_truncate :: "u64 \<Rightarrow> u64 \<Rightarrow> u64"    \<comment> \<open>\<open>from_bits_truncate\<close>, with all the flags of the type first\<close>
  fl_union :: "u64 \<Rightarrow> u64 \<Rightarrow> u64"       \<comment> \<open>the operator \<open>|\<close>\<close>

locale bitflags =
  fixes ops :: flag_ops
  assumes contains_law: "fl_contains ops a b \<longleftrightarrow> a AND b = b"
    and intersects_law: "fl_intersects ops a b \<longleftrightarrow> a AND b \<noteq> 0"
    and truncate_law: "fl_truncate ops a b = b AND a"
    and union_law: "fl_union ops a b = a OR b"
begin

lemma contains_flag:
  assumes "bit all_flags n"
  shows "fl_contains ops (fl_truncate ops all_flags e) (push_bit n 1) \<longleftrightarrow> bit e n"
proof -
  have n: "n < 64" using assms bit_imp_le_length by fastforce
  have "e AND (all_flags AND push_bit n 1) = push_bit n 1 \<longleftrightarrow> bit e n"
    unfolding word_eq_bits bit_and_iff flag_bit [OF n] using assms by blast
  then show ?thesis by (simp add: contains_law truncate_law and.assoc)
qed

end

text \<open>Operations that satisfy the laws.\<close>

definition word_flag_ops :: flag_ops where
  "word_flag_ops = \<lparr>fl_contains = (\<lambda>a b. a AND b = b), fl_intersects = (\<lambda>a b. a AND b \<noteq> 0),
     fl_truncate = (\<lambda>a b. b AND a), fl_union = (\<lambda>a b. a OR b)\<rparr>"

interpretation word_flags: bitflags word_flag_ops
  by unfold_locales (simp_all add: word_flag_ops_def)

end
