(* ===== verification/Hal_X86_64.thy ===== *)
theory Hal_X86_64
  imports Blank_Tables Bit_Flags
begin

text \<open>
  \<open>lib/hal_x86_64/src/paging.rs\<close>: the page tables of x86_64.  The format of an entry is given here and
  the operations are those of \<open>Hal_Page_Tables\<close> for this format and four levels.  Proved are the
  correctness of mapping, of unmapping and of translation against the walk of the processor, with any
  source of frames that keeps its contract, among them the physical memory manager and the early
  allocator.
\<close>

subsection \<open>Entries\<close>

definition x86_PRESENT :: u64 where "x86_PRESENT = push_bit 0 1"
definition x86_WRITABLE :: u64 where "x86_WRITABLE = push_bit 1 1"
definition x86_USER_ACCESSIBLE :: u64 where "x86_USER_ACCESSIBLE = push_bit 2 1"
definition x86_WRITE_THROUGH :: u64 where "x86_WRITE_THROUGH = push_bit 3 1"
definition x86_NO_CACHE :: u64 where "x86_NO_CACHE = push_bit 4 1"
definition x86_ACCESSED :: u64 where "x86_ACCESSED = push_bit 5 1"
definition x86_DIRTY :: u64 where "x86_DIRTY = push_bit 6 1"
definition x86_HUGE_PAGE :: u64 where "x86_HUGE_PAGE = push_bit 7 1"
definition x86_GLOBAL :: u64 where "x86_GLOBAL = push_bit 8 1"
definition x86_NO_EXECUTE :: u64 where "x86_NO_EXECUTE = push_bit 63 1"

definition x86_NON_TERMINAL_FLAGS :: u64 where
  "x86_NON_TERMINAL_FLAGS = x86_PRESENT OR x86_WRITABLE OR x86_USER_ACCESSIBLE"

text \<open>All the flags of the type, which \<open>from_bits_truncate\<close> keeps.\<close>

definition x86_all_flags :: u64 where
  "x86_all_flags = x86_PRESENT OR x86_WRITABLE OR x86_USER_ACCESSIBLE OR x86_WRITE_THROUGH OR x86_NO_CACHE OR
     x86_ACCESSED OR x86_DIRTY OR x86_HUGE_PAGE OR x86_GLOBAL OR x86_NO_EXECUTE"

definition x86_flags_from :: "flag_ops \<Rightarrow> flags \<Rightarrow> u64" where
  "x86_flags_from fo fl =
     fl_union fo (fl_union fo (fl_union fo (fl_union fo x86_PRESENT
       (if writable fl then x86_WRITABLE else 0))
       (if executable fl then 0 else x86_NO_EXECUTE))
       (if user_accessible fl then x86_USER_ACCESSIBLE else 0))
       (if cached fl then 0 else x86_NO_CACHE)"

definition x86_is_unused :: "u64 \<Rightarrow> bool" where
  "x86_is_unused e \<longleftrightarrow> e = 0"

definition x86_entry_flags :: "flag_ops \<Rightarrow> u64 \<Rightarrow> u64" where
  "x86_entry_flags fo e = fl_truncate fo x86_all_flags e"

definition x86_is_present :: "flag_ops \<Rightarrow> u64 \<Rightarrow> bool" where
  "x86_is_present fo e = fl_contains fo (x86_entry_flags fo e) x86_PRESENT"

definition x86_ADDRESS_MASK :: u64 where
  "x86_ADDRESS_MASK = 0x000ffffffffff000"

definition x86_entry_address :: "flag_ops \<Rightarrow> u64 \<Rightarrow> panic + paddr option" where
  "x86_entry_address fo e =
     (if x86_is_present fo e
      then rbind (runwrap (paddr_new X86_64 (e AND x86_ADDRESS_MASK))) (\<lambda>a. Inr (Some a))
      else Inr None)"

definition x86_entry_set :: "flag_ops \<Rightarrow> (paddr \<times> u64) option \<Rightarrow> u64" where
  "x86_entry_set fo entry =
     (case entry of Some (address, flags) \<Rightarrow> address OR fl_union fo flags x86_PRESENT | None \<Rightarrow> 0)"

subsection \<open>Page tables\<close>

definition x86_format :: "flag_ops \<Rightarrow> paging_format" where
  "x86_format fo =
     \<lparr>fmt_target = X86_64, fmt_levels = 4,
      fmt_address = x86_entry_address fo,
      fmt_is_leaf = (\<lambda>e. fl_contains fo (x86_entry_flags fo e) x86_HUGE_PAGE),
      fmt_in_use = (\<lambda>e. \<not> x86_is_unused e),
      fmt_table = (\<lambda>f. x86_entry_set fo (Some (f, x86_NON_TERMINAL_FLAGS))),
      fmt_mapping = (\<lambda>s frame fl. x86_entry_set fo (Some (frame,
        if s = Size4KiB then x86_flags_from fo fl else fl_union fo (x86_flags_from fo fl) x86_HUGE_PAGE))),
      fmt_ends = (\<lambda>l e. l = 0 \<or> fl_contains fo (x86_entry_flags fo e) x86_HUGE_PAGE)\<rparr>"

definition x86_new :: "flag_ops \<Rightarrow> paddr \<Rightarrow> vaddr \<Rightarrow> ('a, unit) paging_op" where
  "x86_new fo = page_table_new (x86_format fo)"

definition x86_translate :: "flag_ops \<Rightarrow> bit_field_ops \<Rightarrow> vaddr \<Rightarrow> paddr \<Rightarrow> vaddr \<Rightarrow> ('a, paddr option) paging_op" where
  "x86_translate fo = translate_4 (x86_format fo)"

definition x86_map :: "flag_ops \<Rightarrow> bit_field_ops \<Rightarrow> 'a frame_alloc \<Rightarrow> vaddr \<Rightarrow> paddr \<Rightarrow> 'a map_page" where
  "x86_map fo = map_4 (x86_format fo)"

definition x86_map_area ::
  "flag_ops \<Rightarrow> bit_field_ops \<Rightarrow> 'a frame_alloc \<Rightarrow> vaddr \<Rightarrow> paddr \<Rightarrow> vaddr \<Rightarrow> paddr \<Rightarrow> usize \<Rightarrow> flags \<Rightarrow> 'a paging \<Rightarrow>
     (panic + ((paging_error + unit) \<times> 'a paging)) option" where
  "x86_map_area fo ops alloc pb p4_frame = pt_map_area X86_64 (x86_map fo ops alloc pb p4_frame)"

definition x86_unmap ::
  "flag_ops \<Rightarrow> bit_field_ops \<Rightarrow> vaddr \<Rightarrow> paddr \<Rightarrow> frame_size \<Rightarrow> vaddr \<Rightarrow> ('a, paddr option) paging_op" where
  "x86_unmap fo = unmap_4 (x86_format fo)"

subsection \<open>The format\<close>

named_theorems x86_bits \<open>bits of the flags of an entry\<close>

lemma x86_flag_bits [x86_bits]:
  "bit x86_PRESENT k \<longleftrightarrow> k = 0" "bit x86_WRITABLE k \<longleftrightarrow> k = 1" "bit x86_USER_ACCESSIBLE k \<longleftrightarrow> k = 2"
  "bit x86_WRITE_THROUGH k \<longleftrightarrow> k = 3" "bit x86_NO_CACHE k \<longleftrightarrow> k = 4" "bit x86_ACCESSED k \<longleftrightarrow> k = 5"
  "bit x86_DIRTY k \<longleftrightarrow> k = 6" "bit x86_HUGE_PAGE k \<longleftrightarrow> k = 7" "bit x86_GLOBAL k \<longleftrightarrow> k = 8" "bit x86_NO_EXECUTE k \<longleftrightarrow> k = 63"
  unfolding x86_PRESENT_def x86_WRITABLE_def x86_USER_ACCESSIBLE_def x86_WRITE_THROUGH_def x86_NO_CACHE_def
    x86_ACCESSED_def x86_DIRTY_def x86_HUGE_PAGE_def x86_GLOBAL_def x86_NO_EXECUTE_def
  by (subst flag_bit; simp)+

lemma x86_mask_bits [x86_bits]: "bit x86_ADDRESS_MASK k \<longleftrightarrow> 12 \<le> k \<and> k < 52"
proof -
  have "x86_ADDRESS_MASK = push_bit 12 (mask 40)" by (simp add: x86_ADDRESS_MASK_def push_bit_eq_mult mask_eq_exp_minus_1)
  then have "bit x86_ADDRESS_MASK k = bit (push_bit 12 (mask 40) :: u64) k" by (rule arg_cong)
  also have "\<dots> \<longleftrightarrow> 12 \<le> k \<and> k < 52" unfolding bit_push_bit_iff bit_mask_iff by auto
  finally show ?thesis .
qed

context bitflags
begin

lemma x86_present: "x86_is_present ops e \<longleftrightarrow> bit e 0"
  unfolding x86_is_present_def x86_entry_flags_def x86_PRESENT_def
  by (rule contains_flag) (simp add: x86_all_flags_def bit_or_iff x86_bits)

lemma x86_huge: "fl_contains ops (x86_entry_flags ops e) x86_HUGE_PAGE \<longleftrightarrow> bit e 7"
  unfolding x86_entry_flags_def x86_HUGE_PAGE_def
  by (rule contains_flag) (simp add: x86_all_flags_def bit_or_iff x86_bits)

lemma x86_masked: "unat (e AND x86_ADDRESS_MASK) < 2 ^ 52"
proof -
  have "e AND x86_ADDRESS_MASK = take_bit 52 (e AND x86_ADDRESS_MASK)"
    by (rule bit_word_eqI) (auto simp: bit_simps x86_bits)
  then have "unat (e AND x86_ADDRESS_MASK) = take_bit 52 (unat (e AND x86_ADDRESS_MASK))" by (metis unsigned_take_bit_eq)
  then show ?thesis by (metis take_bit_nat_less_exp)
qed

lemma x86_address: "x86_entry_address ops e = Inr (if bit e 0 then Some (e AND x86_ADDRESS_MASK) else None)"
proof -
  have "paddr_valid X86_64 (e AND x86_ADDRESS_MASK)" using x86_masked by (simp add: paddr_valid_iff)
  then show ?thesis by (simp add: x86_entry_address_def x86_present)
qed

lemma x86_entry_addr: "entry_addr (x86_format ops) e = (if bit e 0 then Some (e AND x86_ADDRESS_MASK) else None)"
  by (simp add: entry_addr_def x86_format_def x86_address)

lemma x86_format_checks:
  "fmt_in_use (x86_format ops) e \<longleftrightarrow> e \<noteq> 0" "fmt_is_leaf (x86_format ops) e \<longleftrightarrow> bit e 7"
  "fmt_ends (x86_format ops) l e \<longleftrightarrow> l = 0 \<or> bit e 7"
  by (simp_all add: x86_format_def x86_is_unused_def x86_huge)

lemma x86_set_bits:
  "bit (x86_entry_set ops (Some (f, fl))) k \<longleftrightarrow> bit f k \<or> bit fl k \<or> k = 0"
  by (auto simp: x86_entry_set_def union_law bit_or_iff x86_bits)

lemma x86_set_address:
  assumes "f AND x86_ADDRESS_MASK = f" and "fl AND x86_ADDRESS_MASK = 0"
  shows "x86_entry_set ops (Some (f, fl)) AND x86_ADDRESS_MASK = f"
proof -
  have "bit (x86_entry_set ops (Some (f, fl)) AND x86_ADDRESS_MASK) k \<longleftrightarrow> bit f k" for k
    using arg_cong [OF assms(1), of "\<lambda>w. bit w k"] arg_cong [OF assms(2), of "\<lambda>w. bit w k"]
    by (auto simp: bit_and_iff x86_set_bits x86_bits)
  then show ?thesis by (simp add: word_eq_bits)
qed

lemma x86_from_bits:
  "bit (x86_flags_from ops fl) k \<longleftrightarrow> k = 0 \<or> k = 1 \<and> writable fl \<or> k = 63 \<and> \<not> executable fl \<or>
     k = 2 \<and> user_accessible fl \<or> k = 4 \<and> \<not> cached fl"
  by (auto simp: x86_flags_from_def union_law bit_or_iff x86_bits)

lemma x86_entry_format: "entry_format (x86_format ops)"
proof
  let ?F = "x86_format ops"
  have tbl: "f AND x86_ADDRESS_MASK = f" if "entry_addr ?F (fmt_table ?F f) = Some f" for f
  proof -
    have "bit (fmt_table ?F f AND x86_ADDRESS_MASK) k \<longleftrightarrow> bit f k" for k
      using that by (simp add: x86_entry_addr split: if_splits)
    then have "bit f k \<Longrightarrow> 12 \<le> k \<and> k < 52" for k by (metis bit_and_iff x86_mask_bits)
    then show ?thesis by (auto simp: word_eq_bits bit_and_iff x86_bits)
  qed
  have low: "\<not> bit f 7" if "f AND x86_ADDRESS_MASK = f" for f
    using arg_cong [OF that, of "\<lambda>w. bit w 7"] by (simp add: bit_and_iff x86_bits)
  fix va e p k x l f s fl
  show "vaddr_valid (fmt_target ?F) va \<longleftrightarrow> canon (fmt_levels ?F) va"
    by (simp add: x86_format_def canon_def vaddr_new_def canonicalise_sv48)
  show "\<exists>a. fmt_address ?F e = Inr a" by (simp add: x86_format_def x86_address)
  show "fmt_address ?F 0 = Inr None" by (simp add: x86_format_def x86_address)
  show "\<not> fmt_in_use ?F 0" "\<not> fmt_is_leaf ?F 0" by (simp_all add: x86_format_checks)
  show "fmt_ends ?F (Suc l) e = fmt_is_leaf ?F e" by (simp add: x86_format_def)
  show "unat p + unat x < 2 ^ 64 \<and> paddr_valid (fmt_target ?F) (p + x)"
    if "entry_addr ?F e = Some p" "2 ^ k dvd unat p" "k \<le> 30" "unat x < 2 ^ k"
  proof -
    have "unat p < 2 ^ 52" using that(1) x86_masked [of e] by (auto simp: x86_entry_addr split: if_splits)
    then have lt: "unat p + unat x < 2 ^ 52" using that(2-) by (intro paddr_room) simp_all
    then have "unat (p + x) = unat p + unat x" by (intro unat_add_no_overflow) simp
    then show ?thesis using lt by (simp add: paddr_valid_iff x86_format_def)
  qed
  show "\<not> fmt_is_leaf ?F (fmt_table ?F f) \<and> fmt_in_use ?F (fmt_table ?F f)" if "entry_addr ?F (fmt_table ?F f) = Some f"
  proof
    show "\<not> fmt_is_leaf ?F (fmt_table ?F f)"
      using low [OF tbl [OF that]] by (simp add: x86_format_def x86_huge x86_set_bits x86_NON_TERMINAL_FLAGS_def bit_or_iff x86_bits)
    show "fmt_in_use ?F (fmt_table ?F f)" using that unfolding x86_entry_addr by (auto simp: x86_format_def x86_is_unused_def split: if_splits)
  qed
  show "entry_addr ?F (fmt_mapping ?F s f fl) = Some f \<and> fmt_in_use ?F (fmt_mapping ?F s f fl) \<and>
      fmt_ends ?F (lev s) (fmt_mapping ?F s f fl)" if "entry_addr ?F (fmt_table ?F f) = Some f"
  proof -
    define g where "g = (if s = Size4KiB then x86_flags_from ops fl else fl_union ops (x86_flags_from ops fl) x86_HUGE_PAGE)"
    have g: "g AND x86_ADDRESS_MASK = 0" "s \<noteq> Size4KiB \<Longrightarrow> bit g 7"
      by (auto simp: g_def word_eq_bits bit_and_iff bit_or_iff x86_bits x86_from_bits union_law)
    have m: "fmt_mapping ?F s f fl = x86_entry_set ops (Some (f, g))" by (simp add: x86_format_def g_def)
    have b: "bit (fmt_mapping ?F s f fl) 0" "lev s \<noteq> 0 \<Longrightarrow> bit (fmt_mapping ?F s f fl) 7"
      using g(2) by (auto simp: m x86_set_bits lev_def split: frame_size.splits)
    then have "fmt_mapping ?F s f fl \<noteq> 0" by auto
    moreover have "entry_addr ?F (fmt_mapping ?F s f fl) = Some f"
      using b(1) x86_set_address [OF tbl [OF that] g(1)] by (simp add: x86_entry_addr m)
    ultimately show ?thesis using b(2) by (auto simp: x86_format_checks)
  qed
qed

lemma x86_frame_fits:
  assumes "4096 dvd unat f" and "unat f < 2 ^ 52" and "vaddr_add X86_64 pb f = Inr (pb + f)"
  shows "frame_fits (x86_format ops) pb f"
proof -
  have "f AND x86_ADDRESS_MASK = f"
    using frame_bits [OF assms(1,2)] by (auto simp: word_eq_bits bit_and_iff x86_bits)
  moreover have "x86_NON_TERMINAL_FLAGS AND x86_ADDRESS_MASK = 0"
    by (auto simp: word_eq_bits x86_NON_TERMINAL_FLAGS_def bit_and_iff bit_or_iff x86_bits)
  ultimately have "x86_entry_set ops (Some (f, x86_NON_TERMINAL_FLAGS)) AND x86_ADDRESS_MASK = f" by (rule x86_set_address)
  then have "entry_addr (x86_format ops) (fmt_table (x86_format ops) f) = Some f"
    by (simp add: x86_entry_addr x86_set_bits) (simp add: x86_format_def x86_set_bits)
  then show ?thesis using assms(3) by (simp add: frame_fits_def window_def x86_format_def)
qed

end

subsection \<open>The page tables with a source of frames\<close>

lemma x86_fields [simp]: "fmt_levels (x86_format fo) = 4" "fmt_target (x86_format fo) = X86_64"
  by (simp_all add: x86_format_def)

lemma x86_page_tables:
  "bitflags fo \<Longrightarrow> frame_source ainv free alloc good \<Longrightarrow> page_tables (x86_format fo) ainv free alloc good"
  by (intro page_tables.intro bitflags.x86_entry_format)

lemma x86_map_eq:
  assumes P: "page_tables (x86_format fo) ainv free alloc good" and "usize_bits ops"
    and inv: "pt_inv (x86_format fo) ainv free pb root st"
  shows "x86_map fo ops alloc pb root s page frame fl = map_at (x86_format fo) alloc pb (pb + root)
      (map (\<lambda>j. index_word j page) (rev [Suc (lev s) ..< fmt_levels (x86_format fo)])) (index_word (lev s) page)
      (fmt_mapping (x86_format fo) s frame fl)"
proof -
  have "vaddr_add (fmt_target (x86_format fo)) pb root = Inr (pb + root)"
    using page_tables.root_window [OF P inv] by simp
  then show ?thesis unfolding x86_map_def by (intro page_tables.map_4_eq [OF P assms(2)]) simp_all
qed

lemma x86_mapper:
  assumes "page_tables (x86_format fo) ainv free alloc good" and "usize_bits ops"
  shows "page_mapper X86_64 (x86_map fo ops alloc pb root) (pt_inv (x86_format fo) ainv free pb root)
    (translation (x86_format fo) pb root) free 3 (frame_fits (x86_format fo) pb)"
  using page_tables.mapper_4 [OF assms(1,2)] by (simp add: x86_map_def)

text \<open>The interpretations with the physical memory manager of the kernel and with its early allocator.\<close>

interpretation x86_pmm: page_tables "x86_format word_flag_ops" "pmm_inv X86_64" pmm_memory "pmm_allocate X86_64 Size4KiB"
  "paddr_valid X86_64" pb root for pb root
  by (rule x86_page_tables [OF word_flags.bitflags_axioms pmm.frame_source_axioms])

interpretation x86_early: page_tables "x86_format word_flag_ops" "memory_map_ok X86_64" usable_memory "early_allocate X86_64"
  "paddr_valid X86_64" pb root for pb root
  by (rule x86_page_tables [OF word_flags.bitflags_axioms early.frame_source_axioms])

interpretation x86_pmm_map: page_mapper X86_64 "x86_map word_flag_ops word_bit_ops (pmm_allocate X86_64 Size4KiB) pb root"
  "pt_inv (x86_format word_flag_ops) (pmm_inv X86_64) pmm_memory pb root" "translation (x86_format word_flag_ops) pb root"
  pmm_memory 3 "frame_fits (x86_format word_flag_ops) pb" for pb root
  by (rule x86_mapper [OF x86_pmm.page_tables_axioms usize_word_bits])

text \<open>Empty tables.\<close>

interpretation x86_blank: blank_tables "x86_format word_flag_ops"
proof (intro blank_tables.intro blank_tables_axioms.intro word_flags.x86_entry_format)
  show "frame_fits (x86_format word_flag_ops) 0 f" if "4096 dvd unat f" "unat f < 2 ^ 38" for f
    using that by (intro word_flags.x86_frame_fits) (simp_all add: vaddr_add_def uadd_def vaddr_new_low)
qed simp_all

lemmas x86_blank_run = x86_blank.blank_mapped [where map_page =
  "x86_map word_flag_ops word_bit_ops (pmm_allocate (fmt_target (x86_format word_flag_ops)) Size4KiB) 0 blank_root", OF x86_map_eq [OF x86_blank.pt.page_tables_axioms usize_word_bits x86_blank.blank_inv],
  unfolded x86_fields]

lemmas x86_parts = word_flags.bitflags_axioms usize_word_bits pmm.frame_source_axioms x86_blank.blank_inv [unfolded x86_fields]

subsection \<open>Properties\<close>

text \<open>C10: with at least three frames to allocate, \<open>map\<close> never panics and keeps the tables well formed.
  It succeeds only if nothing was mapped in the page, and then the processor translates exactly the
  addresses of the page to those of the frame and every other address as before; otherwise no
  translation changes, and the error means that the page is mapped already or, for a larger page, that a
  table is in its place.  Nothing
  is written but tables and newly allocated frames.\<close>

theorem x86_map_correct:
  fixes fo :: flag_ops and ops :: bit_field_ops and pb :: vaddr and root :: paddr and st :: "'a paging"
  defines "tr \<equiv> translation (x86_format fo) pb root"
  assumes "bitflags fo" and "usize_bits ops" and "frame_source ainv free alloc good"
    and "pt_inv (x86_format fo) ainv free pb root st" and "vaddr_valid X86_64 page" and "unat (SIZE s) dvd unat page"
    and "unat (SIZE s) dvd unat frame" and "frame_fits (x86_format fo) pb frame" and "3 * 4096 \<le> card (free (frames st))"
  shows "\<exists>r st'. x86_map fo ops alloc pb root s page frame fl st = Inr (r, st') \<and>
     pt_inv (x86_format fo) ainv free pb root st' \<and>
     (\<forall>v. v \<notin> may_write (x86_format fo) free pb root st \<longrightarrow> memory st' v = memory st v) \<and>
     (case r of
        Inr _ \<Rightarrow> mapped X86_64 (tr st) page frame (unat (SIZE s)) (tr st') \<and> unmapped X86_64 (tr st) page (unat (SIZE s))
      | Inl e \<Rightarrow> tr st' = tr st \<and> (tr st page \<noteq> None \<or>
          s \<noteq> Size4KiB \<and> walk (x86_format fo) pb (memory st) root (path 4 (lev s) page) \<noteq> None))"
proof -
  note P = x86_page_tables [OF assms(2,4)]
  note map = x86_map_eq [OF P assms(3,5)]
  show ?thesis
    using page_tables.map_total [where map_page = "x86_map fo ops alloc pb root", OF P map assms(5) _ _ assms(7,8,9)] assms(6,10)
    unfolding page_tables.page_result_def [OF P] tr_def by (fastforce split: sum.splits)
qed

theorem x86_map_correct_witness:
  "\<exists>st'. x86_map word_flag_ops word_bit_ops (pmm_allocate X86_64 Size4KiB) 0 blank_root Size4KiB 0x40000000 0x200000 flags_default blank_paging
       = Inr (Inr (), st') \<and> translation (x86_format word_flag_ops) 0 blank_root st' 0x40000123 = Some 0x200123"
proof -
  have fit: "frame_fits (x86_format word_flag_ops) 0 0x200000" by (rule x86_blank.low_fits) simp_all
  have v: "vaddr_valid X86_64 0x40000000" "vaddr_valid X86_64 0x40000123" by (rule vaddr_new_low; simp)+
  show ?thesis
    using x86_map_correct [OF x86_parts v(1) _ _ fit,
        of Size4KiB flags_default] x86_blank.blank_none v(2)
    by (fastforce simp: mapped_def blank_fields(2) split: sum.splits)
qed

text \<open>C11: \<open>map_area\<close> returns and does not panic, under these conditions: the tables are well formed; the
  virtual and the physical start and the size are multiples of 4096; the area lies in one half of the address space
  and ends more than 2MiB below 2^64; its physical addresses are valid and fit an entry; the physical start, the
  virtual start and the size add up to at most 2^64, since the code adds them before it subtracts; and there
  are three frames to allocate for each 4KiB of the area.  When it then succeeds, nothing was mapped in
  the area, and exactly the addresses of the area are translated to the physical area, whatever sizes of
  pages were used; when it fails, the same holds for a first part of the area.\<close>

theorem x86_map_area_correct:
  fixes fo :: flag_ops and ops :: bit_field_ops and pb :: vaddr and root :: paddr and st :: "'a paging"
  defines "tr \<equiv> translation (x86_format fo) pb root"
  assumes "bitflags fo" and "usize_bits ops" and "frame_source ainv free alloc good"
    and "pt_inv (x86_format fo) ainv free pb root st"
    and "place_ok X86_64 (frame_fits (x86_format fo) pb) vs ps (unat bytes)" and "4096 dvd unat bytes"
    and "unat vs + unat bytes + 2 ^ 21 < 2 ^ 64" and "unat ps + unat vs + unat bytes \<le> 2 ^ 64"
    and "3 * unat bytes \<le> card (free (frames st))"
  shows "\<exists>r st'. x86_map_area fo ops alloc pb root vs ps bytes fl st = Some (Inr (r, st')) \<and>
     pt_inv (x86_format fo) ainv free pb root st' \<and> outcome X86_64 (tr st) vs ps (unat bytes) r (tr st')"
proof -
  note M = x86_mapper [OF x86_page_tables [OF assms(2,4)] assms(3)]
  have "4096 * (unat bytes div 4096 * 3) \<le> 3 * unat bytes" by simp
  then have "room False free (unat bytes div 4096 * 3 + 0) st" using assms(10) by (simp add: room_def)
  then show ?thesis
    using page_mapper.map_area_ok [OF M assms(5-9), of False 0 fl]
    unfolding x86_map_area_def tr_def by (fastforce split: sum.splits)
qed

theorem x86_map_area_correct_witness:
  "\<exists>st' r. x86_map_area word_flag_ops word_bit_ops (pmm_allocate X86_64 Size4KiB) 0 blank_root 0x40001000 0x2001000 0x400000 flags_default blank_paging
       = Some (Inr (r, st')) \<and>
     outcome X86_64 (\<lambda>_. None) 0x40001000 0x2001000 0x400000 r (translation (x86_format word_flag_ops) 0 blank_root st')"
proof -
  have "vaddr_valid X86_64 x" if "unat x \<le> 0x40401000" for x using that by (intro vaddr_new_low) simp
  moreover have "frame_fits (x86_format word_flag_ops) 0 f" if "unat f < 0x2401000" "4096 dvd unat f" for f
    using that by (intro x86_blank.low_fits) simp_all
  ultimately have "place_ok X86_64 (frame_fits (x86_format word_flag_ops) 0) 0x40001000 0x2001000 (unat (0x400000 :: usize))"
    by (simp add: place_ok_def paddr_valid_iff)
  then show ?thesis
    using x86_map_area_correct [OF x86_parts,
        of "0x40001000" "0x2001000" "0x400000" flags_default] x86_blank.blank_none by (simp add: blank_fields(2)) blast
qed

text \<open>C16: for every address that no page of 1GiB covers, \<open>translate\<close> returns what the walk of the processor
  finds; it never panics and changes nothing.\<close>

theorem x86_translate_correct:
  assumes "bitflags fo" and "usize_bits ops" and "frame_source ainv free alloc good"
    and "pt_inv (x86_format fo) ainv free pb root st" and "\<not> covered (x86_format fo) pb root (memory st) 2 va"
  shows "x86_translate fo ops pb root va st = Inr (Inr (translation (x86_format fo) pb root st va), st)"
proof -
  have "wp False (translate_4 (x86_format fo) ops pb root va)
      (\<lambda>r st'. r = Inr (translation (x86_format fo) pb root st va) \<and> st' = st) st"
    using assms(5)
    by (intro page_tables.translate_4_wp [OF x86_page_tables [OF assms(1,3)] assms(2,4)]) simp_all
  then show ?thesis using wp_total unfolding x86_translate_def by fastforce
qed

theorem x86_translate_correct_witness:
  "x86_translate word_flag_ops word_bit_ops 0 blank_root 0x1234 blank_paging = Inr (Inr None, blank_paging)"
proof -
  have "translation (x86_format word_flag_ops) 0 blank_root blank_paging 0x1234 = None"
    using fun_cong [OF x86_blank.blank_none] by simp
  then show ?thesis using x86_translate_correct [OF x86_parts x86_blank.blank_uncovered] by simp
qed

text \<open>C18: unmapping a page of 4KiB that was mapped returns its frame, without a panic, and the processor
  translates every address as it did before the page was mapped.\<close>

theorem x86_map_unmap:
  assumes "bitflags fo" and "usize_bits ops" and "frame_source ainv free alloc good"
    and "pt_inv (x86_format fo) ainv free pb root st" and "vaddr_valid X86_64 page" and "4096 dvd unat page"
    and "4096 dvd unat frame" and "frame_fits (x86_format fo) pb frame"
    and "x86_map fo ops alloc pb root Size4KiB page frame fl st = Inr (Inr (), st')"
  shows "\<exists>st''. x86_unmap fo ops pb root Size4KiB page st' = Inr (Inr (Some frame), st'') \<and>
     pt_inv (x86_format fo) ainv free pb root st'' \<and>
     (\<forall>va. vaddr_valid X86_64 va \<longrightarrow> translation (x86_format fo) pb root st'' va = translation (x86_format fo) pb root st va)"
proof -
  note P = x86_page_tables [OF assms(1,3)]
  have "\<exists>st''. x86_unmap fo ops pb root Size4KiB page st' = Inr (Inr (Some frame), st'') \<and>
     pt_inv (x86_format fo) ainv free pb root st'' \<and> (\<forall>va. vaddr_valid (fmt_target (x86_format fo)) va \<longrightarrow>
       translation (x86_format fo) pb root st'' va = translation (x86_format fo) pb root st va)"
  proof (rule page_tables.map_unmap [where map_page = "x86_map fo ops alloc pb root" and un_page = "x86_unmap fo ops pb root Size4KiB",
        OF P x86_map_eq [OF P assms(2,4)] assms(4) _ _ assms(6-9)], goal_cases)
    case (3 Q)
    show ?case
      unfolding x86_unmap_def by (rule page_tables.unmap_4_wp [where Q = Q, OF P assms(2) 3(1) _ 3(2-)]) simp_all
  qed (use assms(5) in simp_all)
  then show ?thesis by simp
qed

theorem x86_map_unmap_witness:
  "\<exists>st' st''. x86_map word_flag_ops word_bit_ops (pmm_allocate X86_64 Size4KiB) 0 blank_root Size4KiB 0x40000000 0x200000 flags_default blank_paging
       = Inr (Inr (), st') \<and>
     x86_unmap word_flag_ops word_bit_ops 0 blank_root Size4KiB 0x40000000 st' = Inr (Inr (Some 0x200000), st'')"
proof -
  have fit: "frame_fits (x86_format word_flag_ops) 0 0x200000" by (rule x86_blank.low_fits) simp_all
  have v: "vaddr_valid X86_64 0x40000000" by (rule vaddr_new_low) simp
  obtain st' where st': "x86_map word_flag_ops word_bit_ops (pmm_allocate X86_64 Size4KiB) 0 blank_root Size4KiB 0x40000000 0x200000
      flags_default blank_paging = Inr (Inr (), st')"
    using x86_blank_run [OF v, of Size4KiB "0x200000" flags_default] by auto
  then show ?thesis
    using x86_map_unmap [OF x86_parts v _ _ fit st'] by auto
qed

text \<open>C37: \<open>translate\<close> does not know pages of 1GiB: after one was mapped it takes the frame of the page
  for a table.  If the frame begins with zeros it reports every address of the page as not mapped,
  although the processor translates it.\<close>

theorem x86_translate_giant:
  assumes "bitflags fo" and "usize_bits ops" and "frame_source ainv free alloc good"
    and "pt_inv (x86_format fo) ainv free pb root st" and "vaddr_valid X86_64 page" and "2 ^ 30 dvd unat page"
    and "2 ^ 30 dvd unat frame" and "frame_fits (x86_format fo) pb frame"
    and "x86_map fo ops alloc pb root Size1GiB page frame fl st = Inr (Inr (), st')"
    and "memory st' (pb + frame) = (\<lambda>_. 0)" and "vaddr_valid X86_64 va" and "va \<in> vrange page (2 ^ 30)"
  shows "translation (x86_format fo) pb root st' va = Some (frame + (va - page)) \<and>
     x86_translate fo ops pb root va st' = Inr (Inr None, st')"
proof -
  note P = x86_page_tables [OF assms(1,3)]
  show ?thesis
    unfolding x86_translate_def
    by (rule page_tables.giant_4 [where map_page = "x86_map fo ops alloc pb root", OF P x86_map_eq [OF P assms(2,4)] assms(4) _ _ assms(6-10)])
      (use assms(2,5,11,12) in simp_all)
qed

theorem x86_translate_giant_witness:
  "\<exists>st'. x86_map word_flag_ops word_bit_ops (pmm_allocate X86_64 Size4KiB) 0 blank_root Size1GiB 0x40000000 0x80000000
       flags_default blank_paging = Inr (Inr (), st') \<and>
     translation (x86_format word_flag_ops) 0 blank_root st' 0x40000123 = Some 0x80000123 \<and>
     x86_translate word_flag_ops word_bit_ops 0 blank_root 0x40000123 st' = Inr (Inr None, st')"
proof -
  have fit: "frame_fits (x86_format word_flag_ops) 0 0x80000000" by (rule x86_blank.low_fits) simp_all
  have v: "vaddr_valid X86_64 0x40000000" "vaddr_valid X86_64 0x40000123" by (rule vaddr_new_low; simp)+
  obtain st' where st': "x86_map word_flag_ops word_bit_ops (pmm_allocate X86_64 Size4KiB) 0 blank_root Size1GiB 0x40000000 0x80000000
      flags_default blank_paging = Inr (Inr (), st')" "memory st' (0 + 0x80000000) = (\<lambda>_. 0)"
    by (rule x86_blank_run [OF v(1), of Size1GiB "0x80000000" flags_default]) auto
  then show ?thesis
    using x86_translate_giant [OF x86_parts v(1) _ _ fit st'(1) _ v(2)] by (intro exI [of _ st']) simp
qed

end
