(* ===== verification/Hal_Riscv.thy ===== *)
theory Hal_Riscv
  imports Blank_Tables Bit_Flags
begin

text \<open>
  \<open>lib/hal_riscv/src/paging.rs\<close>: the page tables of RISC-V.  An entry is the same for Sv48, with four
  levels, and Sv39, with three; the operations are those of \<open>Hal_Page_Tables\<close> for this format.
  Proved for both are the correctness of mapping, of unmapping and of translation against the walk
  of the processor.
\<close>

subsection \<open>Entries\<close>

definition rv_VALID :: u64 where "rv_VALID = push_bit 0 1"
definition rv_READABLE :: u64 where "rv_READABLE = push_bit 1 1"
definition rv_WRITABLE :: u64 where "rv_WRITABLE = push_bit 2 1"
definition rv_EXECUTABLE :: u64 where "rv_EXECUTABLE = push_bit 3 1"
definition rv_USER_ACCESSIBLE :: u64 where "rv_USER_ACCESSIBLE = push_bit 4 1"
definition rv_GLOBAL :: u64 where "rv_GLOBAL = push_bit 5 1"
definition rv_ACCESSED :: u64 where "rv_ACCESSED = push_bit 6 1"
definition rv_DIRTY :: u64 where "rv_DIRTY = push_bit 7 1"

text \<open>All the flags of the type, which \<open>from_bits_truncate\<close> keeps.\<close>

definition rv_all_flags :: u64 where
  "rv_all_flags = rv_VALID OR rv_READABLE OR rv_WRITABLE OR rv_EXECUTABLE OR rv_USER_ACCESSIBLE OR rv_GLOBAL OR
     rv_ACCESSED OR rv_DIRTY"

definition rv_flags_from :: "flag_ops \<Rightarrow> flags \<Rightarrow> u64" where
  "rv_flags_from fo fl =
     fl_union fo (fl_union fo (fl_union fo rv_VALID
       (if writable fl then fl_union fo rv_READABLE rv_WRITABLE else rv_READABLE))
       (if executable fl then rv_EXECUTABLE else 0))
       (if user_accessible fl then rv_USER_ACCESSIBLE else 0)"

definition rv_entry_flags :: "flag_ops \<Rightarrow> u64 \<Rightarrow> u64" where
  "rv_entry_flags fo e = fl_truncate fo rv_all_flags e"

definition rv_is_valid :: "flag_ops \<Rightarrow> u64 \<Rightarrow> bool" where
  "rv_is_valid fo e = fl_contains fo (rv_entry_flags fo e) rv_VALID"

definition rv_is_leaf :: "flag_ops \<Rightarrow> u64 \<Rightarrow> bool" where
  "rv_is_leaf fo e =
     (let flags = rv_entry_flags fo e in
        fl_contains fo flags rv_VALID \<and>
        fl_intersects fo flags (fl_union fo (fl_union fo rv_READABLE rv_WRITABLE) rv_EXECUTABLE))"

definition rv_entry_address :: "flag_ops \<Rightarrow> bit_field_ops \<Rightarrow> target \<Rightarrow> u64 \<Rightarrow> panic + paddr option" where
  "rv_entry_address fo ops t e =
     (if fl_contains fo (rv_entry_flags fo e) rv_VALID
      then rbind (get_bits ops e 10 54) (\<lambda>b.
           rbind (runwrap (paddr_new t (push_bit 12 b))) (\<lambda>a. Inr (Some a)))
      else Inr None)"

definition rv_entry_set :: "flag_ops \<Rightarrow> (paddr \<times> u64) option \<Rightarrow> bool \<Rightarrow> u64" where
  "rv_entry_set fo entry is_leaf =
     (case entry of
        Some (address, flags) \<Rightarrow>
          drop_bit 2 address OR
          fl_union fo (fl_union fo flags rv_VALID) (if is_leaf then fl_union fo rv_ACCESSED rv_DIRTY else 0)
      | None \<Rightarrow> 0)"

subsection \<open>Page tables\<close>

definition rv_format :: "flag_ops \<Rightarrow> bit_field_ops \<Rightarrow> target \<Rightarrow> nat \<Rightarrow> paging_format" where
  "rv_format fo ops t levels =
     \<lparr>fmt_target = t, fmt_levels = levels,
      fmt_address = rv_entry_address fo ops t,
      fmt_is_leaf = rv_is_leaf fo,
      fmt_in_use = rv_is_valid fo,
      fmt_table = (\<lambda>f. rv_entry_set fo (Some (f, rv_VALID)) False),
      fmt_mapping = (\<lambda>s frame fl. rv_entry_set fo (Some (frame, rv_flags_from fo fl)) True),
      fmt_ends = (\<lambda>l e. rv_is_leaf fo e)\<rparr>"

text \<open>\<open>PageTableImpl::new\<close>, for every number of levels.\<close>

definition rv_new :: "flag_ops \<Rightarrow> bit_field_ops \<Rightarrow> target \<Rightarrow> nat \<Rightarrow> paddr \<Rightarrow> vaddr \<Rightarrow> ('a, unit) paging_op" where
  "rv_new fo ops t levels = page_table_new (rv_format fo ops t levels)"

text \<open>Sv48: \<open>PageTableImpl<Level4>\<close>.\<close>

definition sv48 :: "flag_ops \<Rightarrow> bit_field_ops \<Rightarrow> paging_format" where
  "sv48 fo ops = rv_format fo ops Rv64Virt 4"

definition sv48_translate :: "flag_ops \<Rightarrow> bit_field_ops \<Rightarrow> vaddr \<Rightarrow> paddr \<Rightarrow> vaddr \<Rightarrow> ('a, paddr option) paging_op" where
  "sv48_translate fo ops = translate_4 (sv48 fo ops) ops"

definition sv48_map :: "flag_ops \<Rightarrow> bit_field_ops \<Rightarrow> 'a frame_alloc \<Rightarrow> vaddr \<Rightarrow> paddr \<Rightarrow> 'a map_page" where
  "sv48_map fo ops = map_4 (sv48 fo ops) ops"

definition sv48_map_area ::
  "flag_ops \<Rightarrow> bit_field_ops \<Rightarrow> 'a frame_alloc \<Rightarrow> vaddr \<Rightarrow> paddr \<Rightarrow> vaddr \<Rightarrow> paddr \<Rightarrow> usize \<Rightarrow> flags \<Rightarrow> 'a paging \<Rightarrow>
     (panic + ((paging_error + unit) \<times> 'a paging)) option" where
  "sv48_map_area fo ops alloc pb top_frame = pt_map_area Rv64Virt (sv48_map fo ops alloc pb top_frame)"

definition sv48_unmap ::
  "flag_ops \<Rightarrow> bit_field_ops \<Rightarrow> vaddr \<Rightarrow> paddr \<Rightarrow> frame_size \<Rightarrow> vaddr \<Rightarrow> ('a, paddr option) paging_op" where
  "sv48_unmap fo ops = unmap_4 (sv48 fo ops) ops"

text \<open>Sv39: \<open>PageTableImpl<Level3>\<close>.\<close>

definition sv39 :: "flag_ops \<Rightarrow> bit_field_ops \<Rightarrow> paging_format" where
  "sv39 fo ops = rv_format fo ops MqPro 3"

definition sv39_translate :: "flag_ops \<Rightarrow> bit_field_ops \<Rightarrow> vaddr \<Rightarrow> paddr \<Rightarrow> vaddr \<Rightarrow> ('a, paddr option) paging_op" where
  "sv39_translate fo ops = translate_3 (sv39 fo ops) ops"

definition sv39_map :: "flag_ops \<Rightarrow> bit_field_ops \<Rightarrow> 'a frame_alloc \<Rightarrow> vaddr \<Rightarrow> paddr \<Rightarrow> 'a map_page" where
  "sv39_map fo ops = map_3 (sv39 fo ops) ops"

definition sv39_map_area ::
  "flag_ops \<Rightarrow> bit_field_ops \<Rightarrow> 'a frame_alloc \<Rightarrow> vaddr \<Rightarrow> paddr \<Rightarrow> vaddr \<Rightarrow> paddr \<Rightarrow> usize \<Rightarrow> flags \<Rightarrow> 'a paging \<Rightarrow>
     (panic + ((paging_error + unit) \<times> 'a paging)) option" where
  "sv39_map_area fo ops alloc pb top_frame = pt_map_area MqPro (sv39_map fo ops alloc pb top_frame)"

definition sv39_unmap ::
  "flag_ops \<Rightarrow> bit_field_ops \<Rightarrow> vaddr \<Rightarrow> paddr \<Rightarrow> frame_size \<Rightarrow> vaddr \<Rightarrow> ('a, paddr option) paging_op" where
  "sv39_unmap fo ops = unmap_3 (sv39 fo ops) ops"

text \<open>The parameter of \<open>PageTableImpl\<close>, which selects the implementation.\<close>

datatype top_level = Level4 | Level3

primrec rv_paging :: "top_level \<Rightarrow> flag_ops \<Rightarrow> bit_field_ops \<Rightarrow> paging_format" where
  "rv_paging Level4 = sv48"
| "rv_paging Level3 = sv39"

primrec rv_target :: "top_level \<Rightarrow> target" where
  "rv_target Level4 = Rv64Virt"
| "rv_target Level3 = MqPro"

primrec rv_levels :: "top_level \<Rightarrow> nat" where
  "rv_levels Level4 = 4"
| "rv_levels Level3 = 3"

primrec rv_translate ::
  "top_level \<Rightarrow> flag_ops \<Rightarrow> bit_field_ops \<Rightarrow> vaddr \<Rightarrow> paddr \<Rightarrow> vaddr \<Rightarrow> ('a, paddr option) paging_op" where
  "rv_translate Level4 = sv48_translate"
| "rv_translate Level3 = sv39_translate"

primrec rv_map :: "top_level \<Rightarrow> flag_ops \<Rightarrow> bit_field_ops \<Rightarrow> 'a frame_alloc \<Rightarrow> vaddr \<Rightarrow> paddr \<Rightarrow> 'a map_page" where
  "rv_map Level4 = sv48_map"
| "rv_map Level3 = sv39_map"

primrec rv_map_area ::
  "top_level \<Rightarrow> flag_ops \<Rightarrow> bit_field_ops \<Rightarrow> 'a frame_alloc \<Rightarrow> vaddr \<Rightarrow> paddr \<Rightarrow> vaddr \<Rightarrow> paddr \<Rightarrow> usize \<Rightarrow> flags \<Rightarrow> 'a paging \<Rightarrow>
     (panic + ((paging_error + unit) \<times> 'a paging)) option" where
  "rv_map_area Level4 = sv48_map_area"
| "rv_map_area Level3 = sv39_map_area"

primrec rv_unmap ::
  "top_level \<Rightarrow> flag_ops \<Rightarrow> bit_field_ops \<Rightarrow> vaddr \<Rightarrow> paddr \<Rightarrow> frame_size \<Rightarrow> vaddr \<Rightarrow> ('a, paddr option) paging_op" where
  "rv_unmap Level4 = sv48_unmap"
| "rv_unmap Level3 = sv39_unmap"

subsection \<open>The format\<close>

named_theorems rv_bits \<open>bits of the flags of an entry\<close>

lemma rv_flag_bits [rv_bits]:
  "bit rv_VALID k \<longleftrightarrow> k = 0" "bit rv_READABLE k \<longleftrightarrow> k = 1" "bit rv_WRITABLE k \<longleftrightarrow> k = 2" "bit rv_EXECUTABLE k \<longleftrightarrow> k = 3"
  "bit rv_USER_ACCESSIBLE k \<longleftrightarrow> k = 4" "bit rv_GLOBAL k \<longleftrightarrow> k = 5" "bit rv_ACCESSED k \<longleftrightarrow> k = 6" "bit rv_DIRTY k \<longleftrightarrow> k = 7"
  unfolding rv_VALID_def rv_READABLE_def rv_WRITABLE_def rv_EXECUTABLE_def rv_USER_ACCESSIBLE_def rv_GLOBAL_def
    rv_ACCESSED_def rv_DIRTY_def
  by (subst flag_bit; simp)+

text \<open>The physical address in an entry.\<close>

definition rv_ppn :: "u64 \<Rightarrow> paddr" where
  "rv_ppn e = push_bit 12 (field e 10 54)"

lemma bit_rv_ppn: "bit (rv_ppn e) k \<longleftrightarrow> 12 \<le> k \<and> k < 56 \<and> bit e (k - 2)"
proof -
  have "bit (push_bit 12 (field e 10 54)) k \<longleftrightarrow> 12 \<le> k \<and> k < 64 \<and> bit (field e 10 54) (k - 12)"
    by (simp add: bit_push_bit_iff)
  also have "\<dots> \<longleftrightarrow> 12 \<le> k \<and> k < 56 \<and> bit e (k - 2)"
  proof (cases "12 \<le> k")
    case True
    then have "10 + (k - 12) = k - 2" by simp
    then show ?thesis using True by (auto simp: bit_field_bit)
  qed simp
  finally show ?thesis unfolding rv_ppn_def .
qed

lemma rv_ppn_less: "unat (rv_ppn e) < 2 ^ 56"
proof -
  have "rv_ppn e = take_bit 56 (rv_ppn e)" by (simp add: word_eq_bits bit_take_bit_iff bit_rv_ppn) auto
  then have "unat (rv_ppn e) = take_bit 56 (unat (rv_ppn e))" by (metis unsigned_take_bit_eq)
  then show ?thesis by (metis take_bit_nat_less_exp)
qed

context bitflags
begin

lemma rv_valid: "rv_is_valid ops e \<longleftrightarrow> bit e 0" "fl_contains ops (rv_entry_flags ops e) rv_VALID \<longleftrightarrow> bit e 0"
  unfolding rv_is_valid_def rv_entry_flags_def rv_VALID_def
  by (rule contains_flag; simp add: rv_all_flags_def bit_or_iff rv_bits)+

lemma rv_leaf: "rv_is_leaf ops e \<longleftrightarrow> bit e 0 \<and> (bit e 1 \<or> bit e 2 \<or> bit e 3)"
proof -
  have "fl_intersects ops (rv_entry_flags ops e) (fl_union ops (fl_union ops rv_READABLE rv_WRITABLE) rv_EXECUTABLE)
      \<longleftrightarrow> bit e 1 \<or> bit e 2 \<or> bit e 3"
    unfolding intersects_law union_law rv_entry_flags_def truncate_law word_eq_bits bit_and_iff bit_or_iff rv_all_flags_def
    by (auto simp: rv_bits)
  then show ?thesis by (simp add: rv_is_leaf_def Let_def rv_valid)
qed

lemma rv_set_bits:
  "bit (rv_entry_set ops (Some (f, fl)) leaf) k \<longleftrightarrow> bit f (k + 2) \<or> bit fl k \<or> k = 0 \<or> leaf \<and> (k = 6 \<or> k = 7)"
  by (auto simp: rv_entry_set_def union_law bit_or_iff bit_drop_bit_eq rv_bits add.commute)

lemma rv_from_bits:
  "bit (rv_flags_from ops fl) k \<longleftrightarrow> k = 0 \<or> k = 1 \<or> k = 2 \<and> writable fl \<or> k = 3 \<and> executable fl \<or> k = 4 \<and> user_accessible fl"
  by (auto simp: rv_flags_from_def union_law bit_or_iff rv_bits)

lemma rv_set_ppn:
  assumes "\<And>k. bit f k \<Longrightarrow> 12 \<le> k \<and> k < 56" and "\<And>k. bit fl k \<Longrightarrow> k < 10"
  shows "rv_ppn (rv_entry_set ops (Some (f, fl)) leaf) = f"
  unfolding word_eq_bits bit_rv_ppn rv_set_bits
proof
  fix k
  show "(12 \<le> k \<and> k < 56 \<and> (bit f (k - 2 + 2) \<or> bit fl (k - 2) \<or> k - 2 = 0 \<or> leaf \<and> (k - 2 = 6 \<or> k - 2 = 7))) = bit f k"
  proof (cases "12 \<le> k")
    case True
    then have "k - 2 + 2 = k" "\<not> k - 2 < 10" by simp_all
    then show ?thesis using True assms(1) [of k] assms(2) [of "k - 2"] by auto
  qed (use assms(1) [of k] in auto)
qed

end

subsection \<open>The page tables with a source of frames\<close>

lemma rv_paging_eq: "rv_paging L fo ops = rv_format fo ops (rv_target L) (rv_levels L)"
  by (cases L) (simp_all add: sv48_def sv39_def)

lemma sv_fields [simp]:
  "fmt_levels (sv48 fo ops) = 4" "fmt_target (sv48 fo ops) = Rv64Virt" "fmt_levels (sv39 fo ops) = 3" "fmt_target (sv39 fo ops) = MqPro"
  by (simp_all add: sv48_def sv39_def rv_format_def)

lemma rv_fields [simp]: "fmt_levels (rv_paging L fo ops) = rv_levels L" "fmt_target (rv_paging L fo ops) = rv_target L"
  by (simp_all add: rv_paging_eq rv_format_def)

lemma rv_ops:
  "L = Level4 \<Longrightarrow> rv_map L fo ops = map_4 (rv_paging L fo ops) ops"
  "L = Level4 \<Longrightarrow> rv_translate L fo ops = translate_4 (rv_paging L fo ops) ops"
  "L = Level4 \<Longrightarrow> rv_unmap L fo ops = unmap_4 (rv_paging L fo ops) ops"
  "L = Level3 \<Longrightarrow> rv_map L fo ops = map_3 (rv_paging L fo ops) ops"
  "L = Level3 \<Longrightarrow> rv_translate L fo ops = translate_3 (rv_paging L fo ops) ops"
  "L = Level3 \<Longrightarrow> rv_unmap L fo ops = unmap_3 (rv_paging L fo ops) ops"
  by (simp_all add: sv48_map_def sv48_translate_def sv48_unmap_def sv39_map_def sv39_translate_def sv39_unmap_def)

lemma rv_area: "rv_map_area L fo ops alloc pb root = pt_map_area (rv_target L) (rv_map L fo ops alloc pb root)"
  by (cases L) (simp_all add: sv48_map_area_def sv39_map_area_def)

lemma rv_levels_range: "3 \<le> rv_levels L" "rv_levels L \<le> 4"
  by (cases L; simp)+

locale rv_entries = bitflags fo for fo +
  fixes ops :: bit_field_ops and L :: top_level
  assumes bits: "usize_bits ops"
begin

abbreviation F :: paging_format where
  "F \<equiv> rv_paging L fo ops"

lemma rv_address: "rv_entry_address fo ops (rv_target L) e = Inr (if bit e 0 then Some (rv_ppn e) else None)"
proof -
  have "paddr_valid (rv_target L) (rv_ppn e)" by (cases L) (auto simp: paddr_valid_iff)
  then show ?thesis by (simp add: rv_entry_address_def rv_valid get_field [OF bits] flip: rv_ppn_def)
qed

lemma rv_entry_addr: "entry_addr F e = (if bit e 0 then Some (rv_ppn e) else None)"
  by (simp add: entry_addr_def rv_paging_eq rv_format_def rv_address)

lemma rv_format_checks:
  "fmt_in_use F e \<longleftrightarrow> bit e 0" "fmt_is_leaf F e \<longleftrightarrow> bit e 0 \<and> (bit e 1 \<or> bit e 2 \<or> bit e 3)"
  "fmt_ends F l e \<longleftrightarrow> bit e 0 \<and> (bit e 1 \<or> bit e 2 \<or> bit e 3)"
  by (simp_all add: rv_paging_eq rv_format_def rv_valid rv_leaf)

lemma rv_table_bits:
  "entry_addr F (fmt_table F f) = Some f \<longleftrightarrow> (\<forall>k. bit f k \<longrightarrow> 12 \<le> k \<and> k < 56)"
proof
  assume "entry_addr F (fmt_table F f) = Some f"
  then have "rv_ppn (fmt_table F f) = f" by (simp add: rv_entry_addr split: if_splits)
  then show "\<forall>k. bit f k \<longrightarrow> 12 \<le> k \<and> k < 56" using bit_rv_ppn by metis
next
  assume "\<forall>k. bit f k \<longrightarrow> 12 \<le> k \<and> k < 56"
  then have "rv_ppn (rv_entry_set fo (Some (f, rv_VALID)) False) = f" by (intro rv_set_ppn) (auto simp: rv_bits)
  then show "entry_addr F (fmt_table F f) = Some f"
    unfolding rv_entry_addr by (simp add: rv_paging_eq rv_format_def rv_set_bits)
qed

lemma rv_entry_format: "entry_format F"
proof
  fix va e p k x l f s fl
  show "vaddr_valid (fmt_target F) va \<longleftrightarrow> canon (fmt_levels F) va"
    unfolding rv_fields by (cases L) (auto simp: canon_def vaddr_new_def canonicalise_sv48 canonicalise_sv39)
  show "\<exists>a. fmt_address F e = Inr a" "fmt_address F 0 = Inr None" by (simp_all add: rv_paging_eq rv_format_def rv_address)
  show "\<not> fmt_in_use F 0" "\<not> fmt_is_leaf F 0" "fmt_ends F (Suc l) e = fmt_is_leaf F e" by (simp_all add: rv_format_checks)
  show "unat p + unat x < 2 ^ 64 \<and> paddr_valid (fmt_target F) (p + x)"
    if "entry_addr F e = Some p" "2 ^ k dvd unat p" "k \<le> 30" "unat x < 2 ^ k"
  proof -
    have "unat p < 2 ^ 56" using that(1) rv_ppn_less [of e] by (auto simp: rv_entry_addr split: if_splits)
    then have "unat p + unat x < 2 ^ 56" using that(2-) by (intro paddr_room) simp_all
    then show ?thesis unfolding rv_fields by (cases L) (auto simp: paddr_valid_iff)
  qed
  show "\<not> fmt_is_leaf F (fmt_table F f) \<and> fmt_in_use F (fmt_table F f)" if "entry_addr F (fmt_table F f) = Some f"
  proof -
    have "\<not> bit f (Suc (Suc (Suc 0)))" "\<not> bit f 4" "\<not> bit f 5" using that unfolding rv_table_bits by force+
    then show ?thesis unfolding rv_format_checks by (simp add: rv_paging_eq rv_format_def rv_set_bits rv_bits)
  qed
  show "entry_addr F (fmt_mapping F s f fl) = Some f \<and> fmt_in_use F (fmt_mapping F s f fl) \<and>
      fmt_ends F (lev s) (fmt_mapping F s f fl)" if "entry_addr F (fmt_table F f) = Some f"
  proof -
    have "rv_ppn (rv_entry_set fo (Some (f, rv_flags_from fo fl)) True) = f"
      using that unfolding rv_table_bits by (intro rv_set_ppn) (auto simp: rv_from_bits)
    then show ?thesis unfolding rv_entry_addr rv_format_checks by (simp add: rv_paging_eq rv_format_def rv_set_bits rv_from_bits)
  qed
qed

sublocale entry_format F
  by (rule rv_entry_format)

lemma rv_frame_fits:
  assumes "4096 dvd unat f" and "unat f < 2 ^ 56" and "vaddr_add (rv_target L) pb f = Inr (pb + f)"
  shows "frame_fits F pb f"
  using frame_bits [OF assms(1,2)] assms(3) by (simp add: frame_fits_def window_def rv_table_bits)

end

lemma rv_page_tables:
  "bitflags fo \<Longrightarrow> usize_bits ops \<Longrightarrow> frame_source ainv free alloc good \<Longrightarrow>
    page_tables (rv_paging L fo ops) ainv free alloc good"
  by (intro page_tables.intro rv_entries.rv_entry_format rv_entries.intro rv_entries_axioms.intro)

lemma rv_map_eq:
  assumes P: "page_tables (rv_paging L fo ops) ainv free alloc good" and "usize_bits ops"
    and inv: "pt_inv (rv_paging L fo ops) ainv free pb root st"
  shows "rv_map L fo ops alloc pb root s page frame fl = map_at (rv_paging L fo ops) alloc pb (pb + root)
      (map (\<lambda>j. index_word j page) (rev [Suc (lev s) ..< fmt_levels (rv_paging L fo ops)])) (index_word (lev s) page)
      (fmt_mapping (rv_paging L fo ops) s frame fl)"
proof -
  have w: "vaddr_add (fmt_target (rv_paging L fo ops)) pb root = Inr (pb + root)"
    using page_tables.root_window [OF P inv] rv_levels_range [of L] by simp
  show ?thesis
  proof (cases "L = Level4")
    case True
    then show ?thesis unfolding rv_ops(1) [OF True] by (intro page_tables.map_4_eq [OF P] assms(2) w) simp
  next
    case False
    then have "L = Level3" by (cases L) simp_all
    then show ?thesis unfolding rv_ops(4) [OF \<open>L = Level3\<close>] by (intro page_tables.map_3_eq [OF P] assms(2) w) simp
  qed
qed

lemma rv_mapper:
  assumes P: "page_tables (rv_paging L fo ops) ainv free alloc good" and "usize_bits ops"
  shows "page_mapper (rv_target L) (rv_map L fo ops alloc pb root) (pt_inv (rv_paging L fo ops) ainv free pb root)
    (translation (rv_paging L fo ops) pb root) free (rv_levels L - 1) (frame_fits (rv_paging L fo ops) pb)"
  using page_tables.mapper [OF P rv_map_eq [OF P assms(2)]] rv_levels_range [of L] by simp

text \<open>The interpretations with the physical memory manager of the kernel and with its early allocator.\<close>

interpretation rv_word: rv_entries word_flag_ops word_bit_ops L for L
  by (intro rv_entries.intro rv_entries_axioms.intro word_flags.bitflags_axioms usize_word_bits)

interpretation rv_pmm: page_tables "rv_paging L word_flag_ops word_bit_ops" "pmm_inv (rv_target L)" pmm_memory
  "pmm_allocate (rv_target L) Size4KiB" "paddr_valid (rv_target L)" pb root for L pb root
  by (rule rv_page_tables [OF word_flags.bitflags_axioms usize_word_bits pmm.frame_source_axioms])

interpretation rv_early: page_tables "rv_paging L word_flag_ops word_bit_ops" "memory_map_ok (rv_target L)" usable_memory
  "early_allocate (rv_target L)" "paddr_valid (rv_target L)" pb root for L pb root
  by (rule rv_page_tables [OF word_flags.bitflags_axioms usize_word_bits early.frame_source_axioms])

interpretation rv_blank: blank_tables "rv_paging L word_flag_ops word_bit_ops" for L
proof (intro blank_tables.intro blank_tables_axioms.intro rv_word.rv_entry_format)
  show "frame_fits (rv_paging L word_flag_ops word_bit_ops) 0 f" if "4096 dvd unat f" "unat f < 2 ^ 38" for f
    using that by (intro rv_word.rv_frame_fits) (simp_all add: vaddr_add_def uadd_def vaddr_new_low)
qed (simp_all add: rv_levels_range)

lemmas rv_blank_run = rv_blank.blank_mapped [where map_page =
  "rv_map L word_flag_ops word_bit_ops (pmm_allocate (fmt_target (rv_paging L word_flag_ops word_bit_ops)) Size4KiB) 0 blank_root" for L,
  OF rv_map_eq [OF rv_blank.pt.page_tables_axioms usize_word_bits rv_blank.blank_inv], unfolded rv_fields]

lemmas rv_parts = word_flags.bitflags_axioms usize_word_bits pmm.frame_source_axioms rv_blank.blank_inv [unfolded rv_fields]

subsection \<open>Properties\<close>

text \<open>C14: with either number of levels, \<open>map_area\<close> returns and does not panic, under these conditions: the
  tables are well formed; the virtual and the physical start and the size are multiples of 4096; the area
  lies in one half of the address space and ends more than 2MiB below 2^64; its physical addresses are valid
  and fit an entry; the physical start, the virtual start and the size add up to at most 2^64, since
  the code adds them before it subtracts; and there are frames to allocate for the tables of each 4KiB of
  the area, three with four levels and two with three.  When it then succeeds, nothing was mapped in the
  area, and exactly the addresses of the area are translated to the physical area, whatever sizes of
  pages were used; when it fails, the same holds for a first part of the area.\<close>

theorem rv_map_area_correct:
  fixes L :: top_level and fo :: flag_ops and ops :: bit_field_ops and pb :: vaddr and root :: paddr and st :: "'a paging"
  defines "tr \<equiv> translation (rv_paging L fo ops) pb root"
  assumes "bitflags fo" and "usize_bits ops" and "frame_source ainv free alloc good"
    and "pt_inv (rv_paging L fo ops) ainv free pb root st"
    and "place_ok (rv_target L) (frame_fits (rv_paging L fo ops) pb) vs ps (unat bytes)" and "4096 dvd unat bytes"
    and "unat vs + unat bytes + 2 ^ 21 < 2 ^ 64" and "unat ps + unat vs + unat bytes \<le> 2 ^ 64"
    and "(rv_levels L - 1) * unat bytes \<le> card (free (frames st))"
  shows "\<exists>r st'. rv_map_area L fo ops alloc pb root vs ps bytes fl st = Some (Inr (r, st')) \<and>
     pt_inv (rv_paging L fo ops) ainv free pb root st' \<and> outcome (rv_target L) (tr st) vs ps (unat bytes) r (tr st')"
proof -
  note M = rv_mapper [OF rv_page_tables [OF assms(2-4)] assms(3)]
  let ?k = "unat bytes div 4096 * (rv_levels L - 1)"
  have "4096 * ?k \<le> (rv_levels L - 1) * unat bytes" by (simp add: mult.assoc [symmetric] mult.commute [of _ "rv_levels L - 1"])
  then have "4096 * ?k \<le> card (free (frames st))" using assms(10) by (rule order_trans)
  then have "room False free (?k + 0) st" by (simp add: room_def)
  then show ?thesis
    using page_mapper.map_area_ok [OF M assms(5-9), of False 0 fl]
    unfolding rv_area tr_def by (fastforce split: sum.splits)
qed

theorem rv_map_area_correct_witness:
  "\<exists>st' r. rv_map_area Level3 word_flag_ops word_bit_ops (pmm_allocate MqPro Size4KiB) 0 blank_root 0x40001000 0x2001000 0x400000
       flags_default blank_paging = Some (Inr (r, st')) \<and>
     outcome MqPro (\<lambda>_. None) 0x40001000 0x2001000 0x400000 r (translation (sv39 word_flag_ops word_bit_ops) 0 blank_root st')"
proof -
  have "vaddr_valid MqPro x" if "unat x \<le> 0x40401000" for x using that by (intro vaddr_new_low) simp
  moreover have "frame_fits (rv_paging Level3 word_flag_ops word_bit_ops) 0 f" if "unat f < 0x2401000" "4096 dvd unat f" for f
    using that by (intro rv_blank.low_fits) simp_all
  ultimately have "place_ok (rv_target Level3) (frame_fits (rv_paging Level3 word_flag_ops word_bit_ops) 0) 0x40001000 0x2001000
      (unat (0x400000 :: usize))"
    by (simp add: place_ok_def paddr_valid_iff)
  then show ?thesis
    using rv_map_area_correct [where L = Level3, OF rv_parts, where vs = "0x40001000" and ps = "0x2001000" and bytes = "0x400000" and fl = flags_default]
      rv_blank.blank_none [where L = Level3]
    by (simp add: blank_fields(2)) blast
qed

text \<open>C17: with either number of levels, \<open>translate\<close> returns for every address that no page of 1GiB covers what
  the walk of the processor finds; it never panics and changes nothing.\<close>

theorem rv_translate_correct:
  assumes "bitflags fo" and "usize_bits ops" and "frame_source ainv free alloc good"
    and "pt_inv (rv_paging L fo ops) ainv free pb root st" and "\<not> covered (rv_paging L fo ops) pb root (memory st) 2 va"
  shows "rv_translate L fo ops pb root va st = Inr (Inr (translation (rv_paging L fo ops) pb root st va), st)"
proof -
  note P = rv_page_tables [OF assms(1-3)]
  let ?Q = "\<lambda>r st'. r = Inr (translation (rv_paging L fo ops) pb root st va) \<and> st' = st"
  have "wp False (rv_translate L fo ops pb root va) ?Q st"
  proof (cases "L = Level4")
    case True
    then show ?thesis
      unfolding rv_ops(2) [OF True] using assms(5) by (intro page_tables.translate_4_wp [OF P assms(2,4)]) simp_all
  next
    case False
    then have L: "L = Level3" by (cases L) simp_all
    then show ?thesis
      unfolding rv_ops(5) [OF L] using assms(5) by (intro page_tables.translate_3_wp [OF P assms(2,4)]) simp_all
  qed
  then show ?thesis using wp_total by fastforce
qed

theorem rv_translate_correct_witness:
  "rv_translate Level4 word_flag_ops word_bit_ops 0 blank_root 0x1234 blank_paging = Inr (Inr None, blank_paging)"
proof -
  have "translation (rv_paging Level4 word_flag_ops word_bit_ops) 0 blank_root blank_paging 0x1234 = None"
    using fun_cong [OF rv_blank.blank_none [where L = Level4]] by simp
  then show ?thesis using rv_translate_correct [where L = Level4, OF rv_parts rv_blank.blank_uncovered] by simp
qed

text \<open>With either number of levels, unmapping a page of 4KiB that was mapped returns its frame, without
  a panic, and the processor translates every address as it did before the page was mapped.\<close>

lemma rv_map_unmap:
  assumes "bitflags fo" and "usize_bits ops" and "frame_source ainv free alloc good"
    and "pt_inv (rv_paging L fo ops) ainv free pb root st" and "vaddr_valid (rv_target L) page" and "4096 dvd unat page"
    and "4096 dvd unat frame" and "frame_fits (rv_paging L fo ops) pb frame"
    and "rv_map L fo ops alloc pb root Size4KiB page frame fl st = Inr (Inr (), st')"
  shows "\<exists>st''. rv_unmap L fo ops pb root Size4KiB page st' = Inr (Inr (Some frame), st'') \<and>
     pt_inv (rv_paging L fo ops) ainv free pb root st'' \<and>
     (\<forall>va. vaddr_valid (rv_target L) va \<longrightarrow>
        translation (rv_paging L fo ops) pb root st'' va = translation (rv_paging L fo ops) pb root st va)"
proof -
  note P = rv_page_tables [OF assms(1-3)]
  have "\<exists>st''. rv_unmap L fo ops pb root Size4KiB page st' = Inr (Inr (Some frame), st'') \<and>
     pt_inv (rv_paging L fo ops) ainv free pb root st'' \<and> (\<forall>va. vaddr_valid (fmt_target (rv_paging L fo ops)) va \<longrightarrow>
       translation (rv_paging L fo ops) pb root st'' va = translation (rv_paging L fo ops) pb root st va)"
  proof (rule page_tables.map_unmap [where map_page = "rv_map L fo ops alloc pb root" and un_page = "rv_unmap L fo ops pb root Size4KiB",
        OF P rv_map_eq [OF P assms(2,4)] assms(4) _ _ assms(6-9)], goal_cases)
    case (3 Q)
    show ?case
    proof (cases "L = Level4")
      case True
      then show ?thesis
        unfolding rv_ops(3) [OF True] by (intro page_tables.unmap_4_wp [where Q = Q, OF P assms(2) 3(1) _ 3(2-)]) simp_all
    next
      case False
      then have L: "L = Level3" by (cases L) simp_all
      then show ?thesis
        unfolding rv_ops(6) [OF L] by (intro page_tables.unmap_3_wp [where Q = Q, OF P assms(2) 3(1) _ 3(2-)]) simp_all
    qed
  qed (use assms(5) rv_levels_range [of L] in simp_all)
  then show ?thesis by simp
qed

end
