(* ===== verification/Processor_Walk.thy ===== *)
theory Processor_Walk
  imports Hal_X86_64 Hal_Riscv
begin

text \<open>
  The walks of the processors as the manuals of the architectures define them, from the raw bits of an
  entry and with no definition of the code: the Intel SDM (volume 3, 4-level paging) and the RISC-V
  privileged specification (Sv39 and Sv48).  The walks return the entry that ends them as well, whose
  bits decide what may be done with the page.  Proved is that the pages mapped by
  \<open>lib/hal_x86_64/src/paging.rs\<close> and \<open>lib/hal_riscv/src/paging.rs\<close> are found by them, at the frame and
  with the permissions that were asked for: the masks, the flags and the shifts of the code agree with the
  hardware.
\<close>

unbundle bit_operations_syntax

subsection \<open>Walks\<close>

text \<open>The bits of a word from \<open>lo\<close> up to \<open>hi\<close>, in their place.\<close>

definition between :: "nat \<Rightarrow> nat \<Rightarrow> u64 \<Rightarrow> u64" where
  "between lo hi e = push_bit lo (take_bit (hi - lo) (drop_bit lo e))"

text \<open>Bit 0 of an entry is its present bit and bit 7 of an entry above the last level is set for a large page,
  which the top level does not have.  The address is in bits 12 to 51, of which a large page has only those
  above its offset.\<close>

primrec x86_cpu_walk :: "vaddr \<Rightarrow> mem \<Rightarrow> nat \<Rightarrow> paddr \<Rightarrow> vaddr \<Rightarrow> (paddr \<times> u64) option" where
  "x86_cpu_walk pb m 0 f va = None"
| "x86_cpu_walk pb m (Suc l) f va =
     (let e = m (pb + f) (unat va div 2 ^ (12 + 9 * l) mod 512) in
        if \<not> bit e 0 then None
        else if l = 0 \<or> bit e 7 then
          (if l < 3 then Some (between (12 + 9 * l) 52 e OR take_bit (12 + 9 * l) va, e) else None)
        else x86_cpu_walk pb m l (between 12 52 e) va)"

text \<open>Bits 0 to 3 of an entry are its valid, readable, writable and executable bits.  An entry that is writable
  and not readable is reserved, and one that is neither readable nor executable leads to the next table.  The
  number of the page is in bits 10 to 53; a large page must be aligned.\<close>

primrec rv_cpu_walk :: "vaddr \<Rightarrow> mem \<Rightarrow> nat \<Rightarrow> paddr \<Rightarrow> vaddr \<Rightarrow> (paddr \<times> u64) option" where
  "rv_cpu_walk pb m 0 f va = None"
| "rv_cpu_walk pb m (Suc l) f va =
     (let e = m (pb + f) (unat va div 2 ^ (12 + 9 * l) mod 512) in
        if \<not> bit e 0 \<or> \<not> bit e 1 \<and> bit e 2 then None
        else if bit e 1 \<or> bit e 3 then
          (if take_bit (9 * l) (drop_bit 10 e) = 0
           then Some (push_bit 2 (between (10 + 9 * l) 54 e) OR take_bit (12 + 9 * l) va, e) else None)
        else rv_cpu_walk pb m l (push_bit 2 (between 10 54 e)) va)"

subsection \<open>Lemmas\<close>

lemma bit_between: "hi \<le> 64 \<Longrightarrow> bit (between lo hi e) k \<longleftrightarrow> lo \<le> k \<and> k < hi \<and> bit e k"
  by (auto simp: between_def bit_push_bit_iff bit_take_bit_iff bit_drop_bit_eq)

lemma idx_div: "idx l va = unat va div 2 ^ (12 + 9 * l) mod 512"
  by (simp add: idx_def index_word_def field_def unsigned_take_bit_eq drop_bit_unat take_bit_nat_def)

text \<open>A walk that follows the entries that lead to tables gets to the table at the end of a path.\<close>

lemma walk_down:
  assumes step: "\<And>k h g. 0 < k \<Longrightarrow> child fmt pb m h (idx k va) = Some g \<Longrightarrow> W (Suc k) h = W k g"
    and "walk fmt pb m root (path n k va) = Some g" and "k \<le> n" and "0 < k"
  shows "W n root = W k g"
  using assms(2-)
proof (induction "n - k" arbitrary: k g)
  case (Suc d)
  then have k: "k < n" "Suc k \<le> n" "d = n - Suc k" by simp_all
  then obtain h where h: "walk fmt pb m root (path n (Suc k) va) = Some h" "child fmt pb m h (idx k va) = Some g"
    using Suc.prems(1) by (auto simp: path_step walk_snoc bind_eq_Some_conv)
  show ?case using Suc.hyps(1) [OF k(3) h(1) k(2)] step [OF Suc.prems(3) h(2)] by simp
qed simp

text \<open>The address of a page and an offset in it.\<close>

lemma or_offset:
  fixes a b :: u64
  assumes "\<And>k. bit a k \<Longrightarrow> n \<le> k"
  shows "a OR take_bit n b = a + take_bit n b"
  using assms by (subst disjunctive_add) (auto simp: bit_take_bit_iff not_le [symmetric])

lemma aligned_bits:
  fixes a :: u64
  assumes "2 ^ n dvd unat a" and "bit a k"
  shows "n \<le> k"
proof (rule ccontr)
  assume "\<not> n \<le> k"
  moreover have "take_bit n (unat a) = 0" using assms(1) by (simp add: take_bit_eq_mod)
  ultimately have "\<not> bit (unat a) k" by (metis bit_0_eq bit_take_bit_iff bot_apply bot_bool_def not_le)
  then show False using assms(2) by (simp add: bit_unsigned_iff)
qed

context page_tables
begin

text \<open>The entry of a page that was mapped, on the path of each address of the page.\<close>

lemma mapped_entry:
  assumes map: "map_page s page frame fl =
      map_at fmt alloc pb (pb + root) (path_words (Suc (lev s)) page) (index_word (lev s) page) (fmt_mapping fmt s frame fl)"
    and inv: "inv st" and l: "3 \<le> levels" and page: "vaddr_valid (fmt_target fmt) page" "unat (SIZE s) dvd unat page"
    and frame: "unat (SIZE s) dvd unat frame" "frame_fits fmt pb frame"
    and run: "map_page s page frame fl st = Inr (Inr (), st')"
    and va: "vaddr_valid (fmt_target fmt) va" "va \<in> vrange page (unat (SIZE s))"
  obtains f where "at st' (path levels (Suc (lev s)) va) = Some f"
    "memory st' (pb + f) (idx (lev s) va) = fmt_mapping fmt s frame fl" "va - page = take_bit (12 + 9 * lev s) va"
proof -
  obtain f where f: "at st' (path levels (Suc (lev s)) page) = Some f" "memory st' (pb + f) (idx (lev s) page) = fmt_mapping fmt s frame fl"
    using map_partial(2) [where map_page = map_page, OF map inv l page frame run] by (auto simp: page_result_def)
  have c: "canon levels va" "canon levels page" using canonical va(1) page(1) by simp_all
  have lt: "lev s < levels" using lev_less [of s] l by simp
  note sp = same_page [OF c lt page(2) [unfolded SIZE_lev]]
  have eq: "path levels (lev s) va = path levels (lev s) page" using sp(1) va(2) by (simp add: SIZE_lev)
  have "va - page = take_bit (12 + 9 * lev s) va" using sp(2) [OF eq] by (simp add: diff_eq_eq add.commute)
  moreover have "path levels (Suc (lev s)) va = path levels (Suc (lev s)) page" "idx (lev s) va = idx (lev s) page"
    using path_step [OF lt] eq by simp_all
  ultimately show thesis using that [of f] f by simp
qed

end

subsection \<open>The formats of the code\<close>

context bitflags
begin

lemma x86_masked_between: "e AND x86_ADDRESS_MASK = between 12 52 e"
  by (auto simp: word_eq_bits bit_and_iff bit_between x86_bits)

lemma x86_cpu_step:
  assumes "0 < k" and "child (x86_format ops) pb m h (idx k va) = Some g"
  shows "x86_cpu_walk pb m (Suc k) h va = x86_cpu_walk pb m k g va"
  using assms by (auto simp: child_def x86_format_checks x86_entry_addr x86_masked_between Let_def idx_div split: if_splits)

lemma x86_fits_bits:
  assumes "frame_fits (x86_format ops) pb f" and "bit f k"
  shows "k < 52"
proof -
  have "fmt_table (x86_format ops) f AND x86_ADDRESS_MASK = f"
    using assms(1) by (auto simp: frame_fits_def x86_entry_addr split: if_splits)
  then show ?thesis using assms(2) by (metis bit_and_iff x86_mask_bits)
qed

lemma x86_mapping_bits:
  "bit (fmt_mapping (x86_format ops) s f fl) k \<longleftrightarrow> bit f k \<or> k = 0 \<or> k = 1 \<and> writable fl \<or> k = 63 \<and> \<not> executable fl \<or>
     k = 2 \<and> user_accessible fl \<or> k = 4 \<and> \<not> cached fl \<or> k = 7 \<and> s \<noteq> Size4KiB"
  by (auto simp: x86_format_def x86_set_bits union_law bit_or_iff x86_from_bits x86_bits)

end

context rv_entries
begin

lemma rv_ppn_between: "rv_ppn e = push_bit 2 (between 10 54 e)"
  by (auto simp: word_eq_bits bit_rv_ppn bit_push_bit_iff bit_between)

lemma rv_cpu_step:
  assumes "0 < k" and "child F pb m h (idx k va) = Some g"
  shows "rv_cpu_walk pb m (Suc k) h va = rv_cpu_walk pb m k g va"
  using assms by (auto simp: child_def rv_format_checks rv_entry_addr rv_ppn_between Let_def idx_div split: if_splits)

lemma rv_fits_bits: "frame_fits F pb f \<Longrightarrow> bit f k \<Longrightarrow> 12 \<le> k \<and> k < 56"
  by (simp add: frame_fits_def rv_table_bits)

lemma rv_mapping_bits:
  "bit (fmt_mapping F s f fl) k \<longleftrightarrow> bit f (k + 2) \<or> k = 0 \<or> k = 1 \<or> k = 2 \<and> writable fl \<or> k = 3 \<and> executable fl \<or>
     k = 4 \<and> user_accessible fl \<or> k = 6 \<or> k = 7"
  by (auto simp: rv_paging_eq rv_format_def rv_set_bits rv_from_bits)

end

subsection \<open>Properties\<close>

text \<open>C34: after \<open>map\<close> has mapped a page of any size on x86_64, the walk of the processor, as the manual
  defines it, takes every address of the page to its place in the frame, and the entry it ends with allows
  writing, allows execution, gives access to the user and allows caching exactly if the flags say so.\<close>

theorem x86_map_processor:
  assumes "bitflags fo" and "usize_bits ops" and "frame_source ainv free alloc good"
    and "pt_inv (x86_format fo) ainv free pb root st" and "vaddr_valid X86_64 page" and "unat (SIZE s) dvd unat page"
    and "unat (SIZE s) dvd unat frame" and "frame_fits (x86_format fo) pb frame"
    and "x86_map fo ops alloc pb root s page frame fl st = Inr (Inr (), st')"
    and "vaddr_valid X86_64 va" and "va \<in> vrange page (unat (SIZE s))"
  shows "\<exists>e. x86_cpu_walk pb (memory st') 4 root va = Some (frame + (va - page), e) \<and>
     (bit e 1 \<longleftrightarrow> writable fl) \<and> (bit e 63 \<longleftrightarrow> \<not> executable fl) \<and> (bit e 2 \<longleftrightarrow> user_accessible fl) \<and> (bit e 4 \<longleftrightarrow> \<not> cached fl)"
proof -
  note P = x86_page_tables [OF assms(1,3)]
  let ?F = "x86_format fo" and ?n = "12 + 9 * lev s"
  let ?e = "fmt_mapping ?F s frame fl"
  have v: "vaddr_valid (fmt_target ?F) page" "vaddr_valid (fmt_target ?F) va" "3 \<le> fmt_levels ?F" using assms(5,10) by simp_all
  obtain f where f: "walk ?F pb (memory st') root (path 4 (Suc (lev s)) va) = Some f"
    "memory st' (pb + f) (idx (lev s) va) = ?e" "va - page = take_bit ?n va"
    by (rule page_tables.mapped_entry [where map_page = "x86_map fo ops alloc pb root", OF P x86_map_eq [OF P assms(2,4)]
          assms(4) v(3,1) assms(6-9) v(2) assms(11)]) (simp add: that)
  have W: "x86_cpu_walk pb (memory st') 4 root va = x86_cpu_walk pb (memory st') (Suc (lev s)) f va"
    using lev_less [of s]
    by (intro walk_down [where W = "\<lambda>k h. x86_cpu_walk pb (memory st') k h va", OF bitflags.x86_cpu_step [OF assms(1)] f(1)]) simp_all
  note e = bitflags.x86_mapping_bits [OF assms(1)]
  have fr: "?n \<le> k \<and> k < 52" if "bit frame k" for k
    using bitflags.x86_fits_bits [OF assms(1,8) that] aligned_bits [OF assms(7) [unfolded SIZE_lev] that] by simp
  have a: "between ?n 52 ?e = frame" using fr by (auto simp: word_eq_bits bit_between e)
  have "frame OR take_bit ?n va = frame + (va - page)" unfolding f(3) using fr by (intro or_offset) simp
  then have "x86_cpu_walk pb (memory st') 4 root va = Some (frame + (va - page), ?e)"
    using lev_less [of s] f(2) a unfolding W by (auto simp: Let_def e lev_def simp flip: idx_div split: frame_size.splits)
  moreover have "\<not> bit frame k" if "k < 12 \<or> k = 63" for k using fr [of k] that by auto
  ultimately show ?thesis by (auto simp: e)
qed

theorem x86_map_processor_witness:
  "\<exists>st' e. x86_map word_flag_ops word_bit_ops (pmm_allocate X86_64 Size4KiB) 0 blank_root Size2MiB 0x40000000 0x200000 flags_default blank_paging
       = Inr (Inr (), st') \<and> x86_cpu_walk 0 (memory st') 4 blank_root 0x40000123 = Some (0x200123, e) \<and> \<not> bit e 1 \<and> bit e 63"
proof -
  have fit: "frame_fits (x86_format word_flag_ops) 0 0x200000" by (rule x86_blank.low_fits) simp_all
  have v: "vaddr_valid X86_64 0x40000000" "vaddr_valid X86_64 0x40000123" by (rule vaddr_new_low; simp)+
  obtain st' where st': "x86_map word_flag_ops word_bit_ops (pmm_allocate X86_64 Size4KiB) 0 blank_root Size2MiB 0x40000000 0x200000
      flags_default blank_paging = Inr (Inr (), st')"
    using x86_blank_run [OF v(1), of Size2MiB "0x200000" flags_default] by auto
  then show ?thesis
    using x86_map_processor [OF x86_parts v(1) _ _ fit st' v(2)] by (auto simp: flags_default_def)
qed

text \<open>C39: after \<open>map\<close> has mapped a page of any size on RISC-V, with either number of levels, the walk of the
  processor, as the privileged specification defines it, takes every address of the page to its place in the
  frame, and the entry it ends with is readable, is writable, executable and accessible to the user exactly if
  the flags say so, and has its accessed and dirty bits set.\<close>

theorem rv_map_processor:
  assumes "bitflags fo" and "usize_bits ops" and "frame_source ainv free alloc good"
    and "pt_inv (rv_paging L fo ops) ainv free pb root st" and "vaddr_valid (rv_target L) page" and "unat (SIZE s) dvd unat page"
    and "unat (SIZE s) dvd unat frame" and "frame_fits (rv_paging L fo ops) pb frame"
    and "rv_map L fo ops alloc pb root s page frame fl st = Inr (Inr (), st')"
    and "vaddr_valid (rv_target L) va" and "va \<in> vrange page (unat (SIZE s))"
  shows "\<exists>e. rv_cpu_walk pb (memory st') (rv_levels L) root va = Some (frame + (va - page), e) \<and>
     bit e 1 \<and> (bit e 2 \<longleftrightarrow> writable fl) \<and> (bit e 3 \<longleftrightarrow> executable fl) \<and> (bit e 4 \<longleftrightarrow> user_accessible fl) \<and> bit e 6 \<and> bit e 7"
proof -
  note P = rv_page_tables [OF assms(1-3)]
  have R: "rv_entries fo ops" using assms(1,2) by (intro rv_entries.intro rv_entries_axioms.intro)
  let ?F = "rv_paging L fo ops" and ?n = "12 + 9 * lev s"
  let ?e = "fmt_mapping ?F s frame fl"
  have v: "vaddr_valid (fmt_target ?F) page" "vaddr_valid (fmt_target ?F) va" "3 \<le> fmt_levels ?F"
    using assms(5,10) rv_levels_range by simp_all
  obtain f where f: "walk ?F pb (memory st') root (path (rv_levels L) (Suc (lev s)) va) = Some f"
    "memory st' (pb + f) (idx (lev s) va) = ?e" "va - page = take_bit ?n va"
    by (rule page_tables.mapped_entry [where map_page = "rv_map L fo ops alloc pb root", OF P rv_map_eq [OF P assms(2,4)]
          assms(4) v(3,1) assms(6-9) v(2) assms(11)]) (simp add: that)
  have W: "rv_cpu_walk pb (memory st') (rv_levels L) root va = rv_cpu_walk pb (memory st') (Suc (lev s)) f va"
    using lev_less [of s] rv_levels_range(1) [of L]
    by (intro walk_down [where W = "\<lambda>k h. rv_cpu_walk pb (memory st') k h va", OF rv_entries.rv_cpu_step [OF R] f(1)]) simp_all
  note e = rv_entries.rv_mapping_bits [OF R]
  have fr: "?n \<le> k \<and> k < 56" if "bit frame k" for k
    using rv_entries.rv_fits_bits [OF R assms(8) that] aligned_bits [OF assms(7) [unfolded SIZE_lev] that] by simp
  have low: "\<not> bit frame k" if "k < ?n" for k using fr [of k] that by auto
  have a: "push_bit 2 (between (10 + 9 * lev s) 54 ?e) = frame"
    unfolding word_eq_bits
  proof
    fix k
    show "bit (push_bit 2 (between (10 + 9 * lev s) 54 ?e)) k \<longleftrightarrow> bit frame k"
    proof (cases "?n \<le> k")
      case True
      then have "k - 2 + 2 = k" "\<not> k - 2 < 10" by simp_all
      then show ?thesis using True fr [of k] by (auto simp: bit_push_bit_iff bit_between e)
    qed (use fr [of k] in \<open>auto simp: bit_push_bit_iff bit_between\<close>)
  qed
  have z: "take_bit (9 * lev s) (drop_bit 10 ?e) = 0"
    using low by (auto simp: word_eq_bits bit_take_bit_iff bit_drop_bit_eq e)
  have "frame OR take_bit ?n va = frame + (va - page)" unfolding f(3) using fr by (intro or_offset) simp
  then have "rv_cpu_walk pb (memory st') (rv_levels L) root va = Some (frame + (va - page), ?e)"
    using f(2) a z unfolding W by (simp add: Let_def e flip: idx_div)
  then show ?thesis using low [of 4] low [of 5] low [of 6] by (simp add: e)
qed

theorem rv_map_processor_witness:
  "\<exists>st' e. rv_map Level3 word_flag_ops word_bit_ops (pmm_allocate MqPro Size4KiB) 0 blank_root Size2MiB 0x40000000 0x200000 flags_default blank_paging
       = Inr (Inr (), st') \<and> rv_cpu_walk 0 (memory st') 3 blank_root 0x40000123 = Some (0x200123, e) \<and> bit e 1 \<and> \<not> bit e 2"
proof -
  have fit: "frame_fits (rv_paging Level3 word_flag_ops word_bit_ops) 0 0x200000" by (rule rv_blank.low_fits) simp_all
  have v: "vaddr_valid (rv_target Level3) 0x40000000" "vaddr_valid (rv_target Level3) 0x40000123"
    by (rule vaddr_new_low; simp)+
  obtain st' where st': "rv_map Level3 word_flag_ops word_bit_ops (pmm_allocate (rv_target Level3) Size4KiB) 0 blank_root Size2MiB 0x40000000 0x200000
      flags_default blank_paging = Inr (Inr (), st')"
    using rv_blank_run [OF v(1), of Size2MiB "0x200000" flags_default] by auto
  then show ?thesis
    using rv_map_processor [where L = Level3, OF rv_parts v(1) _ _ fit st' v(2)] by (auto simp: flags_default_def)
qed

end
