(* ===== verification/Area_Termination.thy ===== *)
theory Area_Termination
  imports Area_Mapping
begin

text \<open>
  The loop of \<open>map_area\<close> always ends: whatever the mapping of a page does, the cursor only moves up.  The
  sum of an address and an offset is made canonical again, which could move it down; it does not here,
  because the cursor stays at or below the end of the area or below the next boundary of 2MiB.
\<close>

lemma sext_low: "unat a < 2 ^ h \<Longrightarrow> signed_take_bit h a = a" for a :: usize
proof -
  assume "unat a < 2 ^ h"
  then have "take_bit h a = a" by (rule take_bit_unat_small)
  then have "\<not> bit a h" by (metis bit_take_bit_iff less_irrefl)
  with \<open>take_bit h a = a\<close> show ?thesis by (simp add: signed_take_bit_eq_if_positive)
qed

lemma div_top:
  fixes u d q :: nat
  assumes "u < d * q" and "0 < d" and "0 < q"
  shows "u div d = q - 1 \<longleftrightarrow> d * q - d \<le> u"
proof -
  obtain p where q: "q = Suc p" using assms(3) by (cases q) simp_all
  have "d * p \<le> u \<longleftrightarrow> p \<le> u div d" using assms(2) by (simp add: less_eq_div_iff_mult_less_eq mult.commute)
  moreover have "u div d < Suc p" using assms by (simp add: q less_mult_imp_div_less mult.commute)
  ultimately show ?thesis by (auto simp: q)
qed

lemma top_bits:
  fixes a :: usize
  assumes "h < 64"
  shows "(\<forall>k. h \<le> k \<and> k < 64 \<longrightarrow> bit a k) \<longleftrightarrow> 2 ^ 64 - 2 ^ h \<le> unat a"
proof -
  have "(\<forall>k. h \<le> k \<and> k < 64 \<longrightarrow> bit a k) \<longleftrightarrow> drop_bit h a = mask (64 - h)"
  proof
    assume all: "\<forall>k. h \<le> k \<and> k < 64 \<longrightarrow> bit a k"
    show "drop_bit h a = mask (64 - h)"
      using all by (intro bit_word_eqI) (auto simp: bit_drop_bit_eq bit_mask_iff dest: bit_imp_le_length)
  next
    assume d: "drop_bit h a = mask (64 - h)"
    show "\<forall>k. h \<le> k \<and> k < 64 \<longrightarrow> bit a k"
    proof (intro allI impI)
      fix k assume k: "h \<le> k \<and> k < 64"
      have "bit (drop_bit h a) (k - h)" unfolding d bit_mask_iff using k by auto
      then show "bit a k" using k by (simp add: bit_drop_bit_eq)
    qed
  qed
  also have "\<dots> \<longleftrightarrow> unat a div 2 ^ h = 2 ^ (64 - h) - 1"
  proof -
    have "unat (mask (64 - h) :: usize) = nat (2 ^ (64 - h) - 1)"
      unfolding unat_eq_nat_uint uint_mask_eq by (simp add: mask_eq_exp_minus_1)
    also have "\<dots> = 2 ^ (64 - h) - 1" by (simp add: nat_diff_distrib nat_power_eq)
    finally show ?thesis unfolding word_unat_eq_iff drop_bit_unat by simp
  qed
  also have "\<dots> \<longleftrightarrow> 2 ^ 64 - 2 ^ h \<le> unat a"
  proof -
    have e: "(2::nat) ^ h * 2 ^ (64 - h) = 2 ^ 64" using assms by (simp flip: power_add)
    have "unat a < 2 ^ h * 2 ^ (64 - h)" unfolding e using unsigned_less [where ?'a = nat, of a] by simp
    then show ?thesis using div_top [of "unat a" "2 ^ h" "2 ^ (64 - h)"] unfolding e by simp
  qed
  finally show ?thesis .
qed

lemma bit_sext: "k < 64 \<Longrightarrow> bit (signed_take_bit h a :: usize) k \<longleftrightarrow> bit a (min h k)"
  by (simp add: bit_signed_take_bit_iff)

lemma sext_high:
  fixes a :: usize
  assumes "h < 64" and "2 ^ 64 - 2 ^ h \<le> unat a"
  shows "signed_take_bit h a = a"
proof (rule bit_word_eqI)
  fix k assume "k < LENGTH(64)"
  then have k: "k < 64" by simp
  have "\<forall>k. h \<le> k \<and> k < 64 \<longrightarrow> bit a k" using top_bits [OF assms(1)] assms(2) by blast
  then show "bit (signed_take_bit h a) k = bit a k" unfolding bit_sext [OF k] using assms(1) k by (cases "h \<le> k") (simp_all add: min_def)
qed

lemma sext_negative:
  fixes a :: usize
  assumes "h < 64" and "bit a h"
  shows "2 ^ 64 - 2 ^ h \<le> unat (signed_take_bit h a)"
  unfolding top_bits [OF assms(1), symmetric] using assms bit_sext by auto

lemma sext_cases:
  fixes a :: usize
  assumes "signed_take_bit h a = a" and "h < 64"
  shows "unat a < 2 ^ h \<or> 2 ^ 64 - 2 ^ h \<le> unat a"
proof (cases "bit a h")
  case True
  then show ?thesis using sext_negative [OF assms(2) True] assms(1) by simp
next
  case False
  then have "a = take_bit h a" using assms(1) by (simp add: signed_take_bit_eq_if_positive)
  then show ?thesis by (metis take_bit_nat_less_exp unsigned_take_bit_eq)
qed

subsection \<open>Canonical addresses\<close>

definition sign_bit :: "target \<Rightarrow> nat" where
  "sign_bit t = (if t = MqPro then 38 else 47)"

lemma sign_bit_range: "30 \<le> sign_bit t" "sign_bit t < 64"
  by (simp_all add: sign_bit_def)

lemma vaddr_new_sext: "t \<noteq> OtherTarget \<Longrightarrow> vaddr_new t a = signed_take_bit (sign_bit t) a"
  by (cases t) (simp_all add: vaddr_new_def canonicalise_sv48 canonicalise_sv39 sign_bit_def)

text \<open>An address that is at most one below the sign bit or in the upper half does not move down.\<close>

lemma vaddr_new_up:
  assumes "unat a \<le> 2 ^ sign_bit t \<or> 2 ^ 64 - 2 ^ sign_bit t \<le> unat a"
  shows "a \<le> vaddr_new t a"
proof (cases "t = OtherTarget")
  case True
  then show ?thesis by (simp add: vaddr_new_def canonicalise_def)
next
  case False
  note h = sign_bit_range(2) [of t]
  consider "unat a < 2 ^ sign_bit t" | "unat a = 2 ^ sign_bit t" | "2 ^ 64 - 2 ^ sign_bit t \<le> unat a" using assms by linarith
  then show ?thesis
  proof cases
    case 2
    then have "a = 2 ^ sign_bit t" using h by (simp add: word_unat_eq_iff unat_power_two)
    then have "bit a (sign_bit t)" using h by (simp add: bit_exp_iff)
    from sext_negative [OF h this] have "2 ^ 64 - 2 ^ sign_bit t \<le> unat (vaddr_new t a)" by (simp add: vaddr_new_sext [OF False])
    moreover have "(2::nat) ^ sign_bit t \<le> 2 ^ 64 - 2 ^ sign_bit t" by (simp add: sign_bit_def)
    ultimately show ?thesis using 2 by (simp add: word_le_nat_alt)
  qed (simp_all add: vaddr_new_sext [OF False] sext_low sext_high [OF h])
qed

lemma canonical_cases:
  assumes "vaddr_valid t a" and "t \<noteq> OtherTarget"
  shows "unat a < 2 ^ sign_bit t \<or> 2 ^ 64 - 2 ^ sign_bit t \<le> unat a"
  using assms sext_cases [OF _ sign_bit_range(2)] by (simp add: vaddr_new_sext)

lemma sbind_Inr: "sbind m f k = Inr (Inr y, k') \<longleftrightarrow> (\<exists>x k1. m k = Inr (Inr x, k1) \<and> f x k1 = Inr (Inr y, k'))"
proof (cases "m k")
  case (Inr p)
  then show ?thesis by (cases p; cases "fst p") (auto simp: sbind_def)
qed (simp add: sbind_def)

lemma slift_Inr: "slift r k = Inr (Inr x, k') \<longleftrightarrow> r = Inr x \<and> k' = k"
  by (auto simp: slift_def rust_simps)

lemma map_bytes_end: "map_bytes t map_page s cursor phys n fl st = Inr (Inr c, st') \<Longrightarrow> vaddr_add t cursor n = Inr c"
  by (auto simp: map_bytes_def sbind_Inr slift_Inr)

subsection \<open>The loop\<close>

lemma sum_up:
  assumes "vaddr_add t c n = Inr c'" and "0 < unat n"
    and "unat c + unat n \<le> 2 ^ sign_bit t \<or> 2 ^ 64 - 2 ^ sign_bit t \<le> unat c + unat n"
  shows "c < c'" "vaddr_valid t c'"
proof -
  have s: "unat c + unat n < 2 ^ 64" "c' = vaddr_new t (c + n)" using assms(1) by (auto simp: vaddr_add_def rust_simps)
  then have u: "unat (c + n) = unat c + unat n" by (intro unat_add_no_overflow) simp
  have "c + n \<le> c'" unfolding s(2) by (rule vaddr_new_up) (use assms(3) u in simp)
  then show "c < c'" using u assms(2) by (simp add: word_le_nat_alt word_less_nat_alt)
  show "vaddr_valid t c'" unfolding s(2) by simp
qed

lemma aligned_up:
  assumes t: "t \<noteq> OtherTarget" and c: "c < e" "unat (SIZE s) dvd unat c" and e: "vaddr_valid t e" and big: "SIZE s \<le> e - c"
    and n: "align_down (e - c) (SIZE s) = Inr n" and sum: "vaddr_add t c n = Inr c'"
  shows "c < c'" "vaddr_valid t c'"
proof -
  let ?S = "unat (SIZE s)"
  have d: "unat (e - c) = unat e - unat c" using c(1) by (simp add: unat_sub word_less_nat_alt word_le_nat_alt)
  have e64: "unat e - unat c < 2 ^ 64" "unat e < 2 ^ 64" 
    using unsigned_less [where ?'a = nat, of e] by (simp_all add: less_imp_diff_less)
  have "of_nat (unat (e - c)) = e - c" by simp
  then have "align_down (e - c) (SIZE s) = Inr (of_nat ((unat e - unat c) div ?S * ?S))"
    using align_down_left [of "unat e - unat c" s] e64 unfolding d by simp
  then have n': "n = of_nat ((unat e - unat c) div ?S * ?S)" using n by simp
  have "(unat e - unat c) div ?S * ?S \<le> unat e - unat c" by simp
  then have un: "unat n = (unat e - unat c) div ?S * ?S"
    unfolding n' using e64(1) by (intro unat_of_nat_small) linarith
  have "?S \<le> unat e - unat c" using big d by (simp add: word_le_nat_alt)
  then have pos: "0 < unat n" unfolding un using SIZE_pos [of s] by (simp add: div_greater_zero_iff)
  obtain q where q: "unat c = ?S * q" using c(2) by (elim dvdE)
  have "unat c + unat n = unat e div ?S * ?S"
  proof -
    have "?S * q \<le> unat e" using c(1) q by (simp add: word_less_nat_alt)
    then obtain r where r: "unat e = ?S * q + r" using le_Suc_ex by blast
    then show ?thesis unfolding un q using SIZE_pos [of s] by (simp add: algebra_simps)
  qed
  moreover have "unat e div ?S * ?S \<le> 2 ^ sign_bit t \<or> 2 ^ 64 - 2 ^ sign_bit t \<le> unat e div ?S * ?S"
  proof (cases "unat e < 2 ^ sign_bit t")
    case True
    then have "unat e div ?S * ?S \<le> 2 ^ sign_bit t" using div_times_less_eq_dividend [of "unat e" ?S] by (rule order.strict_implies_order [OF le_less_trans, rotated])
    then show ?thesis by simp
  next
    case False
    then have hi: "2 ^ 64 - 2 ^ sign_bit t \<le> unat e" using canonical_cases [OF e t] by simp
    have "?S dvd 2 ^ sign_bit t" "?S dvd 2 ^ 64"
      unfolding SIZE_lev using lev_less [of s] sign_bit_range [of t] by (intro le_imp_power_dvd; simp)+
    then have "?S dvd 2 ^ 64 - 2 ^ sign_bit t" by (rule dvd_diff_nat [rotated])
    then obtain q where q: "2 ^ 64 - 2 ^ sign_bit t = ?S * q" by (elim dvdE)
    then have "q \<le> unat e div ?S" using hi SIZE_pos [of s] by (simp add: less_eq_div_iff_mult_less_eq mult.commute)
    then show ?thesis unfolding q by (simp add: mult.commute)
  qed
  ultimately show "c < c'" "vaddr_valid t c'" using sum_up [OF sum pos] by simp_all
qed

lemma boundary_up:
  assumes t: "t \<noteq> OtherTarget" and p: "vaddr_valid t p" and b: "vaddr_align_up p (SIZE Size2MiB) = Inr b"
  shows "p \<le> b" "unat b \<le> 2 ^ sign_bit t \<or> 2 ^ 64 - 2 ^ sign_bit t \<le> unat b"
proof -
  have "unat p + 2 ^ 21 < 2 ^ 64" using b by (auto simp: vaddr_align_up_def rust_simps)
  then have u: "unat b = (unat p + 2 ^ 21 - 1) div 2 ^ 21 * 2 ^ 21" using next_boundary [of p] b by auto
  have "x \<le> (x + 2 ^ 21 - 1) div 2 ^ 21 * 2 ^ 21" for x :: nat by simp
  then have le: "unat p \<le> unat b" unfolding u .
  then show "p \<le> b" by (simp add: word_le_nat_alt)
  show "unat b \<le> 2 ^ sign_bit t \<or> 2 ^ 64 - 2 ^ sign_bit t \<le> unat b"
  proof (cases "unat p < 2 ^ sign_bit t")
    case True
    have "(2::nat) ^ 21 dvd 2 ^ sign_bit t" using sign_bit_range [of t] by (simp only: le_imp_power_dvd)
    then obtain q where q: "(2::nat) ^ sign_bit t = 2 ^ 21 * q" by (elim dvdE)
    then have "unat p + 2 ^ 21 - 1 < Suc q * 2 ^ 21" using True by simp
    then have "(unat p + 2 ^ 21 - 1) div 2 ^ 21 < Suc q" by (rule less_mult_imp_div_less)
    then show ?thesis unfolding u q by simp
  next
    case False
    then show ?thesis using canonical_cases [OF p t] le by linarith
  qed
qed

lemma step_up:
  assumes t: "t \<noteq> OtherTarget" and c: "vaddr_valid t c" "c < e" and e: "vaddr_valid t e"
    and step: "map_area_step t map_page vs ps e fl c st = Inr (Inr c', st')"
  shows "c < c'" "vaddr_valid t c'"
proof -
  have "(\<exists>s n. s \<noteq> Size4KiB \<and> unat (SIZE s) dvd unat c \<and> SIZE s \<le> e - c \<and> align_down (e - c) (SIZE s) = Inr n \<and> vaddr_add t c n = Inr c') \<or>
      (\<exists>p b. vaddr_add t c 1 = Inr p \<and> vaddr_align_up p (SIZE Size2MiB) = Inr b \<and> c \<le> b \<and> vaddr_add t c (min (b - c) (e - c)) = Inr c')"
    using step unfolding map_area_step_def sbind_Inr slift_Inr fits_page_eq rust_simps
    by (auto dest!: map_bytes_end simp: sbind_Inr slift_Inr rust_simps fits_page_eq split: if_splits simp del: SIZE.simps)
  then have "c < c' \<and> vaddr_valid t c'"
  proof (elim disjE exE conjE)
    fix s n assume "unat (SIZE s) dvd unat c" "SIZE s \<le> e - c" "align_down (e - c) (SIZE s) = Inr n" "vaddr_add t c n = Inr c'"
    then show ?thesis using aligned_up [OF t c(2) _ e] by blast
  next
    fix p b assume p: "vaddr_add t c 1 = Inr p" and b: "vaddr_align_up p (SIZE Size2MiB) = Inr b" "c \<le> b"
      and s: "vaddr_add t c (min (b - c) (e - c)) = Inr c'"
    have "unat c + unat (1 :: usize) \<le> 2 ^ sign_bit t \<or> 2 ^ 64 - 2 ^ sign_bit t \<le> unat c + unat (1 :: usize)"
      using canonical_cases [OF c(1) t] by auto
    note p' = sum_up [OF p _ this]
    note b' = boundary_up [OF t _ b(1)]
    have cb: "c < b" using p' b' by simp
    have m: "unat c + unat (min (b - c) (e - c)) = min (unat b) (unat e)"
      using cb c(2) by (auto simp: min_def unat_sub word_le_nat_alt word_less_nat_alt)
    have "0 < unat (min (b - c) (e - c))" using m cb c(2) by (simp add: word_less_nat_alt)
    moreover have "min (unat b) (unat e) \<le> 2 ^ sign_bit t \<or> 2 ^ 64 - 2 ^ sign_bit t \<le> min (unat b) (unat e)"
      using b' p' canonical_cases [OF e t] by (auto simp: min_def)
    ultimately show ?thesis using sum_up [OF s] m by simp
  qed
  then show "c < c'" "vaddr_valid t c'" by simp_all
qed

lemma loop_returns:
  assumes t: "t \<noteq> OtherTarget" and e: "vaddr_valid t e" and c: "vaddr_valid t c"
  shows "map_area_loop t map_page vs ps e fl c st \<noteq> None"
  using c
proof (induction "2 ^ 64 - unat c" arbitrary: c st rule: less_induct)
  case less
  show ?case
  proof (cases "c < e")
    case True
    show ?thesis
    proof (cases "map_area_step t map_page vs ps e fl c st")
      case (Inl p)
      then show ?thesis using True by (simp add: map_area_loop.simps [of t map_page vs ps e fl c])
    next
      case (Inr r)
      show ?thesis
      proof (cases "fst r")
        case (Inl x)
        then show ?thesis using Inr True by (simp add: map_area_loop.simps [of t map_page vs ps e fl c])
      next
        case c': (Inr c')
        then have "map_area_step t map_page vs ps e fl c st = Inr (Inr c', snd r)" using Inr by (metis prod.collapse)
        note up = step_up [OF t less.prems True e this]
        have "unat c < unat c'" "unat c' < 2 ^ 64" using up(1) unsigned_less [where ?'a = nat, of c'] by (simp_all add: word_less_nat_alt)
        then have "map_area_loop t map_page vs ps e fl c' (snd r) \<noteq> None" by (intro less.hyps up) simp
        then show ?thesis using Inr c' True by (simp add: map_area_loop.simps [of t map_page vs ps e fl c])
      qed
    qed
  qed (simp add: map_area_loop.simps [of t map_page vs ps e fl c])
qed

text \<open>C19: the mapping of an area always ends, with a result, an error or a panic, whatever the area is and
  whatever the mapping of one page does.\<close>

theorem map_area_returns:
  assumes "t \<noteq> OtherTarget" and "vaddr_valid t virtual_start"
  shows "\<exists>r. pt_map_area t map_page virtual_start physical_start bytes fl st = Some r"
proof -
  have "\<exists>r. map_area_loop t map_page virtual_start physical_start e fl virtual_start st = Some r"
    if "vaddr_add t virtual_start bytes = Inr e" for e
  proof -
    have "vaddr_valid t e" using that by (auto simp: vaddr_add_def rust_simps)
    from loop_returns [OF assms(1) this assms(2)] show ?thesis by blast
  qed
  then show ?thesis by (auto simp: pt_map_area_def split: sum.splits)
qed

theorem map_area_returns_witness:
  "\<exists>r. pt_map_area X86_64 (\<lambda>s page frame fl. sfail AlreadyMapped) 0xffffffff80000000 0x80000000 0x400000 flags_default
     \<lparr>memory = (\<lambda>_ _. 0), frames = ()\<rparr> = Some r"
proof -
  have "vaddr_valid X86_64 0xffffffff80000000" by (simp add: vaddr_new_def canonicalise_def SIGN_EXTENSION_48_def)
  then show ?thesis by (intro map_area_returns) simp_all
qed

end
