(* ===== verification/Kernel_Slab.thy ===== *)
theory Kernel_Slab
  imports Mulch_Bitmap Hal_Memory
begin

text \<open>
  \<open>kernel/src/vmm/slab_allocator.rs\<close>: slabs of one size in an area of virtual memory, with a bitmap of
  those in use.  Proved are that a slab is given out once, lies in the area and can be given back.
  The bitmap covers whole bytes only: an area of fewer than eight slabs has none at all, and \<open>alloc\<close>
  panics.
\<close>

record slab_allocator =
  slab_bottom :: vaddr
  slab_top :: vaddr
  slab_size :: usize
  slab_bitmap :: "u8 list"

definition slab_new :: "vaddr \<Rightarrow> vaddr \<Rightarrow> usize \<Rightarrow> panic + slab_allocator" where
  "slab_new bottom_addr top_addr sz =
     rbind (usub top_addr bottom_addr) (\<lambda>n.
     rbind (ceiling_integer_divide n sz) (\<lambda>c.
     rbind (udiv c 8) (\<lambda>num_bytes_needed.
       Inr \<lparr>slab_bottom = bottom_addr, slab_top = top_addr, slab_size = sz,
            slab_bitmap = replicate (unat num_bytes_needed) 0\<rparr>)))"

definition slab_alloc :: "(u8 list, u8) bit_ops \<Rightarrow> target \<Rightarrow> slab_allocator \<Rightarrow> panic + (vaddr option \<times> slab_allocator)" where
  "slab_alloc ops t s =
     rbind (slice_alloc ops (slab_bitmap s) 1) (\<lambda>(r, bs).
       case r of
         None \<Rightarrow> Inr (None, s\<lparr>slab_bitmap := bs\<rparr>)
       | Some i \<Rightarrow>
           rbind (umul (of_nat i) (slab_size s)) (\<lambda>off.
           rbind (vaddr_add t (slab_bottom s) off) (\<lambda>a. Inr (Some a, s\<lparr>slab_bitmap := bs\<rparr>))))"

definition slab_free :: "(u8 list, u8) bit_ops \<Rightarrow> vaddr \<Rightarrow> slab_allocator \<Rightarrow> panic + slab_allocator" where
  "slab_free ops start s =
     rbind (usub start (slab_bottom s)) (\<lambda>d.
     rbind (urem d (slab_size s)) (\<lambda>m.
     rbind (rassert (m = 0)) (\<lambda>_.
     rbind (usub start (slab_bottom s)) (\<lambda>d.
     rbind (udiv d (slab_size s)) (\<lambda>index.
     rbind (slice_free ops (slab_bitmap s) (unat index) 1) (\<lambda>bs. Inr (s\<lparr>slab_bitmap := bs\<rparr>)))))))"

subsection \<open>Properties\<close>

text \<open>The area is in one half of the address space, and all slabs but the last lie in it.\<close>

definition slab_ok :: "target \<Rightarrow> slab_allocator \<Rightarrow> bool" where
  "slab_ok t s \<longleftrightarrow> 0 < slab_size s \<and> slab_bitmap s \<noteq> [] \<and>
     unat (slab_bottom s) + (8 * length (slab_bitmap s) - 1) * unat (slab_size s) \<le> unat (slab_top s) \<and>
     (\<forall>a. unat (slab_bottom s) \<le> unat a \<and> unat a \<le> unat (slab_top s) \<longrightarrow> vaddr_valid t a)"

definition slab_at :: "slab_allocator \<Rightarrow> nat \<Rightarrow> nat set" where
  "slab_at s i = {unat (slab_bottom s) + i * unat (slab_size s) ..< unat (slab_bottom s) + Suc i * unat (slab_size s)}"

definition slabs_used :: "slab_allocator \<Rightarrow> nat set" where
  "slabs_used s = {i. bytes_bit (slab_bitmap s) i}"

lemma slab_new_eq:
  assumes "bottom_addr \<le> top_addr" and "0 < sz"
  shows "\<exists>s. slab_new bottom_addr top_addr sz = Inr s \<and> slab_bottom s = bottom_addr \<and> slab_top s = top_addr \<and> slab_size s = sz \<and>
    slab_bitmap s = replicate ((unat (top_addr - bottom_addr) + unat sz - 1) div unat sz div 8) 0"
proof -
  have "sz \<noteq> 0" using assms(2) by auto
  then obtain c where "ceiling_integer_divide (top_addr - bottom_addr) sz = Inr c"
      "unat c = (unat (top_addr - bottom_addr) + unat sz - 1) div unat sz"
    using ceiling_integer_divide_spec by blast
  then show ?thesis using assms by (simp add: slab_new_def usub_def udiv_def unat_div)
qed

lemma unused_replicate: "\<not> bytes_bit (replicate n 0) k"
  by (simp add: bytes_bit_def)

text \<open>A new allocator with at least eight slabs is well formed and has no slab in use.\<close>

lemma slab_new_ok:
  assumes "bottom_addr \<le> top_addr" and "0 < sz" and "7 * unat sz < unat (top_addr - bottom_addr)"
    and "\<And>a. unat bottom_addr \<le> unat a \<Longrightarrow> unat a \<le> unat top_addr \<Longrightarrow> vaddr_valid t a"
  shows "\<exists>s. slab_new bottom_addr top_addr sz = Inr s \<and> slab_ok t s \<and> slabs_used s = {}"
proof -
  let ?n = "unat (top_addr - bottom_addr)"
  define c where "c = (?n + unat sz - 1) div unat sz"
  have sz: "0 < unat sz" using assms(2) by (simp add: word_less_nat_alt)
  have n: "?n = unat top_addr - unat bottom_addr" "unat bottom_addr \<le> unat top_addr"
    using assms(1) by (simp_all add: unat_sub word_le_nat_alt)
  have "8 * unat sz \<le> ?n + unat sz - 1" using assms(3) by simp
  then have "8 * unat sz div unat sz \<le> c" unfolding c_def by (rule div_le_mono)
  then have c8: "8 \<le> c" using sz by simp
  have "c * unat sz \<le> ?n + unat sz - 1" unfolding c_def by simp
  then have "(c - 1) * unat sz \<le> ?n" using sz by (simp add: diff_mult_distrib)
  moreover have "8 * (c div 8) - 1 \<le> c - 1" by simp
  ultimately have "(8 * (c div 8) - 1) * unat sz \<le> ?n" by (meson le_trans mult_le_mono1)
  then have le: "unat bottom_addr + (8 * (c div 8) - 1) * unat sz \<le> unat top_addr" using n by linarith
  obtain s where s: "slab_new bottom_addr top_addr sz = Inr s" "slab_bottom s = bottom_addr" "slab_top s = top_addr"
      "slab_size s = sz" "slab_bitmap s = replicate (c div 8) 0"
    using slab_new_eq [OF assms(1,2)] unfolding c_def by blast
  moreover have "slab_ok t s" using s(2-) c8 le assms(2,4) by (simp add: slab_ok_def div_eq_0_iff)
  moreover have "slabs_used s = {}" using s(5) by (simp add: slabs_used_def unused_replicate)
  ultimately show ?thesis by blast
qed

text \<open>In an area for fewer than eight slabs there is no bitmap, and \<open>alloc\<close> panics.\<close>

lemma slab_new_small:
  assumes "bottom_addr \<le> top_addr" and "0 < sz" and "unat (top_addr - bottom_addr) \<le> 7 * unat sz"
  shows "\<exists>s. slab_new bottom_addr top_addr sz = Inr s \<and> slab_alloc ops t s = Inl Overflow"
proof -
  let ?n = "unat (top_addr - bottom_addr)"
  have "0 < unat sz" using assms(2) by (simp add: word_less_nat_alt)
  then have "?n + unat sz - 1 < 8 * unat sz" using assms(3) by simp
  then have "(?n + unat sz - 1) div unat sz < 8" by (rule less_mult_imp_div_less)
  then have "(?n + unat sz - 1) div unat sz div 8 = 0" by simp
  then show ?thesis
    using slab_new_eq [OF assms(1,2)] by (auto simp: slab_alloc_def slice_alloc_def ushl_def usub_def)
qed

text \<open>A slab that is given out was not in use, lies in the area and is in use afterwards; giving it back restores the
  allocator.  The last slab, which may reach past the end of the area, is never given out.\<close>

lemma slab_alloc_ok:
  assumes ops: "bit_field ops (\<lambda>bs. 8 * length bs) bytes_bit" and s: "slab_ok t s"
  shows "(\<exists>i a s'. slab_alloc ops t s = Inr (Some a, s') \<and> i \<notin> slabs_used s \<and> unat a = unat (slab_bottom s) + i * unat (slab_size s) \<and>
       slab_at s i \<subseteq> {unat (slab_bottom s) ..< unat (slab_top s)} \<and> slab_ok t s' \<and> slabs_used s' = insert i (slabs_used s) \<and>
       slab_free ops a s' = Inr s) \<or>
     {..< 8 * length (slab_bitmap s) - 1} \<subseteq> slabs_used s \<and> slab_alloc ops t s = Inr (None, s)"
proof -
  let ?bs = "slab_bitmap s" and ?z = "unat (slab_size s)" and ?b = "unat (slab_bottom s)"
  have z: "0 < ?z" "?bs \<noteq> []" "?b + (8 * length ?bs - 1) * ?z \<le> unat (slab_top s)"
    and v: "\<And>a. ?b \<le> unat a \<Longrightarrow> unat a \<le> unat (slab_top s) \<Longrightarrow> vaddr_valid t a"
    using s by (auto simp: slab_ok_def word_less_nat_alt)
  have l: "1 \<le> 8 * length ?bs" using z(2) by (cases ?bs) simp_all
  have one: "0 < (1 :: nat)" "1 < (8 :: nat)" by simp_all
  from slice_alloc_cases [OF ops one l] show ?thesis
  proof (elim disjE conjE exE, goal_cases)
    case (1 i bs')
    have i: "Suc i * ?z \<le> (8 * length ?bs - 1) * ?z" using 1(1) by (intro mult_le_mono1) simp
    then have top: "?b + Suc i * ?z \<le> unat (slab_top s)" using z(3) by simp
    then have lt: "?b + i * ?z < 2 ^ 64" using unsigned_less [of "slab_top s", where 'a = nat] by simp
    have "i \<le> i * ?z" using z(1) by simp
    then have i64: "i < 2 ^ 64" using lt by linarith
    then have ui: "unat (of_nat i :: usize) = i" by (simp add: unat_of_nat)
    define off where "off = of_nat i * slab_size s"
    have off: "umul (of_nat i) (slab_size s) = Inr off" "unat off = i * ?z"
      using lt ui by (simp_all add: off_def umul_def unat_mult_lem [THEN iffD1])
    define a where "a = slab_bottom s + off"
    have a: "unat a = ?b + i * ?z" using lt off(2) by (simp add: a_def unat_add_no_overflow)
    then have "vaddr_add t (slab_bottom s) off = Inr a"
      using lt off(2) top v [of a] by (simp add: vaddr_add_def uadd_def a_def)
    then have al: "slab_alloc ops t s = Inr (Some a, s\<lparr>slab_bitmap := bs'\<rparr>)"
      using 1 off(1) by (simp add: slab_alloc_def)
    have ib: "i + 1 \<le> 8 * length bs'" "{i ..< i + 1} \<subseteq> {k. bytes_bit bs' k}" using 1(1,5,6) by simp_all
    obtain bs where bs: "slice_free ops bs' i 1 = Inr bs" "length bs = length bs'" "{k. bytes_bit bs k} = {k. bytes_bit bs' k} - {i ..< i + 1}"
      using slice_free_ok [OF ops one ib(1), unfolded if_P [OF ib(2)]] by blast
    have "bs = ?bs" using bs(2,3) 1 by (intro bytes_bit_inject) auto
    moreover have "a - slab_bottom s = off" by (simp add: a_def)
    moreover have "slab_bottom s \<le> a" using a by (simp add: word_le_nat_alt)
    moreover have "off mod slab_size s = 0" "unat (off div slab_size s) = i"
      using z(1) off(2) by (simp_all add: unat_mod unat_div flip: unat_eq_zero)
    ultimately have "slab_free ops a (s\<lparr>slab_bitmap := bs'\<rparr>) = Inr s"
      using bs(1) z(1) by (auto simp: slab_free_def usub_def urem_def udiv_def)
    then show ?case
      using al a top s 1 by (intro disjI1 exI [of _ i] exI [of _ a] exI [of _ "s\<lparr>slab_bitmap := bs'\<rparr>"])
        (auto simp: slab_ok_def slabs_used_def slab_at_def)
  qed (auto simp: slabs_used_def slab_alloc_def)
qed

end
