(* ===== verification/Spec2Isabelle.thy ===== *)
theory Spec2Isabelle
  imports Platform_Bus Mulch_Ranges Mulch_Bipqueue Processor_Walk Area_Termination Kernel_Slab
begin

text \<open>
  A verification development for Poplar, a microkernel operating system written in Rust.

  \<^bold>\<open>The program.\<close>  A boot loader (\<open>seed\<close>) hands the kernel a memory map.  The kernel
  (\<open>kernel\<close>) takes frames from it with an early allocator, moves them into a physical memory manager
  over a buddy allocator, builds page tables through the hardware abstraction layer (\<open>lib/hal\<close>,
  \<open>lib/hal_x86_64\<close>, \<open>lib/hal_riscv\<close>), and then runs tasks.  Tasks own handles to kernel objects and
  make system calls; the user library (\<open>lib/poplar\<close>) decodes what a call returns.  Tasks talk
  to each other over channels with messages in the format of \<open>lib/ptah\<close>, among them the platform bus
  (\<open>user/platform_bus\<close>) and the drivers.  \<open>lib/mulch\<close> holds helpers used throughout.

  \<^bold>\<open>How code is written here.\<close>  The theory \<open>Prelude\<close> fixes the vocabulary: a function that can
  panic is a function into \<open>panic + 'a\<close>, and each arithmetic operation, index, assertion and
  \<open>unwrap\<close> of the source is a branch that can panic.  Machine integers are words of their width.  An
  arithmetic overflow is the panic \<open>Overflow\<close>, as in the development profile of the build; the release
  profile wraps instead.  A theorem that concludes a result \<open>Inr\<close> therefore holds in both profiles.
  \<open>Fallible_State\<close> adds state and errors: the type \<open>sys\<close> of operations that change a state and end
  with a result, an error or a panic, and a calculus of weakest preconditions for them.  Locks are not
  modelled, because every operation of the kernel holds the lock it needs for its whole duration; the
  one lock-free structure, the byte queue, is modelled with its interleavings.

  \<^bold>\<open>Memory.\<close>
  \<^item> \<open>Mulch_Math\<close>, \<open>Hal_Memory\<close>: \<open>lib/mulch/src/math.rs\<close> and \<open>lib/hal/src/memory\<close>.  Alignment
    is the least multiple, addresses are canonical.  \<open>target\<close> is the platform the code is compiled for.
  \<^item> \<open>Allocator_Spec\<close>: the contracts of allocators, \<open>block_allocator\<close> and \<open>frame_source\<close>, as
    locales, with what every client may conclude.  \<open>Dyadic_Blocks\<close>: the mathematics of aligned blocks.
  \<^item> \<open>Kernel_Buddy\<close>: \<open>kernel/src/pmm/buddy.rs\<close>, which implements the contract: the free memory is
    the union of the blocks in the bins, allocation takes an aligned block from it exactly when there is
    one, freeing gives it back, and every session of a client is safe and loses nothing.
  \<^item> \<open>Kernel_Bootinfo\<close>, \<open>Kernel_Pmm\<close>: \<open>seed/seed_bootinfo\<close>, \<open>kernel/src/bootinfo.rs\<close> and
    \<open>kernel/src/pmm/mod.rs\<close>: the early allocator and the manager built from the memory map.
  \<^item> \<open>Hal_Page_Tables\<close>: the operations on page tables that both architectures share, over the record
    \<open>paging_format\<close> of what differs.  \<open>Page_Geometry\<close>, \<open>Page_Tree\<close>, \<open>Page_Mapping\<close>,
    \<open>Page_Lookup\<close>, \<open>Area_Mapping\<close> and \<open>Page_Tables_Spec\<close> prove them correct for every format
    that satisfies the locale \<open>entry_format\<close> and every \<open>frame_source\<close>, against \<open>mmu\<close>, the walk of
    the processor.  \<open>Area_Termination\<close> shows that the mapping of an area always ends.
  \<^item> \<open>Hal_X86_64\<close> and \<open>Hal_Riscv\<close>: \<open>lib/hal_x86_64/src/paging.rs\<close> and
    \<open>lib/hal_riscv/src/paging.rs\<close> (Sv48 and Sv39), their formats of entries, the interpretations with
    the physical memory manager and the early allocator, and the theorems for each.  \<open>Blank_Tables\<close> has
    the empty tables on which the theorems are instantiated.
  \<^item> \<open>Processor_Walk\<close>: \<open>mmu\<close> reads entries through the format of the code, so that a wrong mask or
    flag would be in both.  Here the walks are written from the manuals of the architectures over raw bits,
    and the pages that the code maps are found by them, with the permissions that were asked for.

  \<^bold>\<open>Kernel.\<close>
  \<^item> \<open>Kernel_Handles\<close>, \<open>Kernel_Objects\<close>, \<open>Kernel_State\<close>: \<open>kernel/src/object\<close> and
    \<open>kernel/src/vmm\<close>: the handle table of a task, the kernel objects with the operations of each, and
    the heap of objects with strong and weak references; \<open>collect\<close> drops what is not referenced.
    \<open>Kernel_Slab\<close>: the slab allocator of \<open>kernel/src/vmm\<close>, over the bitmap of \<open>lib/mulch\<close>.
  \<^item> \<open>Kernel_Scheduler\<close>: \<open>kernel/src/scheduler.rs\<close>: which task runs, and that tasks take turns.
  \<^item> \<open>Kernel_Validation\<close>, \<open>Kernel_Syscall\<close>: \<open>kernel/src/syscall\<close>: access to the memory of a
    task, and every system call.  The code does not check the addresses a task passes, and the memory of
    tasks is a total function here: a fault of the processor at an address that is not mapped is outside
    of the model, and no theorem excludes it.
  \<^item> \<open>Kernel_Safety\<close>, \<open>Kernel_Invariant\<close>: the invariant of the kernel holds in every reachable state, and
    the system calls that do not allocate physical memory do not panic.
  \<^item> \<open>Kernel_Messages\<close>: \<open>send_message\<close> and \<open>get_message\<close> refine a queue of messages per channel
    end, the relation \<open>channel_step\<close>; what moves between the two tasks is what the queues carry.
  \<^item> \<open>Poplar_Abi\<close>: \<open>lib/poplar/src/syscall\<close>: what the kernel encodes the client decodes.

  \<^bold>\<open>Messages between tasks.\<close>
  \<^item> \<open>Ptah_Wire\<close>: \<open>lib/ptah/src\<close>: the serialization of messages, with its writers.  \<open>Ptah_Codec\<close>:
    every serializer gives the same items to every writer, and every deserializer reads the items back;
    the locale \<open>wire_writer\<close> is the contract of a writer, interpreted by the vector, the cursor and the
    writer of a channel.
  \<^item> \<open>Bus_Messages\<close>, \<open>Bus_Codec\<close>: the messages of \<open>user/platform_bus\<close> and \<open>user/service_host\<close> and
    the manifest of the first task (\<open>lib/poplar/src/manifest.rs\<close>), with the code that
    \<open>lib/ptah/ptah_derive\<close> generates for them.
  \<^item> \<open>Poplar_Channel\<close>: \<open>lib/poplar/src/channel.rs\<close>: typed channels over the system calls.  In the locale
    \<open>message_type\<close> a message is followed from the sender through the kernel to the receiver, once for
    all types; the types of messages interpret it.  The relation \<open>traffic\<close> is what tasks do with typed
    channels, in any order and with preemptions.
  \<^item> \<open>Platform_Bus\<close>: \<open>user/platform_bus/src/main.rs\<close>: the task that gives devices to drivers, as a relation
    between its states, and that no device is given away twice.

  \<^bold>\<open>Helpers.\<close>
  \<^item> \<open>Mulch_Bitmap\<close>, \<open>Mulch_Ranges\<close>, \<open>Mulch_Bipqueue\<close>: \<open>lib/mulch/src\<close>: bitmap allocation,
    ranges, and the byte queue for one producer and one consumer, whose atomic accesses are the steps of
    the relation \<open>spsc_step\<close>.
  \<^item> \<open>Bit_Fields\<close>, \<open>Bit_Flags\<close>: the operations of the crates \<open>bit_field\<close> and \<open>bitflags\<close>, which
    are not part of the repository: they are parameters of the definitions that use them, and the locales
    \<open>bit_field\<close> and \<open>bitflags\<close> state what the crates document.  Both are interpreted by operations
    on words.

  \<^bold>\<open>Loops.\<close>  Loops are recursive functions with a termination proof, except \<open>map_area_loop\<close>, which
  is a partial function whose termination is the theorem \<open>map_area_returns\<close>.  The only fuel
  is the bound on the nesting of filters in \<open>deserialize_nested\<close>, the number of bytes that are left, and
  \<open>deserialize_filter_unfold\<close> shows that it changes nothing.

  \<^bold>\<open>Not modelled.\<close>  Inline assembly, control registers, memory mapped devices, interrupt controllers
  and firmware calls (the platform crates of the kernel, \<open>hw\<close> of both architectures, the boot loaders,
  the device drivers): what they do is not in the source.  Wrappers of third-party executors (the tasklets of
  the kernel, the runtime of user tasks).  The readers of file formats that only the boot loaders and
  drivers use (ELF, GPT, TOML, USB descriptors) and the scripting language of the console.  Formatting and
  logging.  Procedural macros, of which only the generated code is modelled.  The build system.
\<close>

end
